(* ===== verification/Prelude.thy ===== *)
theory Prelude
  imports Main
    "HOL-Library.Word"
    "HOL-Library.AList"
    "HOL-Library.Multiset"
    "HOL-Library.Char_ord"
    "HOL-Library.List_Lexorder"
    "HOL-Library.Product_Lexorder"
begin

text \<open>
  What every component of the model shares.

  \<^item> Go's maps: an association list with one entry per key.  A \<open>range\<close> loop visits the
    entries in an order the runtime chooses; \<open>shuffle\<close> turns a seed (a list of naturals)
    into one such order, and every order of the entries arises from some seed.
  \<^item> Fallible stateful code: a program of type \<open>('s, 'e, 'a) prog\<close> takes the state and
    returns an error (\<open>Inl\<close>) or a value (\<open>Inr\<close>) together with the new state.  \<open>bindP\<close> is
    Go's \<open>if err != nil { return err }\<close>: it stops at the first error and keeps the effects
    made before it.
  \<^item> The functions of Go's package \<open>strings\<close> the program uses.  A Go string is a sequence
    of bytes, modelled as a list of characters (one per byte).
\<close>

named_theorems gomap_simps \<open>lookup and range facts of Go maps\<close>
named_theorems prog_simps \<open>evaluation of stateful programs\<close>

section \<open>Go maps\<close>

type_synonym ('k, 'v) gomap = "('k \<times> 'v) list"

abbreviation gm_get :: "('k, 'v) gomap \<Rightarrow> 'k \<Rightarrow> 'v option" where
  "gm_get m \<equiv> map_of m"

abbreviation gm_put :: "'k \<Rightarrow> 'v \<Rightarrow> ('k, 'v) gomap \<Rightarrow> ('k, 'v) gomap" where
  "gm_put \<equiv> AList.update"

abbreviation gm_delete :: "'k \<Rightarrow> ('k, 'v) gomap \<Rightarrow> ('k, 'v) gomap" where
  "gm_delete \<equiv> AList.delete"

abbreviation gm_ok :: "('k, 'v) gomap \<Rightarrow> bool" where
  "gm_ok m \<equiv> distinct (map fst m)"

lemma gm_get_put [simp, gomap_simps]:
  "gm_get (gm_put k v m) k' = (if k' = k then Some v else gm_get m k')"
  by (simp add: update_conv')

lemma gm_get_delete [simp, gomap_simps]:
  "gm_get (gm_delete k m) k' = (if k' = k then None else gm_get m k')"
  by (simp add: delete_conv')

lemma gm_ok_put [simp, intro]: "gm_ok m \<Longrightarrow> gm_ok (gm_put k v m)"
  by (rule distinct_update)

lemma gm_ok_delete [simp, intro]: "gm_ok m \<Longrightarrow> gm_ok (gm_delete k m)"
  by (rule distinct_delete)

lemma gm_mem_iff: "gm_ok m \<Longrightarrow> (k, v) \<in> set m \<longleftrightarrow> gm_get m k = Some v"
  by simp

text \<open>The order in which a \<open>range\<close> loop visits a map, chosen by a seed.\<close>

fun shuffle :: "nat list \<Rightarrow> 'a list \<Rightarrow> 'a list" where
  "shuffle seed [] = []"
| "shuffle [] (x # xs) = x # xs"
| "shuffle (n # ns) (x # xs) =
     (let ys = x # xs; i = n mod length ys
      in ys ! i # shuffle ns (take i ys @ drop (Suc i) ys))"

lemma mset_take_nth_drop:
  assumes "i < length ys"
  shows "add_mset (ys ! i) (mset (take i ys) + mset (drop (Suc i) ys)) = mset ys"
proof -
  have "mset ys = mset (take i ys @ ys ! i # drop (Suc i) ys)"
    using assms by (simp add: id_take_nth_drop [symmetric])
  then show ?thesis by simp
qed

lemma mset_shuffle [simp, gomap_simps]: "mset (shuffle seed xs) = mset xs"
proof (induction seed xs rule: shuffle.induct)
  case (3 n ns x xs)
  let ?ys = "x # xs"
  let ?i = "n mod length ?ys"
  have i: "?i < length ?ys" by simp
  have "mset (shuffle (n # ns) ?ys) = add_mset (?ys ! ?i) (mset (take ?i ?ys @ drop (Suc ?i) ?ys))"
    using "3.IH" [OF refl refl] by (simp add: Let_def)
  also have "\<dots> = mset ?ys"
    using mset_take_nth_drop [OF i] by simp
  finally show ?case .
qed simp_all

lemma set_shuffle [simp, gomap_simps]: "set (shuffle seed xs) = set xs"
  by (metis mset_shuffle set_mset_mset)

lemma length_shuffle [simp, gomap_simps]: "length (shuffle seed xs) = length xs"
  by (metis mset_shuffle size_mset)

lemma shuffle_eq_Nil [simp]: "shuffle seed xs = [] \<longleftrightarrow> xs = []"
  by (metis mset_shuffle mset_zero_iff)

lemma distinct_shuffle [simp]: "distinct (shuffle seed xs) = distinct xs"
  by (metis mset_eq_imp_distinct_iff mset_shuffle)

lemma mset_map_shuffle: "mset (map f (shuffle seed xs)) = mset (map f xs)"
  by simp

lemma gm_ok_shuffle [simp]: "gm_ok (shuffle seed m) = gm_ok m"
  by (metis mset_eq_imp_distinct_iff mset_map_shuffle)

lemma gm_get_shuffle [simp, gomap_simps]: "gm_ok m \<Longrightarrow> gm_get (shuffle seed m) = gm_get m"
  by (rule map_of_inject_set [THEN iffD2]) simp_all

section \<open>Programs that may fail and change a state\<close>

type_synonym ('s, 'e, 'a) prog = "'s \<Rightarrow> ('e + 'a) \<times> 's"

definition retP :: "'a \<Rightarrow> ('s, 'e, 'a) prog" where
  "retP x = (\<lambda>s. (Inr x, s))"

definition failP :: "'e \<Rightarrow> ('s, 'e, 'a) prog" where
  "failP e = (\<lambda>s. (Inl e, s))"

definition bindP :: "('s, 'e, 'a) prog \<Rightarrow> ('a \<Rightarrow> ('s, 'e, 'b) prog) \<Rightarrow> ('s, 'e, 'b) prog" where
  "bindP m k = (\<lambda>s. case m s of (Inl e, s') \<Rightarrow> (Inl e, s') | (Inr x, s') \<Rightarrow> k x s')"

text \<open>\<open>wrapP f m\<close> passes an error of \<open>m\<close> through \<open>f\<close>, as \<open>fmt.Errorf("...: %w", err)\<close> does.\<close>

definition wrapP :: "('e \<Rightarrow> 'e) \<Rightarrow> ('s, 'e, 'a) prog \<Rightarrow> ('s, 'e, 'a) prog" where
  "wrapP f m = (\<lambda>s. case m s of (Inl e, s') \<Rightarrow> (Inl (f e), s') | (Inr x, s') \<Rightarrow> (Inr x, s'))"

lemma retP_apply [simp, prog_simps]: "retP x s = (Inr x, s)"
  by (simp add: retP_def)

lemma failP_apply [simp, prog_simps]: "failP e s = (Inl e, s)"
  by (simp add: failP_def)

lemma bindP_Inr [simp, prog_simps]: "m s = (Inr x, s') \<Longrightarrow> bindP m k s = k x s'"
  by (simp add: bindP_def)

lemma bindP_Inl [simp, prog_simps]: "m s = (Inl e, s') \<Longrightarrow> bindP m k s = (Inl e, s')"
  by (simp add: bindP_def)

lemma wrapP_Inr [simp, prog_simps]: "m s = (Inr x, s') \<Longrightarrow> wrapP f m s = (Inr x, s')"
  by (simp add: wrapP_def)

lemma wrapP_Inl [simp, prog_simps]: "m s = (Inl e, s') \<Longrightarrow> wrapP f m s = (Inl (f e), s')"
  by (simp add: wrapP_def)

lemma bindP_eq_Inr:
  "bindP m k s = (Inr y, s'') \<longleftrightarrow> (\<exists>x s'. m s = (Inr x, s') \<and> k x s' = (Inr y, s''))"
  by (auto simp: bindP_def split: prod.splits sum.splits)

lemma bindP_eq_Inl:
  "bindP m k s = (Inl e, s'') \<longleftrightarrow>
     m s = (Inl e, s'') \<or> (\<exists>x s'. m s = (Inr x, s') \<and> k x s' = (Inl e, s''))"
  by (auto simp: bindP_def split: prod.splits sum.splits)

lemma wrapP_eq_Inr [simp]: "wrapP f m s = (Inr y, s') \<longleftrightarrow> m s = (Inr y, s')"
  by (auto simp: wrapP_def split: prod.splits sum.splits)

lemma wrapP_eq_Inl: "wrapP f m s = (Inl e, s') \<longleftrightarrow> (\<exists>e'. m s = (Inl e', s') \<and> e = f e')"
  by (auto simp: wrapP_def split: prod.splits sum.splits)

lemma snd_wrapP [simp]: "snd (wrapP f m s) = snd (m s)"
  by (simp add: wrapP_def split: prod.splits sum.splits)

text \<open>
  A property of the state that a program keeps whatever it returns: the rule every
  invariant proof of a composed operation uses.
\<close>

definition keeps :: "('s \<Rightarrow> 's \<Rightarrow> bool) \<Rightarrow> ('s, 'e, 'a) prog \<Rightarrow> bool" where
  "keeps R m \<longleftrightarrow> (\<forall>s. R s (snd (m s)))"

lemma keepsI: "(\<And>s. R s (snd (m s))) \<Longrightarrow> keeps R m"
  by (simp add: keeps_def)

lemma keepsD: "keeps R m \<Longrightarrow> R s (snd (m s))"
  by (simp add: keeps_def)

lemma keepsD': "keeps R m \<Longrightarrow> m s = (r, s') \<Longrightarrow> R s s'"
  by (metis keepsD snd_conv)

lemma keeps_wrapP [simp]: "keeps R m \<Longrightarrow> keeps R (wrapP f m)"
  by (simp add: keeps_def)

lemma keeps_bindP:
  assumes R: "transp R" and m: "keeps R m" and k: "\<And>x. keeps R (k x)"
  shows "keeps R (bindP m k)"
proof (rule keepsI)
  fix s
  show "R s (snd (bindP m k s))"
  proof (cases "m s")
    case (Pair r s')
    have 1: "R s s'" using m Pair by (rule keepsD')
    show ?thesis
    proof (cases r)
      case (Inl e)
      then show ?thesis using 1 Pair by simp
    next
      case (Inr x)
      have "R s' (snd (k x s'))" using k by (rule keepsD)
      then show ?thesis using 1 R Pair Inr by (auto dest: transpD)
    qed
  qed
qed

section \<open>Functions of Go's package strings\<close>

text \<open>\<open>strings.HasPrefix\<close> and \<open>strings.TrimPrefix\<close>.\<close>

fun HasPrefix :: "string \<Rightarrow> string \<Rightarrow> bool" where
  "HasPrefix s [] = True"
| "HasPrefix [] (p # ps) = False"
| "HasPrefix (c # cs) (p # ps) = (c = p \<and> HasPrefix cs ps)"

definition TrimPrefix :: "string \<Rightarrow> string \<Rightarrow> string" where
  "TrimPrefix s p = (if HasPrefix s p then drop (length p) s else s)"

lemma HasPrefix_append [simp]: "HasPrefix (p @ s) p"
  by (induction p) auto

lemma TrimPrefix_append [simp]: "TrimPrefix (p @ s) p = s"
  by (simp add: TrimPrefix_def)

lemma HasPrefix_iff: "HasPrefix s p \<longleftrightarrow> (\<exists>t. s = p @ t)"
proof
  show "HasPrefix s p \<Longrightarrow> \<exists>t. s = p @ t"
    by (induction s p rule: HasPrefix.induct) auto
qed auto

text \<open>\<open>strings.SplitN(s, sep, 2)\<close> for a one-byte separator, and \<open>strings.Split\<close>.\<close>

fun split_at :: "char \<Rightarrow> string \<Rightarrow> string \<times> string option" where
  "split_at sep [] = ([], None)"
| "split_at sep (c # cs) =
     (if c = sep then ([], Some cs) else (case split_at sep cs of (a, b) \<Rightarrow> (c # a, b)))"

definition SplitN2 :: "string \<Rightarrow> char \<Rightarrow> string list" where
  "SplitN2 s sep = (case split_at sep s of (a, None) \<Rightarrow> [a] | (a, Some b) \<Rightarrow> [a, b])"

fun Split :: "char \<Rightarrow> string \<Rightarrow> string list" where
  "Split sep [] = [[]]"
| "Split sep (c # cs) =
     (if c = sep then [] # Split sep cs
      else (case Split sep cs of [] \<Rightarrow> [[c]] | p # ps \<Rightarrow> (c # p) # ps))"

lemma split_at_first: "sep \<notin> set a \<Longrightarrow> split_at sep (a @ sep # b) = (a, Some b)"
  by (induction a) auto

lemma split_at_none: "sep \<notin> set a \<Longrightarrow> split_at sep a = (a, None)"
  by (induction a) auto

lemma split_at_Some: "split_at sep s = (a, Some b) \<Longrightarrow> s = a @ sep # b \<and> sep \<notin> set a"
  by (induction s arbitrary: a) (auto split: if_splits prod.splits)

lemma split_at_None: "split_at sep s = (a, None) \<Longrightarrow> s = a \<and> sep \<notin> set s"
  by (induction s arbitrary: a) (auto split: if_splits prod.splits)

lemma SplitN2_pair [simp]: "sep \<notin> set a \<Longrightarrow> SplitN2 (a @ sep # b) sep = [a, b]"
  by (simp add: SplitN2_def split_at_first)

text \<open>\<open>strings.TrimSpace\<close> on the ASCII white space, \<open>strings.TrimRight\<close> of one byte.\<close>

definition is_space :: "char \<Rightarrow> bool" where
  "is_space c \<longleftrightarrow> of_char c \<in> {9, 10, 11, 12, 13, 32 :: nat}"

definition TrimSpace :: "string \<Rightarrow> string" where
  "TrimSpace s = rev (dropWhile is_space (rev (dropWhile is_space s)))"

definition TrimRight :: "string \<Rightarrow> char \<Rightarrow> string" where
  "TrimRight s c = rev (dropWhile (\<lambda>x. x = c) (rev s))"

lemma dropWhile_hd: "xs \<noteq> [] \<Longrightarrow> \<not> P (hd xs) \<Longrightarrow> dropWhile P xs = xs"
  by (cases xs) auto

lemma TrimSpace_idem [simp]: "TrimSpace (TrimSpace s) = TrimSpace s"
proof (cases "TrimSpace s = []")
  case True
  have "TrimSpace [] = []" by (simp add: TrimSpace_def)
  then show ?thesis by (simp only: True)
next
  case False
  let ?u = "dropWhile is_space s"
  have "?u = TrimSpace s @ rev (takeWhile is_space (rev ?u))"
    using takeWhile_dropWhile_id [of is_space "rev ?u"] by (metis TrimSpace_def rev_append rev_rev_ident)
  then have "hd ?u = hd (TrimSpace s)" "?u \<noteq> []" using False by (metis hd_append2, metis append_is_Nil_conv)
  then have "\<not> is_space (hd (TrimSpace s))" using hd_dropWhile [of is_space s] by metis
  then have "dropWhile is_space (TrimSpace s) = TrimSpace s" using False by (intro dropWhile_hd)
  moreover have "dropWhile is_space (rev (TrimSpace s)) = rev (TrimSpace s)"
    by (simp add: TrimSpace_def)
  ultimately show ?thesis by (metis TrimSpace_def rev_rev_ident)
qed

text \<open>
  \<open>path[strings.LastIndex(path, "/")+1:]\<close>: what follows the last slash, the whole string
  when there is none (\<open>LastIndex\<close> is then \<open>-1\<close>).
\<close>

definition after_last :: "char \<Rightarrow> string \<Rightarrow> string" where
  "after_last sep s = rev (takeWhile (\<lambda>c. c \<noteq> sep) (rev s))"

lemma after_last_append [simp]: "sep \<notin> set b \<Longrightarrow> after_last sep (a @ sep # b) = b"
  by (simp add: after_last_def takeWhile_append)

lemma after_last_no_sep: "sep \<notin> set (after_last sep s)"
  by (auto simp: after_last_def dest: set_takeWhileD)

text \<open>\<open>strings.Join\<close>.\<close>

fun Join :: "string list \<Rightarrow> string \<Rightarrow> string" where
  "Join [] sep = []"
| "Join [x] sep = x"
| "Join (x # xs) sep = x @ sep @ Join xs sep"

section \<open>Numbers as text\<close>

text \<open>
  \<open>strconv.Atoi\<close>: an optional sign and decimal digits, \<open>None\<close> for any other text and for
  numbers that do not fit into 64 bits.
\<close>

definition digit_value :: "char \<Rightarrow> nat option" where
  "digit_value c = (let n = of_char c :: nat in if 48 \<le> n \<and> n \<le> 57 then Some (n - 48) else None)"

fun digits_value :: "nat \<Rightarrow> string \<Rightarrow> nat option" where
  "digits_value acc [] = Some acc"
| "digits_value acc (c # cs) = (case digit_value c of None \<Rightarrow> None | Some d \<Rightarrow> digits_value (acc * 10 + d) cs)"

definition Atoi :: "string \<Rightarrow> int option" where
  "Atoi s =
     (let neg = (take 1 s = ''-''); ds = (if take 1 s = ''-'' \<or> take 1 s = ''+'' then drop 1 s else s) in
      if ds = [] then None
      else (case digits_value 0 ds of
              None \<Rightarrow> None
            | Some n \<Rightarrow>
                if neg then (if n \<le> 2 ^ 63 then Some (- int n) else None)
                else (if n < 2 ^ 63 then Some (int n) else None)))"

text \<open>The decimal text of a natural number.\<close>

fun decimal :: "nat \<Rightarrow> string" where
  "decimal n = (if n < 10 then [char_of (48 + n)] else decimal (n div 10) @ [char_of (48 + n mod 10)])"

declare decimal.simps [simp del]

lemma digits_value_append: "digits_value acc (xs @ ys) = (case digits_value acc xs of None \<Rightarrow> None | Some a \<Rightarrow> digits_value a ys)"
  by (induction xs arbitrary: acc) (auto split: option.split)

lemma digit_value_char [simp]: "d < 10 \<Longrightarrow> digit_value (char_of (48 + d)) = Some d"
  by (simp add: digit_value_def Let_def)

lemma digits_value_decimal [simp]: "digits_value 0 (decimal n) = Some n"
proof (induction n rule: decimal.induct)
  case (1 n)
  show ?case
  proof (cases "n < 10")
    case True
    then show ?thesis by (simp add: decimal.simps)
  next
    case False
    then show ?thesis using 1 by (subst decimal.simps) (simp add: digits_value_append)
  qed
qed

lemma decimal_head: "decimal n \<noteq> [] \<and> digit_value (hd (decimal n)) \<noteq> None"
proof (induction n rule: decimal.induct)
  case (1 n)
  then show ?case by (subst (1 2) decimal.simps) simp
qed

lemma Atoi_decimal: "n < 2 ^ 63 \<Longrightarrow> Atoi (decimal n) = Some (int n)"
proof -
  assume n: "n < 2 ^ 63"
  obtain c cs where d: "decimal n = c # cs" "digit_value c \<noteq> None"
    using decimal_head [of n] by (cases "decimal n") auto
  then have "c \<noteq> CHR ''-''" "c \<noteq> CHR ''+''" by (auto simp: digit_value_def)
  then show ?thesis
    using n d(1) digits_value_decimal [of n] by (simp add: Atoi_def Let_def)
qed

section \<open>Sorted lists\<close>

lemma sorted_le_last: "sorted xs \<Longrightarrow> x \<in> set xs \<Longrightarrow> x \<le> last xs"
  by (induction xs) auto

text \<open>Go's \<open>int\<close> has 64 bits: arithmetic on it wraps around.\<close>

definition wrap64 :: "int \<Rightarrow> int" where
  "wrap64 i = sint (word_of_int i :: 64 word)"

lemma wrap64_id: "- (2 ^ 63) \<le> i \<Longrightarrow> i < 2 ^ 63 \<Longrightarrow> wrap64 i = i"
  by (simp add: wrap64_def sint_sbintrunc' signed_take_bit_int_eq_self)

end
