(* ===== verification/Go_Json.thy ===== *)
theory Go_Json
  imports Prelude
begin

text \<open>
  The dynamic values of the program (Go's \<open>any\<close>, the type of \<open>CRDTOp.Value\<close>) and what
  package \<open>encoding/json\<close> does to them.  The storage layer writes a value with
  \<open>json.Marshal\<close> and reads it back with \<open>json.Unmarshal\<close> into an \<open>any\<close>, so a stored
  value is the JSON image of the one that was pushed: integers come back as \<open>float64\<close>,
  byte strings as base64 text, and NaN and the infinities cannot be stored at all.

  A JSON text is modelled by its syntax tree; white space, escapes and the decimal
  spelling of numbers are not modelled.  An integer literal (\<open>JInt\<close>) is kept apart from
  the shortest decimal form of a finite float (\<open>JFloat\<close>), which \<open>strconv\<close> reads back to
  the same float.  Strings are valid UTF-8 (the CBOR decoder refuses others).  The values
  are those the CBOR decoder produces for an \<open>any\<close>, except tagged ones.
\<close>

section \<open>Values\<close>

text \<open>A \<open>float64\<close>: \<open>Fin s m e\<close> is \<open>m * 2 ^ e\<close>, negative when \<open>s\<close> holds.\<close>

datatype float64 = NaN | Inf bool | Fin bool nat int

datatype goval =
    GNil
  | GBool bool
  | GInt "64 word"
  | GUint "64 word"
  | GFloat float64
  | GString string
  | GBytes string
  | GArr "goval list"
  | GMap "(string \<times> goval) list"

datatype json =
    JNull
  | JBool bool
  | JInt int
  | JFloat bool nat int
  | JString string
  | JArr "json list"
  | JObj "(string \<times> json) list"

section \<open>Base64\<close>

definition b64_std :: string where
  "b64_std = ''ABCDEFGHIJKLMNOPQRSTUVWXYZabcdefghijklmnopqrstuvwxyz0123456789+/''"

definition b64_char :: "nat \<Rightarrow> char" where
  "b64_char n = b64_std ! (n mod 64)"

fun base64_std :: "string \<Rightarrow> string" where
  "base64_std [] = []"
| "base64_std [a] =
     (let x = of_char a :: nat
      in [b64_char (x div 4), b64_char (x * 16), CHR ''='', CHR ''=''])"
| "base64_std [a, b] =
     (let x = of_char a * 256 + of_char b :: nat
      in [b64_char (x div 1024), b64_char (x div 16), b64_char (x * 4), CHR ''=''])"
| "base64_std (a # b # c # cs) =
     (let x = (of_char a * 256 + of_char b) * 256 + of_char c :: nat
      in b64_char (x div 262144) # b64_char (x div 4096) # b64_char (x div 64) # b64_char x
         # base64_std cs)"

section \<open>Marshal\<close>

text \<open>\<open>json.Marshal\<close> fails exactly on NaN and the infinities.\<close>

primrec finite_f64 :: "float64 \<Rightarrow> bool" where
  "finite_f64 NaN = False"
| "finite_f64 (Inf s) = False"
| "finite_f64 (Fin s m e) = True"

primrec marshalable :: "goval \<Rightarrow> bool" where
  "marshalable GNil = True"
| "marshalable (GBool b) = True"
| "marshalable (GInt n) = True"
| "marshalable (GUint n) = True"
| "marshalable (GFloat f) = finite_f64 f"
| "marshalable (GString s) = True"
| "marshalable (GBytes s) = True"
| "marshalable (GArr vs) = list_all (\<lambda>b. b) (map marshalable vs)"
| "marshalable (GMap kvs) = list_all snd (map (map_prod id marshalable) kvs)"

primrec f64_json :: "float64 \<Rightarrow> json" where
  "f64_json NaN = JNull"
| "f64_json (Inf s) = JNull"
| "f64_json (Fin s m e) = JFloat s m e"

text \<open>The tree that is written when nothing fails; object keys are sorted.\<close>

primrec to_json :: "goval \<Rightarrow> json" where
  "to_json GNil = JNull"
| "to_json (GBool b) = JBool b"
| "to_json (GInt n) = JInt (sint n)"
| "to_json (GUint n) = JInt (uint n)"
| "to_json (GFloat f) = f64_json f"
| "to_json (GString s) = JString s"
| "to_json (GBytes s) = JString (base64_std s)"
| "to_json (GArr vs) = JArr (map to_json vs)"
| "to_json (GMap kvs) = JObj (sort_key fst (map (map_prod id to_json) kvs))"

definition json_marshal :: "goval \<Rightarrow> json option" where
  "json_marshal v = (if marshalable v then Some (to_json v) else None)"

section \<open>Unmarshal into an any\<close>

text \<open>Rounding of an integer literal to the nearest \<open>float64\<close>, ties to even.\<close>

fun bit_len :: "nat \<Rightarrow> nat" where
  "bit_len n = (if n = 0 then 0 else Suc (bit_len (n div 2)))"

declare bit_len.simps [simp del]

definition f64_of_int :: "int \<Rightarrow> float64" where
  "f64_of_int n =
     (let a = nat \<bar>n\<bar>; s = (n < 0) in
      if a < 2 ^ 53 then Fin s a 0
      else
        let k = bit_len a - 53; q = a div 2 ^ k; r = a mod 2 ^ k; half = 2 ^ (k - 1)
        in Fin s (if half < r \<or> r = half \<and> odd q then q + 1 else q) (int k))"

text \<open>A key that occurs twice in an object keeps its last value.\<close>

definition gm_of_list :: "(string \<times> 'v) list \<Rightarrow> (string, 'v) gomap" where
  "gm_of_list kvs = foldl (\<lambda>m (k, v). gm_put k v m) [] kvs"

primrec json_unmarshal :: "json \<Rightarrow> goval" where
  "json_unmarshal JNull = GNil"
| "json_unmarshal (JBool b) = GBool b"
| "json_unmarshal (JInt n) = GFloat (f64_of_int n)"
| "json_unmarshal (JFloat s m e) = GFloat (Fin s m e)"
| "json_unmarshal (JString s) = GString s"
| "json_unmarshal (JArr js) = GArr (map json_unmarshal js)"
| "json_unmarshal (JObj kvs) = GMap (gm_of_list (map (map_prod id json_unmarshal) kvs))"

section \<open>What a stored value is\<close>

text \<open>The value a reader gets for a value that was written.\<close>

definition stored_value :: "goval \<Rightarrow> goval" where
  "stored_value v = json_unmarshal (to_json v)"

text \<open>Every map inside the value has one entry per key, as a Go map has.\<close>

primrec goval_ok :: "goval \<Rightarrow> bool" where
  "goval_ok GNil = True"
| "goval_ok (GBool b) = True"
| "goval_ok (GInt n) = True"
| "goval_ok (GUint n) = True"
| "goval_ok (GFloat f) = True"
| "goval_ok (GString s) = True"
| "goval_ok (GBytes s) = True"
| "goval_ok (GArr vs) = list_all (\<lambda>b. b) (map goval_ok vs)"
| "goval_ok (GMap kvs) = (gm_ok kvs \<and> list_all snd (map (map_prod id goval_ok) kvs))"

text \<open>Objects with strictly increasing keys: what \<open>Marshal\<close> writes.\<close>

primrec json_canon :: "json \<Rightarrow> bool" where
  "json_canon JNull = True"
| "json_canon (JBool b) = True"
| "json_canon (JInt n) = True"
| "json_canon (JFloat s m e) = True"
| "json_canon (JString s) = True"
| "json_canon (JArr js) = list_all (\<lambda>b. b) (map json_canon js)"
| "json_canon (JObj kvs) =
     (sorted (map fst kvs) \<and> distinct (map fst kvs)
      \<and> list_all snd (map (map_prod id json_canon) kvs))"

lemma finite_f64_of_int [simp]: "finite_f64 (f64_of_int n)"
  by (simp add: f64_of_int_def Let_def)

lemma gm_of_list_snoc: "gm_of_list (kvs @ [(k, v)]) = gm_put k v (gm_of_list kvs)"
  by (simp add: gm_of_list_def)

lemma gm_of_list_Nil [simp]: "gm_of_list [] = []"
  by (simp add: gm_of_list_def)

lemma gm_ok_gm_of_list [simp, intro]: "gm_ok (gm_of_list kvs)"
  by (induction kvs rule: rev_induct) (auto simp: gm_of_list_snoc)

lemma gm_put_new: "k \<notin> fst ` set m \<Longrightarrow> gm_put k v m = m @ [(k, v)]"
  by (induction m) auto

lemma gm_of_list_distinct: "gm_ok kvs \<Longrightarrow> gm_of_list kvs = kvs"
  by (induction kvs rule: rev_induct) (auto simp: gm_of_list_snoc gm_put_new)

lemma set_gm_put: "set (gm_put k v m) \<subseteq> insert (k, v) (set m)"
  by (induction m) auto

lemma set_gm_of_list: "set (gm_of_list kvs) \<subseteq> set kvs"
proof (induction kvs rule: rev_induct)
  case (snoc kv kvs)
  then show ?case
    using set_gm_put [of "fst kv" "snd kv" "gm_of_list kvs"]
    by (cases kv) (auto simp: gm_of_list_snoc)
qed simp

lemma map_prod_id_snd: "snd ` (map_prod id f ` S) = f ` (snd ` S)"
  by force

lemma list_all_snd_map_prod: "list_all snd (map (map_prod id f) kvs) \<longleftrightarrow> (\<forall>v \<in> snd ` set kvs. f v)"
  by (auto simp: list_all_iff)

lemma map_fst_map_prod_id [simp]: "map fst (map (map_prod id f) kvs) = map fst kvs"
  by simp

text \<open>What was read from a stored text can always be written again.\<close>

lemma marshalable_unmarshal [simp]: "marshalable (json_unmarshal j)"
proof (induction j)
  case (JObj kvs)
  have "marshalable v" if v: "v \<in> snd ` set (gm_of_list (map (map_prod id json_unmarshal) kvs))" for v
  proof -
    have "v \<in> snd ` set (map (map_prod id json_unmarshal) kvs)"
      using v set_gm_of_list by blast
    then obtain j where "j \<in> snd ` set kvs" "v = json_unmarshal j" by force
    then show ?thesis using JObj by force
  qed
  then show ?case by (simp add: list_all_snd_map_prod)
qed (auto simp: list_all_iff)

lemma goval_ok_unmarshal [simp]: "goval_ok (json_unmarshal j)"
proof (induction j)
  case (JObj kvs)
  have "goval_ok v" if v: "v \<in> snd ` set (gm_of_list (map (map_prod id json_unmarshal) kvs))" for v
  proof -
    have "v \<in> snd ` set (map (map_prod id json_unmarshal) kvs)"
      using v set_gm_of_list by blast
    then obtain j where "j \<in> snd ` set kvs" "v = json_unmarshal j" by force
    then show ?thesis using JObj by force
  qed
  then show ?case by (simp add: list_all_snd_map_prod)
qed (auto simp: list_all_iff)

lemma json_marshal_unmarshal: "json_marshal (json_unmarshal j) = Some (to_json (json_unmarshal j))"
  by (simp add: json_marshal_def)

lemma json_canon_f64_json [simp]: "json_canon (f64_json f)"
  by (cases f) simp_all

lemma fst_set_sort_key: "map fst (sort_key fst kvs) = sort (map fst kvs)"
proof (rule properties_for_sort [symmetric])
  show "mset (map fst (sort_key fst kvs)) = mset (map fst kvs)"
    by (metis mset_map mset_sort)
qed simp

lemma to_json_canon: "goval_ok v \<Longrightarrow> json_canon (to_json v)"
proof (induction v)
  case (GMap kvs)
  have ok: "gm_ok kvs" and vs: "\<forall>v \<in> snd ` set kvs. goval_ok v"
    using GMap.prems by (auto simp: list_all_snd_map_prod)
  have "\<forall>j \<in> snd ` set (sort_key fst (map (map_prod id to_json) kvs)). json_canon j"
    using GMap.IH vs by force
  moreover have "distinct (map fst (sort_key fst (map (map_prod id to_json) kvs)))"
    using ok by (simp add: fst_set_sort_key)
  ultimately show ?case
    by (simp add: list_all_snd_map_prod)
qed (auto simp: list_all_iff)

lemma sort_key_sorted: "sorted (map f xs) \<Longrightarrow> sort_key f xs = xs"
  by (rule sort_key_id_if_sorted)

text \<open>Reading a canonical text and writing it again changes nothing a reader can see.\<close>

lemma unmarshal_to_json_unmarshal:
  "json_canon j \<Longrightarrow> json_unmarshal (to_json (json_unmarshal j)) = json_unmarshal j"
proof (induction j)
  case (JInt n)
  then show ?case
    by (cases "f64_of_int n") (use finite_f64_of_int [of n] in auto)
next
  case (JObj kvs)
  let ?f = "map (map_prod id json_unmarshal)" and ?g = "map (map_prod id to_json)"
  have so: "sorted (map fst kvs)" and ok: "gm_ok kvs"
    and cs: "\<And>j. j \<in> snd ` set kvs \<Longrightarrow> json_canon j"
    using JObj.prems by (auto simp: list_all_snd_map_prod)
  have "?f (?g (?f kvs)) = ?f kvs"
    using JObj.IH cs by (force simp: snds.simps)
  moreover have "gm_of_list (?f kvs) = ?f kvs"
    using ok by (intro gm_of_list_distinct) simp
  moreover have "sort_key fst (?g (?f kvs)) = ?g (?f kvs)"
    using so by (intro sort_key_sorted) (simp only: map_fst_map_prod_id)
  ultimately show ?case
    by (simp only: json_unmarshal.simps to_json.simps)
qed (auto simp: list_all_iff)

lemma stored_value_idem: "goval_ok v \<Longrightarrow> stored_value (stored_value v) = stored_value v"
  by (simp add: stored_value_def unmarshal_to_json_unmarshal to_json_canon)

lemma stored_small_int: "\<bar>sint n\<bar> < 2 ^ 53 \<Longrightarrow>
    stored_value (GInt n) = GFloat (Fin (sint n < 0) (nat \<bar>sint n\<bar>) 0)"
  by (simp add: stored_value_def f64_of_int_def Let_def nat_less_iff)

end
