(* ===== verification/Core_Types.thy ===== *)
theory Core_Types
  imports Go_Json
begin

text \<open>
  The data of \<open>core/types.go\<close>: the hybrid logical clock stamp, the operation, the two
  messages and the dataset access levels.  \<open>int64\<close> is a 64-bit word read with \<open>sint\<close>,
  \<open>uint32\<close> a 32-bit word, Go's \<open>int\<close> an integer.  \<open>CRDTOp\<close> has a field \<open>DeviceID\<close> of
  its own beside the one in its stamp; it is \<open>OpDeviceID\<close> here.

  The stamps carry the order of \<open>crdt.Before\<close> as an instance of \<open>linorder\<close>, so that
  sorting and maxima of the library apply to them.
\<close>

section \<open>Records\<close>

record hlc =
  WallTime :: "64 word"
  Logical :: "32 word"
  DeviceID :: string

record crdt_op =
  OpID :: string
  DocID :: string
  Field :: string
  Value :: goval
  Timestamp :: hlc
  OpDeviceID :: string

record sync_message =
  msg_AppID :: string
  msg_UserID :: string
  msg_DatasetID :: string
  msg_Clock :: hlc
  msg_Ops :: "crdt_op list"
  msg_ClientSchemaVersion :: int

text \<open>\<open>Snapshot\<close> is \<open>None\<close> when the server sends none (a nil \<open>any\<close>).\<close>

record sync_response =
  resp_NewClock :: hlc
  resp_Ops :: "crdt_op list"
  resp_Snapshot :: "(string, goval) gomap option"
  resp_SchemaVersion :: int

definition ACLPrivate :: string where
  "ACLPrivate = ''private''"

definition ACLShared :: string where
  "ACLShared = ''shared''"

definition ACLPublic :: string where
  "ACLPublic = ''public''"

text \<open>Go's zero value \<open>HLC{}\<close>.\<close>

definition zero_hlc :: hlc where
  "zero_hlc = \<lparr>WallTime = 0, Logical = 0, DeviceID = []\<rparr>"

lemma zero_hlc_simps [simp]:
  "WallTime zero_hlc = 0" "Logical zero_hlc = 0" "DeviceID zero_hlc = []"
  by (simp_all add: zero_hlc_def)

section \<open>The order of stamps\<close>

text \<open>
  The key of a stamp: wall time as a signed number, then the counter, then the device.
\<close>

definition hlc_key :: "'a hlc_scheme \<Rightarrow> int \<times> int \<times> string \<times> 'a" where
  "hlc_key h = (sint (WallTime h), uint (Logical h), DeviceID h, hlc.more h)"

lemma sint_eq_iff: "sint a = sint b \<longleftrightarrow> a = b"
  by (auto intro: signed_word_eqI)

lemma uint_eq_iff: "uint a = uint b \<longleftrightarrow> a = b"
  by (simp add: word_uint_eq_iff)

lemma hlc_key_inject [simp]: "hlc_key a = hlc_key b \<longleftrightarrow> a = b"
  by (auto simp: hlc_key_def sint_eq_iff uint_eq_iff)

instantiation hlc_ext :: (linorder) linorder
begin

definition less_eq_hlc_ext :: "'a hlc_ext \<Rightarrow> 'a hlc_ext \<Rightarrow> bool" where
  "less_eq_hlc_ext a b \<longleftrightarrow> hlc_key a \<le> hlc_key b"

definition less_hlc_ext :: "'a hlc_ext \<Rightarrow> 'a hlc_ext \<Rightarrow> bool" where
  "less_hlc_ext a b \<longleftrightarrow> hlc_key a < hlc_key b"

instance
  by standard (auto simp: less_eq_hlc_ext_def less_hlc_ext_def less_le_not_le)

end

text \<open>The time part of a stamp, without the device.\<close>

definition hlc_time :: "hlc \<Rightarrow> int \<times> int" where
  "hlc_time h = (sint (WallTime h), uint (Logical h))"

lemma hlc_less_iff:
  "(a::hlc) < b \<longleftrightarrow>
     sint (WallTime a) < sint (WallTime b)
     \<or> WallTime a = WallTime b \<and> uint (Logical a) < uint (Logical b)
     \<or> WallTime a = WallTime b \<and> Logical a = Logical b \<and> DeviceID a < DeviceID b"
  by (auto simp: less_hlc_ext_def hlc_key_def less_prod_simp sint_eq_iff uint_eq_iff)

lemma hlc_time_less_imp: "hlc_time a < hlc_time b \<Longrightarrow> a < b"
  by (auto simp: hlc_less_iff hlc_time_def less_prod_simp sint_eq_iff uint_eq_iff)

lemma hlc_less_imp_time: "a < b \<Longrightarrow> hlc_time a \<le> hlc_time b"
  by (auto simp: hlc_less_iff hlc_time_def less_eq_prod_simp)

lemma hlc_less_time_or_dev: "a < b \<longleftrightarrow> hlc_time a < hlc_time b \<or> hlc_time a = hlc_time b \<and> DeviceID a < DeviceID b"
  by (auto simp: hlc_less_iff hlc_time_def less_prod_simp sint_eq_iff uint_eq_iff)

end
