(* ===== verification/Sqlite.thy ===== *)
theory Sqlite
  imports Core_Types
begin

text \<open>
  The database the storage package works on and the statements it sends.  SQLite and the
  cr-sqlite extension are not part of the repository: the statements below are the SQL
  text of the source read by SQLite's documented semantics, on tables whose columns have
  the types the program writes to them.

  \<^item> \<open>faults\<close> decides, statement by statement, whether the driver reports an error before
    the statement has any effect (a locked or full database, a cancelled context); an
    empty list means no further error.  Every theorem without a hypothesis on \<open>faults\<close>
    holds for all schedules of errors.
  \<^item> \<open>crr_tables\<close> is what \<open>SELECT crsql_as_crr(tbl)\<close> adds to \<open>sqlite_master\<close>: a parameter
    that belongs to the extension.
  \<^item> \<open>db_now\<close> is the clock \<open>datetime('now')\<close> reads, in seconds.
  \<^item> Table names are case-insensitive (\<open>table_key\<close>); names in \<open>sqlite_master\<close> are
    compared byte by byte.
  \<^item> A table is the list of its rows in insertion order.  A sort breaks ties by that
    order.
\<close>

section \<open>Errors\<close>

text \<open>
  \<open>Wrap m e\<close> is \<open>fmt.Errorf(m + ": %w", e)\<close>; \<open>ErrMsg m\<close> an error that wraps nothing.
\<close>

datatype err =
    ErrDriver
  | ErrNoTable string
  | ErrConstraint string
  | ErrNoRows
  | ErrMarshal
  | ErrDeviceNotFound
  | ErrDeviceRevoked
  | ErrInvalidSecret
  | ErrMsg string
  | Wrap string err

section \<open>Rows and tables\<close>

record op_row =
  row_op_id :: string
  row_doc_id :: string
  row_field :: string
  row_value :: json
  row_ts_wall :: "64 word"
  row_ts_logic :: "32 word"
  row_device_id :: string
  row_status :: string

record snapshot_row =
  sn_dataset_id :: string
  sn_user_id :: string
  sn_doc_id :: string
  sn_data :: json
  sn_wall_time :: "64 word"
  sn_logical :: "32 word"
  sn_device_id :: string
  sn_created_at :: int

text \<open>A row of \<open>device_keys\<close> is the struct \<open>auth.DeviceKey\<close>; times are in nanoseconds.\<close>

record device_key =
  dk_DeviceKeyID :: string
  dk_DeviceID :: string
  dk_AppID :: string
  dk_KeyHash :: string
  dk_Status :: string
  dk_RegisteredAt :: int
  dk_LastSeenAt :: "int option"

record dataset_row =
  ds_app_id :: string
  ds_dataset_id :: string
  ds_acl :: string
  ds_schema_version :: int

record event_row =
  ev_id :: int
  ev_app_id :: string
  ev_dataset_id :: string
  ev_user_id :: string
  ev_device_key_id :: string
  ev_op_count :: int
  ev_synced_at :: int

record database =
  tables :: "string \<rightharpoonup> op_row list"
  master :: "string set"
  snapshots :: "snapshot_row list option"
  has_meta :: bool
  device_keys :: "device_key list"
  datasets :: "dataset_row list"
  sync_events :: "event_row list"
  next_event_id :: int
  db_now :: int
  crr_tables :: "string \<Rightarrow> string set"
  faults :: "bool list"

type_synonym 'a dbprog = "(database, err, 'a) prog"

text \<open>An empty database file, with an extension that names its clock table as cr-sqlite does.\<close>

definition empty_db :: database where
  "empty_db =
     \<lparr>tables = Map.empty, master = {}, snapshots = None, has_meta = False, device_keys = [],
      datasets = [], sync_events = [], next_event_id = 1, db_now = 0,
      crr_tables = (\<lambda>tbl. {tbl @ ''__crsql_clock''}), faults = []\<rparr>"

section \<open>Statements\<close>

text \<open>One statement: the driver may report an error instead of running it.\<close>

definition sql :: "'a dbprog \<Rightarrow> 'a dbprog" where
  "sql stmt db =
     (case faults db of
        [] \<Rightarrow> stmt db
      | b # fs \<Rightarrow> if b then (Inl ErrDriver, db\<lparr>faults := fs\<rparr>) else stmt (db\<lparr>faults := fs\<rparr>))"

text \<open>
  \<open>BeginTx\<close> \<dots> \<open>Commit\<close> with a deferred \<open>Rollback\<close>: the body's effects stay only when the
  body and the commit succeed.
\<close>

definition with_tx :: "'a dbprog \<Rightarrow> 'a dbprog" where
  "with_tx body db =
     (case sql (retP ()) db of
        (Inl e, db1) \<Rightarrow> (Inl (Wrap ''begin tx'' e), db1)
      | (Inr _, db1) \<Rightarrow>
          (case body db1 of
             (Inl e, db2) \<Rightarrow> (Inl e, db1\<lparr>faults := faults db2\<rparr>)
           | (Inr x, db2) \<Rightarrow>
               (case sql (retP ()) db2 of
                  (Inl e, db3) \<Rightarrow> (Inl e, db1\<lparr>faults := faults db3\<rparr>)
                | (Inr _, db3) \<Rightarrow> (Inr x, db3))))"

definition ascii_lower :: "char \<Rightarrow> char" where
  "ascii_lower c =
     (let n = of_char c :: nat in if 65 \<le> n \<and> n \<le> 90 then char_of (n + 32) else c)"

definition table_key :: "string \<Rightarrow> string" where
  "table_key name = map ascii_lower name"

definition table_rows :: "string \<Rightarrow> database \<Rightarrow> op_row list option" where
  "table_rows tbl db = tables db (table_key tbl)"

definition set_rows :: "string \<Rightarrow> op_row list \<Rightarrow> database \<Rightarrow> database" where
  "set_rows tbl rows db = db\<lparr>tables := (tables db)(table_key tbl \<mapsto> rows)\<rparr>"

text \<open>A statement on the rows of a table, an error when there is no such table.\<close>

definition on_table :: "string \<Rightarrow> (op_row list \<Rightarrow> 'a \<times> op_row list) \<Rightarrow> 'a dbprog" where
  "on_table tbl f db =
     (case table_rows tbl db of
        None \<Rightarrow> (Inl (ErrNoTable tbl), db)
      | Some rows \<Rightarrow> (case f rows of (x, rows') \<Rightarrow> (Inr x, set_rows tbl rows' db)))"

definition read_table :: "string \<Rightarrow> (op_row list \<Rightarrow> 'a) \<Rightarrow> 'a dbprog" where
  "read_table tbl f db =
     (case table_rows tbl db of
        None \<Rightarrow> (Inl (ErrNoTable tbl), db)
      | Some rows \<Rightarrow> (Inr (f rows), db))"

text \<open>A statement on the metadata tables, an error when they were never created.\<close>

definition on_meta :: "'a dbprog \<Rightarrow> 'a dbprog" where
  "on_meta f db = (if has_meta db then f db else (Inl (ErrNoTable ''meta''), db))"

section \<open>Facts\<close>

definition same_content :: "database \<Rightarrow> database \<Rightarrow> bool" where
  "same_content db db' \<longleftrightarrow> db' = db\<lparr>faults := faults db'\<rparr>"

lemma same_content_refl [simp, intro]: "same_content db db"
  by (simp add: same_content_def)

lemma same_content_faults [simp, intro]: "same_content db (db\<lparr>faults := fs\<rparr>)"
  by (simp add: same_content_def)

lemma same_content_trans: "same_content a b \<Longrightarrow> same_content b c \<Longrightarrow> same_content a c"
  unfolding same_content_def by (cases a; cases b; cases c) simp

lemma reflp_same_content [simp, intro]: "reflp same_content"
  by (simp add: reflp_def)

lemma transp_same_content [simp, intro]: "transp same_content"
  by (rule transpI) (rule same_content_trans)

lemma same_contentD:
  assumes "same_content db db'"
  shows "tables db' = tables db" "master db' = master db" "snapshots db' = snapshots db"
    "has_meta db' = has_meta db" "device_keys db' = device_keys db" "datasets db' = datasets db"
    "sync_events db' = sync_events db" "next_event_id db' = next_event_id db"
    "db_now db' = db_now db" "crr_tables db' = crr_tables db"
proof -
  obtain fs where "db' = db\<lparr>faults := fs\<rparr>"
    using assms by (metis same_content_def)
  then show "tables db' = tables db" "master db' = master db" "snapshots db' = snapshots db"
    "has_meta db' = has_meta db" "device_keys db' = device_keys db" "datasets db' = datasets db"
    "sync_events db' = sync_events db" "next_event_id db' = next_event_id db"
    "db_now db' = db_now db" "crr_tables db' = crr_tables db"
    by simp_all
qed

lemma sql_no_faults [simp, prog_simps]: "faults db = [] \<Longrightarrow> sql stmt db = stmt db"
  by (simp add: sql_def)

text \<open>What a statement can do: its own effect, or an error and nothing else.\<close>

lemma sql_cases:
  obtains (fault) fs where "sql stmt db = (Inl ErrDriver, db\<lparr>faults := fs\<rparr>)"
    | (ran) db' where "same_content db db'" "sql stmt db = stmt db'"
proof (cases "faults db")
  case Nil
  then show thesis using ran [of db] by simp
next
  case (Cons b fs)
  show thesis
  proof (cases b)
    case True
    with Cons show thesis using fault [of fs] by (simp add: sql_def)
  next
    case False
    with Cons show thesis using ran [of "db\<lparr>faults := fs\<rparr>"] by (simp add: sql_def)
  qed
qed

lemma sql_ret_unit: "sql (retP ()) db = (r, db') \<Longrightarrow> same_content db db'"
  by (cases rule: sql_cases [of "retP ()" db]) auto

text \<open>A transaction that fails leaves the content of the database as it was.\<close>

lemma with_tx_Inl: "with_tx body db = (Inl e, db') \<Longrightarrow> same_content db db'"
  by (auto simp: with_tx_def split: prod.splits sum.splits dest!: sql_ret_unit
      intro: same_content_trans)

lemma with_tx_Inr:
  assumes "with_tx body db = (Inr x, db')"
  obtains db1 db2 where "same_content db db1" "body db1 = (Inr x, db2)" "same_content db2 db'"
  using assms by (auto simp: with_tx_def split: prod.splits sum.splits dest!: sql_ret_unit)

lemma with_tx_no_faults:
  assumes "faults db = []" and "\<And>r db'. body db = (r, db') \<Longrightarrow> faults db' = []"
  shows "with_tx body db = (case body db of (Inl e, db') \<Rightarrow> (Inl e, db) | (Inr x, db') \<Rightarrow> (Inr x, db'))"
proof -
  obtain r db' where b: "body db = (r, db')" by (cases "body db")
  then have "faults db' = []" using assms(2) by simp
  moreover have "db\<lparr>faults := []\<rparr> = db" using assms(1) by (cases db) simp
  ultimately show ?thesis
    using assms(1) b by (auto simp: with_tx_def split: sum.split)
qed

lemma table_rows_set_rows [simp]:
  "table_rows tbl (set_rows tbl' rows db)
     = (if table_key tbl = table_key tbl' then Some rows else table_rows tbl db)"
  by (simp add: table_rows_def set_rows_def)

lemma set_rows_sel [simp]:
  "faults (set_rows tbl rows db) = faults db" "snapshots (set_rows tbl rows db) = snapshots db"
  "has_meta (set_rows tbl rows db) = has_meta db" "master (set_rows tbl rows db) = master db"
  "device_keys (set_rows tbl rows db) = device_keys db" "datasets (set_rows tbl rows db) = datasets db"
  "crr_tables (set_rows tbl rows db) = crr_tables db" "db_now (set_rows tbl rows db) = db_now db"
  "sync_events (set_rows tbl rows db) = sync_events db"
  by (simp_all add: set_rows_def)

lemma table_rows_faults [simp]: "table_rows tbl (db\<lparr>faults := fs\<rparr>) = table_rows tbl db"
  by (simp add: table_rows_def)

lemma table_rows_same_content: "same_content db db' \<Longrightarrow> table_rows tbl db' = table_rows tbl db"
  by (simp add: table_rows_def same_contentD)

lemma set_rows_set_rows [simp]: "set_rows tbl rows' (set_rows tbl rows db) = set_rows tbl rows' db"
  by (simp add: set_rows_def)

lemma set_rows_same: "table_rows tbl db = Some rows \<Longrightarrow> set_rows tbl rows db = db"
  by (simp add: set_rows_def table_rows_def map_upd_triv)

lemma on_table_Some [simp]:
  "table_rows tbl db = Some rows \<Longrightarrow> f rows = (x, rows') \<Longrightarrow>
     on_table tbl f db = (Inr x, set_rows tbl rows' db)"
  by (simp add: on_table_def)

lemma read_table_Some [simp]:
  "table_rows tbl db = Some rows \<Longrightarrow> read_table tbl f db = (Inr (f rows), db)"
  by (simp add: read_table_def)

lemma keeps_read_table: "reflp R \<Longrightarrow> keeps R (read_table tbl f)"
  by (auto simp: keeps_def read_table_def reflp_def split: option.split)

lemma sql_Inr:
  assumes "sql stmt db = (Inr x, db')"
  obtains db1 where "same_content db db1" "stmt db1 = (Inr x, db')"
  using assms by (cases rule: sql_cases [of stmt db]) auto

lemma on_table_Inr:
  "on_table tbl f db = (Inr x, db') \<longleftrightarrow>
     (\<exists>rows rows'. table_rows tbl db = Some rows \<and> f rows = (x, rows') \<and> db' = set_rows tbl rows' db)"
  by (auto simp: on_table_def split: option.splits prod.splits)

lemma read_table_Inr:
  "read_table tbl f db = (Inr x, db') \<longleftrightarrow>
     (\<exists>rows. table_rows tbl db = Some rows \<and> x = f rows \<and> db' = db)"
  by (auto simp: read_table_def split: option.splits)

lemma set_rows_same_content:
  "same_content db db' \<Longrightarrow> same_content (set_rows tbl rows db) (set_rows tbl rows db')"
  unfolding same_content_def by (cases db; cases db') (simp add: set_rows_def)

lemma sql_read_table_Inr:
  assumes "sql (read_table tbl f) db = (Inr x, db')"
  shows "same_content db db' \<and> (\<exists>rows. table_rows tbl db = Some rows \<and> x = f rows)"
proof -
  obtain db1 where 1: "same_content db db1" "read_table tbl f db1 = (Inr x, db')"
    using assms by (rule sql_Inr)
  then show ?thesis by (auto simp: read_table_Inr table_rows_same_content)
qed

lemma sql_on_table_Inr:
  assumes "sql (on_table tbl f) db = (Inr x, db')"
  shows "\<exists>rows rows'. table_rows tbl db = Some rows \<and> f rows = (x, rows')
    \<and> same_content (set_rows tbl rows' db) db'"
proof -
  obtain db1 where 1: "same_content db db1" "on_table tbl f db1 = (Inr x, db')"
    using assms by (rule sql_Inr)
  then show ?thesis by (auto simp: on_table_Inr table_rows_same_content intro: set_rows_same_content)
qed

section \<open>Relations that programs keep\<close>

text \<open>
  A relation between the database before and after, reflexive and transitive, that does not
  mind an error of the driver or a rollback.  Programs composed of statements that keep it
  keep it, whether they succeed or fail.
\<close>

locale statement_relation =
  fixes R :: "database \<Rightarrow> database \<Rightarrow> bool"
  assumes refl: "reflp R"
    and trans: "transp R"
    and fault: "faults db = b # fs \<Longrightarrow> R db (db\<lparr>faults := fs\<rparr>)"
    and rollback: "R db db' \<Longrightarrow> R db (db\<lparr>faults := faults db'\<rparr>)"
begin

lemma R_trans: "R x y \<Longrightarrow> R y z \<Longrightarrow> R x z"
  using trans by (rule transpD)

lemma keeps_sql_R:
  assumes k: "keeps R stmt"
  shows "keeps R (sql stmt)"
proof (rule keepsI)
  fix db
  show "R db (snd (sql stmt db))"
  proof (cases "faults db")
    case Nil
    then show ?thesis using k by (simp add: sql_def keepsD)
  next
    case (Cons b fs)
    then show ?thesis
      using fault [OF Cons] keepsD [OF k, of "db\<lparr>faults := fs\<rparr>"] by (auto simp: sql_def intro: R_trans)
  qed
qed

lemma keeps_Pair_R [simp]: "keeps R (Pair r)"
  using reflpD [OF refl] by (simp add: keeps_def)

lemma keeps_ret_R [simp]: "keeps R (retP x)"
  by (simp add: retP_def)

lemma keeps_bind_R: "keeps R m \<Longrightarrow> (\<And>x. keeps R (k x)) \<Longrightarrow> keeps R (bindP m k)"
  using trans by (rule keeps_bindP)

lemma keeps_tx_R:
  assumes k: "keeps R body"
  shows "keeps R (with_tx body)"
proof (rule keepsI)
  fix db
  have s: "keeps R (sql (retP ()))" by (rule keeps_sql_R) simp
  obtain r1 db1 where 1: "sql (retP ()) db = (r1, db1)" by (cases "sql (retP ()) db")
  obtain r2 db2 where 2: "body db1 = (r2, db2)" by (cases "body db1")
  obtain r3 db3 where 3: "sql (retP ()) db2 = (r3, db3)" by (cases "sql (retP ()) db2")
  have R: "R db db1" "R db1 db2" "R db2 db3"
    using keepsD' [OF s 1] keepsD' [OF k 2] keepsD' [OF s 3] .
  then have "R db1 db3" by (blast intro: R_trans)
  then have "R db (db1\<lparr>faults := faults db2\<rparr>)" "R db (db1\<lparr>faults := faults db3\<rparr>)" "R db db3"
    using R by (blast intro: R_trans rollback)+
  then show "R db (snd (with_tx body db))"
    using R(1) by (simp add: with_tx_def 1 2 3 split: sum.split)
qed

lemma keeps_on_table_R:
  assumes "\<And>db rows. table_rows tbl db = Some rows \<Longrightarrow> R db (set_rows tbl (snd (f rows)) db)"
  shows "keeps R (on_table tbl f)"
proof (rule keepsI)
  fix db
  show "R db (snd (on_table tbl f db))"
  proof (cases "table_rows tbl db")
    case None
    then show ?thesis using reflpD [OF refl] by (simp add: on_table_def)
  next
    case (Some rows)
    then have "snd (on_table tbl f db) = set_rows tbl (snd (f rows)) db"
      by (simp add: on_table_def split_def)
    then show ?thesis using assms [OF Some] by simp
  qed
qed

lemma keeps_read_R: "keeps R (read_table tbl f)"
  using refl by (rule keeps_read_table)

lemma keeps_if_R: "keeps R m \<Longrightarrow> keeps R m' \<Longrightarrow> keeps R (if b then m else m')"
  by simp

end

end
