(* ===== verification/Interfaces.thy ===== *)
theory Interfaces
  imports Sqlite
begin

text \<open>
  \<open>core/interfaces.go\<close>: the interfaces the engine is written against, as records of
  programs, with the no-op values of the same file.  What the engine relies on is stated in
  two locales: \<open>storage_backend_laws\<close> (what a delta is) and \<open>durable_backend\<close> (what was
  merged stays).
\<close>

section \<open>Records of operations\<close>

record 's storage_backend =
  sb_MergeOps :: "string \<Rightarrow> string \<Rightarrow> string \<Rightarrow> crdt_op list \<Rightarrow> ('s, err, unit) prog"
  sb_GetDelta :: "string \<Rightarrow> string \<Rightarrow> string \<Rightarrow> hlc \<Rightarrow> ('s, err, crdt_op list \<times> hlc) prog"
  sb_GetSnapshot :: "string \<Rightarrow> string \<Rightarrow> string \<Rightarrow> ('s, err, (string, goval) gomap \<times> hlc) prog"
  sb_SchemaVersion :: "string \<Rightarrow> string \<Rightarrow> ('s, err, int) prog"
  sb_OpCount :: "string \<Rightarrow> string \<Rightarrow> string \<Rightarrow> ('s, err, int) prog"
  sb_Compact :: "string \<Rightarrow> string \<Rightarrow> string \<Rightarrow> ('s, err, unit) prog"

text \<open>\<open>Decode\<close> gets the value it writes into as an argument.\<close>

record ('enc, 'dec) codec =
  Encode :: "'enc \<Rightarrow> err + string"
  Decode :: "string \<Rightarrow> 'dec \<Rightarrow> err + 'dec"

record compressor =
  Compress :: "string \<Rightarrow> err + string"
  Decompress :: "string \<Rightarrow> err + string"

text \<open>A transport hands out the messages of its channel; \<open>Send\<close> and \<open>Notify\<close> may fail.\<close>

record 't transport =
  tr_Receive :: "('t, err, sync_message list) prog"
  tr_Send :: "string \<Rightarrow> sync_response \<Rightarrow> ('t, err, unit) prog"
  tr_Notify :: "string \<Rightarrow> string \<Rightarrow> ('t, err, unit) prog"

section \<open>The no-op values\<close>

definition NopStorage :: "unit storage_backend" where
  "NopStorage =
     \<lparr>sb_MergeOps = (\<lambda>_ _ _ _. retP ()),
      sb_GetDelta = (\<lambda>_ _ _ _. retP ([], zero_hlc)),
      sb_GetSnapshot = (\<lambda>_ _ _. retP ([], zero_hlc)),
      sb_SchemaVersion = (\<lambda>_ _. retP 1),
      sb_OpCount = (\<lambda>_ _ _. retP 0),
      sb_Compact = (\<lambda>_ _ _. retP ())\<rparr>"

definition NopTransport :: "unit transport" where
  "NopTransport =
     \<lparr>tr_Receive = retP [], tr_Send = (\<lambda>_ _. retP ()), tr_Notify = (\<lambda>_ _. retP ())\<rparr>"

definition NopCodec :: "('enc, 'dec) codec" where
  "NopCodec = \<lparr>Encode = (\<lambda>_. Inr []), Decode = (\<lambda>_ v. Inr v)\<rparr>"

definition NopCompressor :: compressor where
  "NopCompressor = \<lparr>Compress = Inr, Decompress = Inr\<rparr>"

section \<open>What the engine relies on\<close>

text \<open>
  A delta holds operations after the cursor only, and its clock is one of their stamps or the
  zero stamp, and no earlier than any of them.
\<close>

locale storage_backend_laws =
  fixes sb :: "'s storage_backend"
  assumes delta_after: "sb_GetDelta sb a u d since s = (Inr (ops, mx), s') \<Longrightarrow> op \<in> set ops
      \<Longrightarrow> since < Timestamp op"
    and delta_clock_ge: "sb_GetDelta sb a u d since s = (Inr (ops, mx), s') \<Longrightarrow> op \<in> set ops
      \<Longrightarrow> Timestamp op \<le> mx"
    and delta_clock_in: "sb_GetDelta sb a u d since s = (Inr (ops, mx), s')
      \<Longrightarrow> mx = zero_hlc \<or> mx \<in> Timestamp ` set ops"

text \<open>
  \<open>holds a u d op s\<close>: the backend in state \<open>s\<close> has accepted operation \<open>op\<close> of the dataset.  No
  method forgets one, and a successful merge accepts all of its operations.
\<close>

locale durable_backend = storage_backend_laws sb
  for sb :: "'s storage_backend" +
  fixes holds :: "string \<Rightarrow> string \<Rightarrow> string \<Rightarrow> crdt_op \<Rightarrow> 's \<Rightarrow> bool"
  assumes merge_accepts: "sb_MergeOps sb a u d ops s = (Inr x, s') \<Longrightarrow> op \<in> set ops \<Longrightarrow> holds a u d op s'"
    and merge_keeps: "keeps (\<lambda>s s'. holds a u d op s \<longrightarrow> holds a u d op s') (sb_MergeOps sb a' u' d' ops)"
    and delta_keeps: "keeps (\<lambda>s s'. holds a u d op s \<longrightarrow> holds a u d op s') (sb_GetDelta sb a' u' d' since)"
    and snapshot_keeps: "keeps (\<lambda>s s'. holds a u d op s \<longrightarrow> holds a u d op s') (sb_GetSnapshot sb a' u' d')"
    and version_keeps: "keeps (\<lambda>s s'. holds a u d op s \<longrightarrow> holds a u d op s') (sb_SchemaVersion sb a' d')"
    and count_keeps: "keeps (\<lambda>s s'. holds a u d op s \<longrightarrow> holds a u d op s') (sb_OpCount sb a' u' d')"
    and compact_keeps: "keeps (\<lambda>s s'. holds a u d op s \<longrightarrow> holds a u d op s') (sb_Compact sb a' u' d')"

interpretation nop_storage: storage_backend_laws NopStorage
  by unfold_locales (auto simp: NopStorage_def)

end
