(* ===== verification/Broadcaster.thy ===== *)
theory Broadcaster
  imports Sqlite
begin

text \<open>
  \<open>transport/http2/sse.go\<close>: the broadcaster and the event stream handler.  A subscription is
  a Go channel with a buffer of one; the model names channels by numbers and keeps the
  content of each buffer.  \<open>Subscribe\<close>, \<open>Unsubscribe\<close> and the copy of the list in \<open>Notify\<close>
  run under the mutex; the sends of \<open>Notify\<close> happen after it is released, one channel at a
  time, and never block.  A handler is a small state machine that reads its channel until
  its client disconnects.
\<close>

section \<open>The broadcaster\<close>

record broadcaster =
  subs :: "(string, nat list) gomap"
  chans :: "nat \<Rightarrow> string list"
  next_chan :: nat

definition NewBroadcaster :: broadcaster where
  "NewBroadcaster = \<lparr>subs = [], chans = (\<lambda>_. []), next_chan = 0\<rparr>"

definition subKey :: "string \<Rightarrow> string \<Rightarrow> string" where
  "subKey appID userID = appID @ ''/'' @ userID"

text \<open>Reading a missing key gives the nil slice.\<close>

definition subs_at :: "broadcaster \<Rightarrow> string \<Rightarrow> nat list" where
  "subs_at b k = (case gm_get (subs b) k of None \<Rightarrow> [] | Some cs \<Rightarrow> cs)"

definition Subscribe :: "string \<Rightarrow> string \<Rightarrow> broadcaster \<Rightarrow> nat \<times> broadcaster" where
  "Subscribe appID userID b =
     (let ch = next_chan b; k = subKey appID userID
      in (ch, b\<lparr>subs := gm_put k (subs_at b k @ [ch]) (subs b),
               chans := (chans b)(ch := []), next_chan := Suc ch\<rparr>))"

definition Unsubscribe :: "string \<Rightarrow> string \<Rightarrow> nat \<Rightarrow> broadcaster \<Rightarrow> broadcaster" where
  "Unsubscribe appID userID ch b =
     (let k = subKey appID userID
      in if ch \<in> set (subs_at b k)
         then b\<lparr>subs := gm_put k (remove1 ch (subs_at b k)) (subs b)\<rparr> else b)"

text \<open>The non-blocking send: into an empty buffer, dropped otherwise.\<close>

definition try_send :: "nat \<Rightarrow> broadcaster \<Rightarrow> broadcaster" where
  "try_send ch b = (if length (chans b ch) < 1 then b\<lparr>chans := (chans b)(ch := chans b ch @ [''sync''])\<rparr> else b)"

definition Notify :: "string \<Rightarrow> string \<Rightarrow> (broadcaster, err, unit) prog" where
  "Notify appID userID b = (Inr (), foldl (\<lambda>b ch. try_send ch b) b (subs_at b (subKey appID userID)))"

section \<open>Facts\<close>

lemma try_send_chans:
  "chans (try_send ch b) c = (if c = ch \<and> chans b c = [] then [''sync''] else chans b c)"
  by (auto simp: try_send_def)

lemma try_send_sel [simp]: "subs (try_send ch b) = subs b" "next_chan (try_send ch b) = next_chan b"
  by (simp_all add: try_send_def)

lemma fold_try_send_sel [simp]:
  "subs (foldl (\<lambda>b ch. try_send ch b) b cs) = subs b"
  "next_chan (foldl (\<lambda>b ch. try_send ch b) b cs) = next_chan b"
  by (induction cs arbitrary: b) simp_all

lemma fold_try_send_chans:
  "chans (foldl (\<lambda>b ch. try_send ch b) b cs) c =
     (if c \<in> set cs \<and> chans b c = [] then [''sync''] else chans b c)"
  by (induction cs arbitrary: b) (auto simp: try_send_chans)

lemma Notify_chans:
  "chans (snd (Notify a u b)) c =
     (if c \<in> set (subs_at b (subKey a u)) \<and> chans b c = [] then [''sync''] else chans b c)"
  by (simp add: Notify_def fold_try_send_chans)

lemma subs_at_put [simp]: "subs_at (b\<lparr>subs := gm_put k cs (subs b)\<rparr>) k' = (if k' = k then cs else subs_at b k')"
  by (simp add: subs_at_def)

lemma subs_at_chans [simp]:
  "subs_at (b\<lparr>chans := cs\<rparr>) k = subs_at b k" "subs_at (b\<lparr>next_chan := n\<rparr>) k = subs_at b k"
  by (simp_all add: subs_at_def)

lemma subs_at_Subscribe:
  "subs_at (snd (Subscribe a u b)) k =
     (if k = subKey a u then subs_at b k @ [next_chan b] else subs_at b k)"
  by (simp add: Subscribe_def Let_def subs_at_def)

lemma subs_at_Unsubscribe:
  "subs_at (Unsubscribe a u ch b) k =
     (if k = subKey a u then remove1 ch (subs_at b k) else subs_at b k)"
  by (simp add: Unsubscribe_def Let_def remove1_idem)

lemma subs_at_Notify [simp]: "subs_at (snd (Notify a u b)) k = subs_at b k"
  by (simp add: Notify_def subs_at_def)

section \<open>The event streams\<close>

text \<open>
  A stream is one run of \<open>SSEHandler\<close>: the headers are flushed first, then the handler
  subscribes (\<open>str_chan\<close> becomes \<open>Some\<close>), then it forwards what it receives until the request's
  context is done and the deferred \<open>Unsubscribe\<close> runs.  \<open>pending\<close> holds the channels that the
  notifications in progress have still to send to.
\<close>

record stream =
  str_app :: string
  str_user :: string
  str_chan :: "nat option"
  str_open :: bool
  str_out :: "string list"

record sse_system =
  bc :: broadcaster
  streams :: "nat \<Rightarrow> stream option"
  pending :: "nat list list"

definition event_text :: "string \<Rightarrow> string" where
  "event_text msg = ''data: '' @ msg @ [CHR 0x0A, CHR 0x0A]"

definition sse_start :: sse_system where
  "sse_start = \<lparr>bc = NewBroadcaster, streams = (\<lambda>_. None), pending = []\<rparr>"

inductive sse_step :: "sse_system \<Rightarrow> sse_system \<Rightarrow> bool" where
  sse_open: "streams s c = None \<Longrightarrow>
     sse_step s (s\<lparr>streams := (streams s)(c \<mapsto>
       \<lparr>str_app = a, str_user = u, str_chan = None, str_open = True, str_out = []\<rparr>)\<rparr>)"
| sse_subscribe: "streams s c = Some st \<Longrightarrow> str_open st \<Longrightarrow> str_chan st = None \<Longrightarrow>
     Subscribe (str_app st) (str_user st) (bc s) = (ch, b) \<Longrightarrow>
     sse_step s (s\<lparr>bc := b, streams := (streams s)(c \<mapsto> st\<lparr>str_chan := Some ch\<rparr>)\<rparr>)"
| sse_receive: "streams s c = Some st \<Longrightarrow> str_open st \<Longrightarrow> str_chan st = Some ch \<Longrightarrow>
     chans (bc s) ch = msg # msgs \<Longrightarrow>
     sse_step s (s\<lparr>bc := (bc s)\<lparr>chans := (chans (bc s))(ch := msgs)\<rparr>,
                   streams := (streams s)(c \<mapsto> st\<lparr>str_out := str_out st @ [event_text msg]\<rparr>)\<rparr>)"
| sse_close: "streams s c = Some st \<Longrightarrow> str_open st \<Longrightarrow> str_chan st = Some ch \<Longrightarrow>
     sse_step s (s\<lparr>bc := Unsubscribe (str_app st) (str_user st) ch (bc s),
                   streams := (streams s)(c \<mapsto> st\<lparr>str_open := False\<rparr>)\<rparr>)"
| notify_begin: "sse_step s (s\<lparr>pending := pending s @ [subs_at (bc s) (subKey a u)]\<rparr>)"
| notify_send: "i < length (pending s) \<Longrightarrow> pending s ! i = ch # cs \<Longrightarrow>
     sse_step s (s\<lparr>bc := try_send ch (bc s), pending := (pending s)[i := cs]\<rparr>)"

inductive sse_run :: "sse_system \<Rightarrow> sse_system \<Rightarrow> bool" where
  sse_refl: "sse_run s s"
| sse_trans: "sse_run s s1 \<Longrightarrow> sse_step s1 s2 \<Longrightarrow> sse_run s s2"

inductive_cases sse_stepE: "sse_step s s'"

text \<open>A notification that nothing interrupts is \<open>Notify\<close>.\<close>

lemma sse_step_run: "sse_run s1 s2 \<Longrightarrow> sse_step s s1 \<Longrightarrow> sse_run s s2"
  by (induction rule: sse_run.induct) (blast intro: sse_run.intros)+

lemma sse_run_sends:
  "i < length (pending s) \<Longrightarrow> pending s ! i = cs \<Longrightarrow>
     sse_run s (s\<lparr>bc := foldl (\<lambda>b ch. try_send ch b) (bc s) cs, pending := (pending s)[i := []]\<rparr>)"
proof (induction cs arbitrary: s)
  case Nil
  then have "(pending s)[i := []] = pending s" by (metis list_update_id)
  then show ?case by (simp add: sse_refl)
next
  case (Cons ch cs)
  let ?s = "s\<lparr>bc := try_send ch (bc s), pending := (pending s)[i := cs]\<rparr>"
  have 1: "sse_step s ?s" using Cons.prems by (rule notify_send)
  have 2: "sse_run ?s (?s\<lparr>bc := foldl (\<lambda>b ch. try_send ch b) (bc ?s) cs, pending := (pending ?s)[i := []]\<rparr>)"
    using Cons.prems by (intro Cons.IH) simp_all
  from sse_step_run [OF 2 1] show ?case by simp
qed

section \<open>Invariants of the streams\<close>

text \<open>
  Buffers hold at most one message; the subscribed open streams are exactly the owners of the
  subscribed channels, each under its own key; channels are never reused.
\<close>

definition owns :: "sse_system \<Rightarrow> nat \<Rightarrow> string \<Rightarrow> nat \<Rightarrow> bool" where
  "owns s c k ch \<longleftrightarrow>
     (\<exists>st. streams s c = Some st \<and> str_open st \<and> str_chan st = Some ch
        \<and> k = subKey (str_app st) (str_user st))"

definition sse_ok :: "sse_system \<Rightarrow> bool" where
  "sse_ok s \<longleftrightarrow>
     (\<forall>ch. length (chans (bc s) ch) \<le> 1)
     \<and> (\<forall>k. distinct (subs_at (bc s) k))
     \<and> (\<forall>k ch. ch \<in> set (subs_at (bc s) k) \<longleftrightarrow> (\<exists>c. owns s c k ch))
     \<and> (\<forall>c st ch. streams s c = Some st \<longrightarrow> str_chan st = Some ch \<longrightarrow> ch < next_chan (bc s))
     \<and> (\<forall>c c' st st' ch. streams s c = Some st \<longrightarrow> streams s c' = Some st' \<longrightarrow>
          str_chan st = Some ch \<longrightarrow> str_chan st' = Some ch \<longrightarrow> c = c')"

lemma owns_unsubscribed:
  "owns (s\<lparr>bc := b, streams := (streams s)(c \<mapsto> st)\<rparr>) c' k ch \<longleftrightarrow>
     (if c' = c then str_open st \<and> str_chan st = Some ch \<and> k = subKey (str_app st) (str_user st)
      else owns s c' k ch)"
  by (simp add: owns_def)

lemma owns_streams_same [simp]: "owns (s\<lparr>pending := p\<rparr>) c k ch = owns s c k ch" "owns (s\<lparr>bc := b\<rparr>) c k ch = owns s c k ch"
  by (simp_all add: owns_def)

lemma owns_fun: "owns s c k ch \<Longrightarrow> owns s c k' ch' \<Longrightarrow> k' = k \<and> ch' = ch"
  by (auto simp: owns_def)

lemma sse_ok_buffer: "sse_ok s \<Longrightarrow> length (chans (bc s) ch) \<le> 1"
  and sse_ok_distinct: "sse_ok s \<Longrightarrow> distinct (subs_at (bc s) k)"
  and sse_ok_owned: "sse_ok s \<Longrightarrow> ch \<in> set (subs_at (bc s) k) \<longleftrightarrow> (\<exists>c. owns s c k ch)"
  by (simp_all add: sse_ok_def)

lemma sse_ok_less: "sse_ok s \<Longrightarrow> streams s c = Some st \<Longrightarrow> str_chan st = Some ch \<Longrightarrow> ch < next_chan (bc s)"
  by (simp add: sse_ok_def)

lemma sse_ok_inj:
  assumes "sse_ok s" "streams s c = Some st" "streams s c' = Some st'" "str_chan st = Some ch" "str_chan st' = Some ch"
  shows "c = c'"
proof -
  have "\<forall>c c' st st' ch. streams s c = Some st \<longrightarrow> streams s c' = Some st' \<longrightarrow>
      str_chan st = Some ch \<longrightarrow> str_chan st' = Some ch \<longrightarrow> c = c'"
    using assms(1) unfolding sse_ok_def by (elim conjE)
  then show ?thesis using assms(2-5) by blast
qed

lemma sse_okI:
  assumes "\<And>ch. length (chans (bc s) ch) \<le> 1" "\<And>k. distinct (subs_at (bc s) k)"
    "\<And>k ch. ch \<in> set (subs_at (bc s) k) \<longleftrightarrow> (\<exists>c. owns s c k ch)"
    "\<And>c st ch. streams s c = Some st \<Longrightarrow> str_chan st = Some ch \<Longrightarrow> ch < next_chan (bc s)"
    "\<And>c c' st st' ch. streams s c = Some st \<Longrightarrow> streams s c' = Some st' \<Longrightarrow>
       str_chan st = Some ch \<Longrightarrow> str_chan st' = Some ch \<Longrightarrow> c = c'"
  shows "sse_ok s"
  unfolding sse_ok_def by (intro conjI allI impI; fact assms)

lemma owns_less: "sse_ok s \<Longrightarrow> owns s c k ch \<Longrightarrow> ch < next_chan (bc s)"
  by (auto simp: owns_def intro: sse_ok_less)

lemma owns_inj: "sse_ok s \<Longrightarrow> owns s c k ch \<Longrightarrow> owns s c' k' ch \<Longrightarrow> c = c'"
  by (auto simp: owns_def intro: sse_ok_inj)

lemma sse_ok_subscribe:
  assumes ok: "sse_ok s" and st: "streams s c = Some st" "str_open st" "str_chan st = None"
    and sub: "Subscribe (str_app st) (str_user st) (bc s) = (ch, b)"
  shows "sse_ok (s\<lparr>bc := b, streams := (streams s)(c \<mapsto> st\<lparr>str_chan := Some ch\<rparr>)\<rparr>)"
proof -
  let ?k = "subKey (str_app st) (str_user st)"
  have b: "ch = next_chan (bc s)" "next_chan b = Suc ch" "chans b = (chans (bc s))(ch := [])"
    using sub by (auto simp: Subscribe_def Let_def)
  have subs: "subs_at b k = (if k = ?k then subs_at (bc s) k @ [ch] else subs_at (bc s) k)" for k
    using subs_at_Subscribe [of "str_app st" "str_user st" "bc s" k] sub b(1) by simp
  let ?s = "s\<lparr>bc := b, streams := (streams s)(c \<mapsto> st\<lparr>str_chan := Some ch\<rparr>)\<rparr>"
  have none: "\<not> owns s c k ch'" for k ch' using st by (simp add: owns_def)
  have new: "ch \<notin> set (subs_at (bc s) k)" for k
    using owns_less [OF ok] b(1) by (auto simp: sse_ok_owned [OF ok])
  have owns': "owns ?s c' k ch' \<longleftrightarrow> c' = c \<and> k = ?k \<and> ch' = ch \<or> owns s c' k ch'" for c' k ch'
    using none st by (auto simp: owns_unsubscribed)
  have 3: "ch' \<in> set (subs_at (bc ?s) k) \<longleftrightarrow> (\<exists>c'. owns ?s c' k ch')" for ch' k
  proof -
    have "ch' \<in> set (subs_at b k) \<longleftrightarrow> k = ?k \<and> ch' = ch \<or> ch' \<in> set (subs_at (bc s) k)"
      by (auto simp: subs)
    then show ?thesis unfolding owns' sse_ok_owned [OF ok] by auto
  qed
  have 2: "distinct (subs_at (bc ?s) k)" for k
    using sse_ok_distinct [OF ok] new by (simp add: subs)
  have 4: "ch' < next_chan (bc ?s)" if "streams ?s c' = Some st'" "str_chan st' = Some ch'" for c' st' ch'
    using that sse_ok_less [OF ok] b by (auto simp: less_SucI split: if_splits)
  have 5: "c1 = c2" if "streams ?s c1 = Some st1" "streams ?s c2 = Some st2"
      "str_chan st1 = Some ch'" "str_chan st2 = Some ch'" for c1 c2 st1 st2 ch'
  proof -
    have old: "streams s c' \<noteq> Some st' \<or> str_chan st' \<noteq> Some ch" for c' st'
      using sse_ok_less [OF ok, of c' st' ch] b(1) by auto
    show ?thesis
      using that sse_ok_inj [OF ok, of c1 st1 c2 st2 ch'] old by (auto split: if_splits)
  qed
  have 1: "length (chans (bc ?s) ch') \<le> 1" for ch'
    using sse_ok_buffer [OF ok, of ch'] by (simp add: b(3))
  show ?thesis by (rule sse_okI [OF 1 2 3 4 5])
qed

lemma sse_ok_close:
  assumes ok: "sse_ok s" and st: "streams s c = Some st" "str_open st" "str_chan st = Some ch"
  shows "sse_ok (s\<lparr>bc := Unsubscribe (str_app st) (str_user st) ch (bc s),
                   streams := (streams s)(c \<mapsto> st\<lparr>str_open := False\<rparr>)\<rparr>)"
proof -
  let ?k = "subKey (str_app st) (str_user st)" and ?b = "Unsubscribe (str_app st) (str_user st) ch (bc s)"
  let ?s = "s\<lparr>bc := ?b, streams := (streams s)(c \<mapsto> st\<lparr>str_open := False\<rparr>)\<rparr>"
  have b: "chans ?b = chans (bc s)" "next_chan ?b = next_chan (bc s)"
    by (simp_all add: Unsubscribe_def Let_def)
  have own: "owns s c ?k ch" using st by (simp add: owns_def)
  have owns': "owns ?s c' k ch' \<longleftrightarrow> c' \<noteq> c \<and> owns s c' k ch'" for c' k ch'
    by (simp add: owns_unsubscribed)
  have mem: "ch' \<in> set (subs_at ?b k) \<longleftrightarrow> ch' \<in> set (subs_at (bc s) k) \<and> (k = ?k \<longrightarrow> ch' \<noteq> ch)" for ch' k
    using sse_ok_distinct [OF ok] by (simp add: subs_at_Unsubscribe)
  have 3: "ch' \<in> set (subs_at (bc ?s) k) \<longleftrightarrow> (\<exists>c'. owns ?s c' k ch')" for ch' k
  proof
    assume "ch' \<in> set (subs_at (bc ?s) k)"
    then obtain c' where c': "owns s c' k ch'" "k = ?k \<longrightarrow> ch' \<noteq> ch"
      by (auto simp: mem sse_ok_owned [OF ok])
    then have "c' \<noteq> c" using owns_fun [OF own] by blast
    then show "\<exists>c'. owns ?s c' k ch'" using c'(1) unfolding owns' by blast
  next
    assume "\<exists>c'. owns ?s c' k ch'"
    then obtain c' where c': "c' \<noteq> c" "owns s c' k ch'" unfolding owns' by blast
    then have "ch' \<noteq> ch" using owns_inj [OF ok own] by blast
    then show "ch' \<in> set (subs_at (bc ?s) k)" using c'(2) by (auto simp: mem sse_ok_owned [OF ok])
  qed
  have 2: "distinct (subs_at (bc ?s) k)" for k
    using sse_ok_distinct [OF ok] by (simp add: subs_at_Unsubscribe)
  have 4: "ch' < next_chan (bc ?s)" if "streams ?s c' = Some st'" "str_chan st' = Some ch'" for c' st' ch'
    using that st sse_ok_less [OF ok] by (auto simp: b split: if_splits)
  have 5: "c1 = c2" if "streams ?s c1 = Some st1" "streams ?s c2 = Some st2"
      "str_chan st1 = Some ch'" "str_chan st2 = Some ch'" for c1 c2 st1 st2 ch'
  proof -
    have "\<exists>st0. streams s c' = Some st0 \<and> str_chan st0 = str_chan st'" if "streams ?s c' = Some st'" for c' st'
      using that st by (auto split: if_splits)
    then show ?thesis using that sse_ok_inj [OF ok] by metis
  qed
  have 1: "length (chans (bc ?s) ch') \<le> 1" for ch'
    using sse_ok_buffer [OF ok] by (simp add: b)
  show ?thesis by (rule sse_okI [OF 1 2 3 4 5])
qed

lemma sse_ok_start: "sse_ok sse_start"
  by (rule sse_okI) (simp_all add: sse_start_def NewBroadcaster_def subs_at_def owns_def)

text \<open>A step that changes buffers and outputs only.\<close>

lemma sse_ok_same_subs:
  assumes ok: "sse_ok s" and b: "\<And>k. subs_at (bc s') k = subs_at (bc s) k" "next_chan (bc s') = next_chan (bc s)"
    "\<And>ch. length (chans (bc s') ch) \<le> 1"
    and st: "\<And>c. map_option (\<lambda>st. (str_app st, str_user st, str_chan st, str_open st)) (streams s' c)
      = map_option (\<lambda>st. (str_app st, str_user st, str_chan st, str_open st)) (streams s c)"
  shows "sse_ok s'"
proof (rule sse_okI)
  have same: "\<exists>st. streams s c = Some st \<and> str_app st = str_app st' \<and> str_user st = str_user st'
      \<and> str_chan st = str_chan st' \<and> str_open st = str_open st'" if "streams s' c = Some st'" for c st'
    using st [of c] that by (cases "streams s c") auto
  have same': "\<exists>st. streams s' c = Some st \<and> str_app st = str_app st' \<and> str_user st = str_user st'
      \<and> str_chan st = str_chan st' \<and> str_open st = str_open st'" if "streams s c = Some st'" for c st'
    using st [of c] that by (cases "streams s' c") auto
  have "owns s' c k ch = owns s c k ch" for c k ch
    unfolding owns_def using same same' by metis
  then show "ch \<in> set (subs_at (bc s') k) \<longleftrightarrow> (\<exists>c. owns s' c k ch)" for k ch
    using sse_ok_owned [OF ok] b(1) by simp
  show "distinct (subs_at (bc s') k)" for k using sse_ok_distinct [OF ok] b(1) by simp
  show "ch < next_chan (bc s')" if "streams s' c = Some st" "str_chan st = Some ch" for c st ch
    using same [OF that(1)] that(2) sse_ok_less [OF ok] b(2) by metis
  show "c = c'" if "streams s' c = Some st" "streams s' c' = Some st'" "str_chan st = Some ch" "str_chan st' = Some ch"
    for c c' st st' ch
    using same [OF that(1)] same [OF that(2)] that(3,4) sse_ok_inj [OF ok] by metis
qed (rule b(3))

lemma sse_ok_open:
  assumes ok: "sse_ok s" and c: "streams s c = None" and st: "str_chan st = None"
  shows "sse_ok (s\<lparr>streams := (streams s)(c \<mapsto> st)\<rparr>)"
proof (rule sse_okI)
  let ?s = "s\<lparr>streams := (streams s)(c \<mapsto> st)\<rparr>"
  have old: "c' \<noteq> c \<and> streams s c' = Some st'" if "streams ?s c' = Some st'" "str_chan st' = Some ch" for c' st' ch
    using that st by (auto split: if_splits)
  have "owns ?s c' k ch = owns s c' k ch" for c' k ch
    using c st by (auto simp: owns_def)
  then show "ch \<in> set (subs_at (bc ?s) k) \<longleftrightarrow> (\<exists>c. owns ?s c k ch)" for k ch
    using sse_ok_owned [OF ok] by simp
  show "length (chans (bc ?s) ch) \<le> 1" for ch using sse_ok_buffer [OF ok] by simp
  show "distinct (subs_at (bc ?s) k)" for k using sse_ok_distinct [OF ok] by simp
  show "ch < next_chan (bc ?s)" if "streams ?s c' = Some st'" "str_chan st' = Some ch" for c' st' ch
    using old [OF that] that(2) sse_ok_less [OF ok] by auto
  show "c1 = c2" if "streams ?s c1 = Some st1" "streams ?s c2 = Some st2" "str_chan st1 = Some ch" "str_chan st2 = Some ch"
    for c1 c2 st1 st2 ch
    using old [OF that(1,3)] old [OF that(2,4)] that(3,4) sse_ok_inj [OF ok] by metis
qed

lemma sse_ok_step: "sse_step s s' \<Longrightarrow> sse_ok s \<Longrightarrow> sse_ok s'"
proof (induction rule: sse_step.induct)
  case (sse_open s c a u)
  then show ?case by (intro sse_ok_open) simp_all
next
  case (sse_subscribe s c st ch b)
  then show ?case by (intro sse_ok_subscribe)
next
  case (sse_receive s c st ch msg msgs)
  have "length msgs \<le> 1" using sse_ok_buffer [OF sse_receive.prems, of ch] sse_receive.hyps(4) by simp
  then show ?case
    using sse_ok_buffer [OF sse_receive.prems] sse_receive.hyps
    by (intro sse_ok_same_subs [OF sse_receive.prems]) simp_all
next
  case (sse_close s c st ch)
  then show ?case by (intro sse_ok_close)
next
  case (notify_begin s a u)
  then show ?case using sse_ok_buffer by (intro sse_ok_same_subs [OF notify_begin]) simp_all
next
  case (notify_send i s ch cs)
  have "subs_at (try_send ch (bc s)) k = subs_at (bc s) k" for k by (simp add: subs_at_def)
  moreover have "length (chans (try_send ch (bc s)) c) \<le> 1" for c
    using sse_ok_buffer [OF notify_send.prems, of c] by (simp add: try_send_chans)
  ultimately show ?case by (intro sse_ok_same_subs [OF notify_send.prems]) simp_all
qed

lemma sse_ok_run: "sse_run s s' \<Longrightarrow> sse_ok s \<Longrightarrow> sse_ok s'"
  by (induction rule: sse_run.induct) (auto intro: sse_ok_step)

section \<open>Properties\<close>

text \<open>
  However streams open, subscribe, receive and close while notifications are sent, every
  channel buffers at most one message and the subscribers of a user are exactly the
  channels of that user's open streams, each once: a closed stream leaves nothing behind.
\<close>

theorem sse_run_invariant:
  assumes "sse_run sse_start s"
  shows "length (chans (bc s) ch) \<le> 1
    \<and> distinct (subs_at (bc s) k)
    \<and> (ch \<in> set (subs_at (bc s) k) \<longleftrightarrow>
        (\<exists>c st. streams s c = Some st \<and> str_open st \<and> str_chan st = Some ch
          \<and> subKey (str_app st) (str_user st) = k))"
  using sse_ok_run [OF assms sse_ok_start] sse_ok_buffer sse_ok_distinct sse_ok_owned
  unfolding owns_def by metis

definition one_stream :: sse_system where
  "one_stream = sse_start\<lparr>bc := snd (Subscribe ''app1'' ''user1'' NewBroadcaster),
     streams := [0 \<mapsto> \<lparr>str_app = ''app1'', str_user = ''user1'', str_chan = Some 0, str_open = True, str_out = []\<rparr>]\<rparr>"

lemma run_one_stream: "sse_run sse_start one_stream"
proof -
  let ?st = "\<lparr>str_app = ''app1'', str_user = ''user1'', str_chan = None, str_open = True, str_out = []\<rparr>"
  let ?s = "sse_start\<lparr>streams := [0 \<mapsto> ?st]\<rparr>"
  have 1: "sse_step sse_start ?s"
    using sse_open [of sse_start 0 "''app1''" "''user1''"] by (simp add: sse_start_def)
  have "sse_step ?s (?s\<lparr>bc := snd (Subscribe ''app1'' ''user1'' NewBroadcaster),
      streams := (streams ?s)(0 \<mapsto> ?st\<lparr>str_chan := Some 0\<rparr>)\<rparr>)"
    by (rule sse_subscribe) (simp_all add: sse_start_def NewBroadcaster_def Subscribe_def Let_def)
  then have "sse_step ?s one_stream" by (simp add: one_stream_def)
  then show ?thesis using 1 sse_refl sse_trans by blast
qed

theorem sse_run_invariant_witness:
  "subs_at (bc one_stream) (subKey ''app1'' ''user1'') = [0] \<and> length (chans (bc one_stream) 0) \<le> 1"
proof -
  have "length (chans (bc one_stream) 0) \<le> 1"
    using sse_run_invariant [OF run_one_stream] by blast
  then show ?thesis
    by (simp add: one_stream_def subs_at_Subscribe) (simp add: subs_at_def NewBroadcaster_def)
qed

text \<open>
  The state of a wake-up for channel \<open>ch\<close> of stream \<open>c\<close>, which had written \<open>n\<close> events when the
  notification began.
\<close>

definition woken :: "nat \<Rightarrow> nat \<Rightarrow> nat \<Rightarrow> sse_system \<Rightarrow> bool" where
  "woken c ch n s \<longleftrightarrow>
     (\<exists>cs \<in> set (pending s). ch \<in> set cs) \<or> chans (bc s) ch \<noteq> []
     \<or> (\<exists>st. streams s c = Some st \<and> n < length (str_out st))"

definition listening :: "nat \<Rightarrow> nat \<Rightarrow> nat \<Rightarrow> sse_system \<Rightarrow> bool" where
  "listening c ch n s \<longleftrightarrow> (\<exists>st. streams s c = Some st \<and> str_chan st = Some ch \<and> n \<le> length (str_out st))"

lemma woken_pending: "cs \<in> set (pending s) \<Longrightarrow> ch \<in> set cs \<Longrightarrow> woken c ch n s"
  by (auto simp: woken_def)

lemma listening_step: "sse_step s s' \<Longrightarrow> listening c ch n s \<Longrightarrow> listening c ch n s'"
  by (cases rule: sse_stepE) (auto simp: listening_def)

lemma woken_step:
  assumes "sse_step s s'" "sse_ok s" "listening c ch n s" "woken c ch n s"
  shows "woken c ch n s'"
  using assms(1)
proof cases
  case (sse_open c' a u)
  then show ?thesis using assms(4) by (auto simp: woken_def)
next
  case (sse_subscribe c' st ch' b)
  have "ch' = next_chan (bc s)" "chans b = (chans (bc s))(ch' := [])"
    using sse_subscribe(5) by (auto simp: Subscribe_def Let_def)
  moreover have "ch < next_chan (bc s)"
    using assms(3) sse_ok_less [OF assms(2)] by (auto simp: listening_def)
  ultimately show ?thesis using assms(4) sse_subscribe by (auto simp: woken_def)
next
  case (sse_receive c' st ch' msg msgs)
  show ?thesis
  proof (cases "ch' = ch")
    case True
    obtain st0 where st0: "streams s c = Some st0" "str_chan st0 = Some ch" "n \<le> length (str_out st0)"
      using assms(3) by (auto simp: listening_def)
    then have "c' = c" using sse_ok_inj [OF assms(2)] sse_receive(2,4) True by metis
    then show ?thesis using st0 sse_receive by (auto simp: woken_def)
  next
    case False
    then show ?thesis using assms(4) sse_receive by (auto simp: woken_def)
  qed
next
  case (sse_close c' st ch')
  then show ?thesis using assms(4) by (auto simp: woken_def Unsubscribe_def Let_def)
next
  case (notify_begin a u)
  then show ?thesis using assms(4) by (auto simp: woken_def)
next
  case (notify_send i ch' cs)
  have keep: "chans (bc s) ch \<noteq> [] \<Longrightarrow> chans (try_send ch' (bc s)) ch \<noteq> []"
    by (simp add: try_send_chans)
  consider p where "p \<in> set (pending s)" "ch \<in> set p" | "chans (bc s) ch \<noteq> []"
    | st where "streams s c = Some st" "n < length (str_out st)"
    using assms(4) by (auto simp: woken_def)
  then show ?thesis
  proof cases
    case 1
    then obtain j where j: "j < length (pending s)" "pending s ! j = p" by (auto simp: in_set_conv_nth)
    show ?thesis
    proof (cases "j = i")
      case True
      then have "ch = ch' \<or> ch \<in> set cs" using 1 j notify_send(3) by auto
      then show ?thesis
      proof
        assume "ch = ch'"
        then have "chans (try_send ch' (bc s)) ch \<noteq> []" by (simp add: try_send_chans)
        then show ?thesis using notify_send(1) by (simp add: woken_def)
      next
        assume "ch \<in> set cs"
        then show ?thesis using notify_send(1,2) by (intro woken_pending) (auto intro: set_update_memI)
      qed
    next
      case False
      then have "(pending s)[i := cs] ! j = p" using j by simp
      then have "p \<in> set ((pending s)[i := cs])" using j(1) by (metis length_list_update nth_mem)
      then show ?thesis using 1(2) notify_send(1) by (intro woken_pending) simp_all
    qed
  next
    case 2
    then show ?thesis using keep notify_send(1) by (simp add: woken_def)
  next
    case 3
    then show ?thesis using notify_send(1) by (simp add: woken_def)
  qed
qed

lemma woken_run:
  "sse_run s s' \<Longrightarrow> sse_ok s \<Longrightarrow> listening c ch n s \<Longrightarrow> woken c ch n s \<Longrightarrow> woken c ch n s'"
proof (induction rule: sse_run.induct)
  case (sse_trans s s1 s2)
  have "listening c ch n s1"
    using sse_trans.hyps(1) sse_trans.prems(2) by (induction rule: sse_run.induct) (auto intro: listening_step)
  then show ?case
    using woken_step [OF sse_trans.hyps(2)] sse_ok_run [OF sse_trans.hyps(1)] sse_trans by blast
qed

text \<open>
  C22: No wake-up is lost.  When a notification of a user begins while a stream of that user is
  subscribed, then at every later moment the stream has written an event since, or its
  buffer holds one, or the notification has still to send to it.
\<close>

theorem no_lost_wakeup:
  assumes "sse_run sse_start s" "streams s c = Some st" "str_open st" "str_chan st = Some ch"
    and "s1 = s\<lparr>pending := pending s @ [subs_at (bc s) (subKey (str_app st) (str_user st))]\<rparr>"
    and "sse_run s1 s'" "streams s' c = Some st'"
  shows "length (str_out st) < length (str_out st') \<or> chans (bc s') ch \<noteq> []
    \<or> (\<exists>cs \<in> set (pending s'). ch \<in> set cs)"
proof -
  have ok: "sse_ok s" using sse_ok_run [OF assms(1) sse_ok_start] .
  have "owns s c (subKey (str_app st) (str_user st)) ch" using assms(2-4) by (simp add: owns_def)
  then have "ch \<in> set (subs_at (bc s) (subKey (str_app st) (str_user st)))"
    using sse_ok_owned [OF ok] by blast
  then have w: "woken c ch (length (str_out st)) s1" unfolding assms(5) by (intro woken_pending) simp_all
  have l: "listening c ch (length (str_out st)) s1" using assms(2,4,5) by (simp add: listening_def)
  have "sse_ok s1" using sse_ok_step [OF notify_begin ok] assms(5) by simp
  then have "woken c ch (length (str_out st)) s'" using woken_run [OF assms(6)] l w by blast
  then show ?thesis using assms(7) by (auto simp: woken_def)
qed

theorem no_lost_wakeup_witness:
  "let s1 = one_stream\<lparr>pending := [[0]]\<rparr>
   in sse_run one_stream s1 \<and> (chans (bc s1) 0 \<noteq> [] \<or> (\<exists>cs \<in> set (pending s1). 0 \<in> set cs))"
proof -
  let ?st = "\<lparr>str_app = ''app1'', str_user = ''user1'', str_chan = Some 0, str_open = True, str_out = []\<rparr>"
  let ?s1 = "one_stream\<lparr>pending := [[0]]\<rparr>"
  have st: "streams one_stream 0 = Some ?st" by (simp add: one_stream_def)
  have s1: "?s1 = one_stream\<lparr>pending := pending one_stream
      @ [subs_at (bc one_stream) (subKey (str_app ?st) (str_user ?st))]\<rparr>"
    by (simp add: one_stream_def sse_start_def subs_at_Subscribe) (simp add: subs_at_def NewBroadcaster_def)
  have "sse_run one_stream ?s1"
    unfolding s1 by (rule sse_trans [OF sse_refl notify_begin])
  moreover have "length (str_out ?st) < length (str_out ?st) \<or> chans (bc ?s1) 0 \<noteq> []
      \<or> (\<exists>cs \<in> set (pending ?s1). 0 \<in> set cs)"
    by (rule no_lost_wakeup [OF run_one_stream st _ _ s1 sse_refl]) (simp_all add: one_stream_def)
  ultimately show ?thesis by simp
qed

text \<open>
  The fine-grained steps of a notification refine \<open>Notify\<close>: when nothing else happens in
  between, they lead to the state that one call leaves.
\<close>

theorem Notify_is_a_run:
  "sse_run s (s\<lparr>bc := snd (Notify a u (bc s)), pending := pending s @ [[]]\<rparr>)"
proof -
  let ?cs = "subs_at (bc s) (subKey a u)"
  let ?s = "s\<lparr>pending := pending s @ [?cs]\<rparr>"
  have 1: "sse_step s ?s" by (rule notify_begin)
  have "sse_run ?s (?s\<lparr>bc := foldl (\<lambda>b ch. try_send ch b) (bc ?s) ?cs,
      pending := (pending ?s)[length (pending s) := []]\<rparr>)"
    by (rule sse_run_sends) simp_all
  from sse_step_run [OF this 1] show ?thesis by (simp add: Notify_def)
qed

text \<open>
  Ids that contain a slash share subscriptions: a notification of user \<open>c\<close> of app \<open>a/b\<close> wakes
  the streams of user \<open>b/c\<close> of app \<open>a\<close>.
\<close>

theorem Notify_crosses_tenants:
  "chans (snd (Notify (a @ ''/'' @ b) c (snd (Subscribe a (b @ ''/'' @ c) NewBroadcaster)))) 0 = [''sync'']"
  by (simp add: Notify_chans subs_at_Subscribe subKey_def) (simp add: Subscribe_def Let_def NewBroadcaster_def)

end
