(* ===== verification/Hlc.thy ===== *)
theory Hlc
  imports Core_Types
begin

text \<open>
  \<open>core/crdt/hlc.go\<close>: the hybrid logical clock.  \<open>Tick\<close> and \<open>Receive\<close> take the reading
  of \<open>time.Now().UnixNano()\<close> as an argument and return the stamp with the clock after the
  call; both run under the clock's mutex, so a run of the clock is a sequence of whole
  calls (\<open>clock_run\<close>).  Wall time is a signed 64-bit word and \<open>WallTime + 1\<close> wraps at
  its end: the lemmas carry the condition under which it does not (\<open>saturated\<close>).
\<close>

record clock =
  clk_last :: hlc
  clk_deviceID :: string

definition NewClock :: "string \<Rightarrow> clock" where
  "NewClock dev = \<lparr>clk_last = zero_hlc, clk_deviceID = dev\<rparr>"

definition MaxUint32 :: "32 word" where
  "MaxUint32 = 4294967295"

text \<open>The counter is passed by pointer in the source: here it is returned beside the wall time.\<close>

definition advanceLogicalWall :: "64 word \<Rightarrow> 32 word \<Rightarrow> 64 word \<times> 32 word" where
  "advanceLogicalWall wallTime logical =
     (if logical = MaxUint32 then (wallTime + 1, 0) else (wallTime, logical + 1))"

definition Tick :: "64 word \<Rightarrow> clock \<Rightarrow> hlc \<times> clock" where
  "Tick wall c =
     (let l = clk_last c;
          l1 = (if sint wall \<le> sint (WallTime l) then
                  (if Logical l = MaxUint32
                   then l\<lparr>WallTime := WallTime l + 1, Logical := 0\<rparr>
                   else l\<lparr>Logical := Logical l + 1\<rparr>)
                else l\<lparr>WallTime := wall, Logical := 0\<rparr>);
          l2 = l1\<lparr>DeviceID := clk_deviceID c\<rparr>
      in (l2, c\<lparr>clk_last := l2\<rparr>))"

definition max3 :: "64 word \<Rightarrow> 64 word \<Rightarrow> 64 word \<Rightarrow> 64 word" where
  "max3 a b c =
     (if sint b \<le> sint a \<and> sint c \<le> sint a then a
      else if sint c \<le> sint b then b
      else c)"

definition max2u :: "32 word \<Rightarrow> 32 word \<Rightarrow> 32 word" where
  "max2u a b = (if b < a then a else b)"

definition Receive :: "64 word \<Rightarrow> hlc \<Rightarrow> clock \<Rightarrow> hlc \<times> clock" where
  "Receive wall remote c =
     (let l = clk_last c;
          maxWall = max3 wall (WallTime l) (WallTime remote);
          (w, n) =
            (if maxWall = WallTime l \<and> maxWall = WallTime remote
               then advanceLogicalWall maxWall (max2u (Logical l) (Logical remote))
             else if maxWall = WallTime l
               then advanceLogicalWall maxWall (Logical l)
             else if maxWall = WallTime remote
               then advanceLogicalWall maxWall (Logical remote)
             else (maxWall, 0));
          l2 = l\<lparr>WallTime := w, Logical := n, DeviceID := clk_deviceID c\<rparr>
      in (l2, c\<lparr>clk_last := l2\<rparr>))"

definition Before :: "hlc \<Rightarrow> hlc \<Rightarrow> bool" where
  "Before a b =
     (if WallTime a \<noteq> WallTime b then sint (WallTime a) < sint (WallTime b)
      else if Logical a \<noteq> Logical b then Logical a < Logical b
      else DeviceID a < DeviceID b)"

section \<open>Before is the strict total order of stamps\<close>

lemma Before_iff_less: "Before a b \<longleftrightarrow> a < b"
  by (auto simp: Before_def hlc_less_iff word_less_def sint_eq_iff)

section \<open>Advancing without wrap-around\<close>

text \<open>The one stamp after which no later one exists: both counters at their maximum.\<close>

definition saturated :: "hlc \<Rightarrow> bool" where
  "saturated h \<longleftrightarrow> sint (WallTime h) = 2 ^ 63 - 1 \<and> Logical h = MaxUint32"

lemma sint64_bounds: "- (2 ^ 63) \<le> sint (w :: 64 word)" "sint (w :: 64 word) \<le> 2 ^ 63 - 1"
  using sint_range_size [of w] by (auto simp: word_size)

lemma sint64_add1: "sint (w :: 64 word) \<noteq> 2 ^ 63 - 1 \<Longrightarrow> sint (w + 1) = sint w + 1"
  using sint64_bounds [of w] by (simp add: sint_word_ariths signed_take_bit_int_eq_self)

lemma sint64_add1_max: "sint (w :: 64 word) = 2 ^ 63 - 1 \<Longrightarrow> sint (w + 1) = - (2 ^ 63)"
  by (simp add: sint_word_ariths)

lemma uint32_add1: "(n :: 32 word) \<noteq> MaxUint32 \<Longrightarrow> uint (n + 1) = uint n + 1"
proof -
  assume "n \<noteq> MaxUint32"
  then have "uint n \<noteq> 4294967295"
    by (metis MaxUint32_def word_of_int_numeral word_of_int_uint)
  then show ?thesis
    using uint_lt2p [of n] by (simp add: uint_word_ariths)
qed

lemma uint32_le_Max: "uint (n :: 32 word) \<le> uint MaxUint32"
  using uint_lt2p [of n] by (simp add: MaxUint32_def)

lemma advance_time:
  assumes "\<not> (sint w = 2 ^ 63 - 1 \<and> n = MaxUint32)" and "advanceLogicalWall w n = (w', n')"
  shows "(sint w, uint n) < (sint w', uint n')" and "sint w' \<le> sint w + 1"
  using assms by (auto simp: advanceLogicalWall_def sint64_add1 uint32_add1 split: if_splits)

lemma advance_wall_le:
  "advanceLogicalWall w n = (w', n') \<Longrightarrow> sint w' \<le> sint w + 1"
  by (cases "sint w = 2 ^ 63 - 1")
    (auto simp: advanceLogicalWall_def sint64_add1 sint64_add1_max split: if_splits)

lemma max3_cases: "max3 a b c \<in> {a, b, c}"
  by (auto simp: max3_def)

lemma max3_ge: "sint a \<le> sint (max3 a b c)" "sint b \<le> sint (max3 a b c)" "sint c \<le> sint (max3 a b c)"
  by (auto simp: max3_def)

lemma max3_max: "sint (max3 a b c) = max (sint a) (max (sint b) (sint c))"
  by (auto simp: max3_def)

lemma max2u_max: "uint (max2u a b) = max (uint a) (uint b)"
  by (auto simp: max2u_def word_less_def)

lemma max2u_Max: "max2u a b = MaxUint32 \<longleftrightarrow> a = MaxUint32 \<or> b = MaxUint32"
  using uint32_le_Max [of a] uint32_le_Max [of b]
  by (auto simp: max2u_def word_less_def uint_eq_iff [symmetric])

lemma Tick_advances:
  assumes "\<not> saturated (clk_last c)" and "Tick wall c = (h, c')"
  shows "hlc_time (clk_last c) < hlc_time h" and "sint wall \<le> sint (WallTime h)"
  using assms
  by (auto simp: Tick_def Let_def hlc_time_def saturated_def sint64_add1 uint32_add1 split: if_splits)

lemma Tick_result: "Tick wall c = (h, c') \<Longrightarrow>
    c' = c\<lparr>clk_last := h\<rparr> \<and> DeviceID h = clk_deviceID c"
  by (auto simp: Tick_def Let_def)

lemma Receive_result: "Receive wall remote c = (h, c') \<Longrightarrow>
    c' = c\<lparr>clk_last := h\<rparr> \<and> DeviceID h = clk_deviceID c"
  by (auto simp: Receive_def Let_def split: prod.splits)

text \<open>The branch \<open>Receive\<close> takes, with the stamp it starts from.\<close>

lemma Receive_cases:
  assumes "Receive wall remote c = (h, c')"
  obtains (both) "WallTime (clk_last c) = WallTime remote" "sint wall \<le> sint (WallTime remote)"
      "advanceLogicalWall (WallTime remote) (max2u (Logical (clk_last c)) (Logical remote))
         = (WallTime h, Logical h)"
    | (local) "sint (WallTime remote) < sint (WallTime (clk_last c))"
      "sint wall \<le> sint (WallTime (clk_last c))"
      "advanceLogicalWall (WallTime (clk_last c)) (Logical (clk_last c)) = (WallTime h, Logical h)"
    | (remote) "sint (WallTime (clk_last c)) < sint (WallTime remote)"
      "sint wall \<le> sint (WallTime remote)"
      "advanceLogicalWall (WallTime remote) (Logical remote) = (WallTime h, Logical h)"
    | (wall) "sint (WallTime (clk_last c)) < sint wall" "sint (WallTime remote) < sint wall"
      "WallTime h = wall" "Logical h = 0"
proof -
  let ?l = "WallTime (clk_last c)" and ?r = "WallTime remote"
  let ?m = "max3 wall ?l ?r"
  have m: "sint ?m = max (sint wall) (max (sint ?l) (sint ?r))" by (rule max3_max)
  consider "?m = ?l" "?m = ?r" | "?m = ?l" "?m \<noteq> ?r" | "?m \<noteq> ?l" "?m = ?r" | "?m \<noteq> ?l" "?m \<noteq> ?r"
    by blast
  then show thesis
  proof cases
    case 1
    then show thesis using assms m by (intro both) (auto simp: Receive_def Let_def split: prod.splits)
  next
    case 2
    then have "sint ?r < sint ?l" using m by (metis max.cobounded2 max.coboundedI2 order_le_less sint_eq_iff)
    with 2 show thesis using assms m by (intro local) (auto simp: Receive_def Let_def split: prod.splits)
  next
    case 3
    then have "sint ?l < sint ?r" using m by (metis max.cobounded1 max.coboundedI2 order_le_less sint_eq_iff)
    with 3 show thesis using assms m by (intro remote) (auto simp: Receive_def Let_def split: prod.splits)
  next
    case 4
    then have "?m = wall" using max3_cases [of wall ?l ?r] by auto
    moreover have "sint ?l < sint ?m" "sint ?r < sint ?m"
      using 4 max3_ge [of _ _ _] by (metis order_le_less sint_eq_iff)+
    ultimately show thesis using 4 assms by (intro wall) (auto simp: Receive_def Let_def)
  qed
qed

lemma Receive_advances:
  assumes "\<not> saturated (clk_last c)" "\<not> saturated remote" and R: "Receive wall remote c = (h, c')"
  shows "hlc_time (clk_last c) < hlc_time h \<and> hlc_time remote < hlc_time h \<and> sint wall \<le> sint (WallTime h)"
  using R
proof (cases rule: Receive_cases)
  case both
  have "\<not> (sint (WallTime remote) = 2 ^ 63 - 1 \<and> max2u (Logical (clk_last c)) (Logical remote) = MaxUint32)"
    using assms(1,2) both(1) by (auto simp: saturated_def max2u_Max)
  from advance_time(1) [OF this both(3)] show ?thesis
    using both(1,2) by (auto simp: hlc_time_def max2u_max)
next
  case local
  have "\<not> (sint (WallTime (clk_last c)) = 2 ^ 63 - 1 \<and> Logical (clk_last c) = MaxUint32)"
    using assms(1) by (simp add: saturated_def)
  from advance_time(1) [OF this local(3)] show ?thesis
    using local(1,2) by (auto simp: hlc_time_def)
next
  case remote
  have "\<not> (sint (WallTime remote) = 2 ^ 63 - 1 \<and> Logical remote = MaxUint32)"
    using assms(2) by (simp add: saturated_def)
  from advance_time(1) [OF this remote(3)] show ?thesis
    using remote(1,2) by (auto simp: hlc_time_def)
next
  case wall
  then show ?thesis by (auto simp: hlc_time_def)
qed

lemma Tick_wall_le:
  "Tick wall c = (h, c') \<Longrightarrow> sint (WallTime h) \<le> max (sint wall) (sint (WallTime (clk_last c)) + 1)"
  by (cases "sint (WallTime (clk_last c)) = 2 ^ 63 - 1")
    (auto simp: Tick_def Let_def sint64_add1 sint64_add1_max split: if_splits)

lemma Receive_wall_le:
  assumes "Receive wall remote c = (h, c')"
  shows "sint (WallTime h)
           \<le> max (sint wall) (max (sint (WallTime remote)) (sint (WallTime (clk_last c))) + 1)"
  using assms
proof (cases rule: Receive_cases)
  case both
  then show ?thesis using advance_wall_le [OF both(3)] by simp
next
  case local
  then show ?thesis using advance_wall_le [OF local(3)] by simp
next
  case remote
  then show ?thesis using advance_wall_le [OF remote(3)] by simp
next
  case wall
  then show ?thesis by simp
qed

section \<open>Runs of a clock\<close>

text \<open>
  The two calls a clock serves.  The mutex makes a run of the clock a sequence of whole
  calls, whichever goroutines make them.
\<close>

datatype clock_event = ETick "64 word" | EReceive "64 word" hlc

fun clock_do :: "clock_event \<Rightarrow> clock \<Rightarrow> hlc \<times> clock" where
  "clock_do (ETick wall) c = Tick wall c"
| "clock_do (EReceive wall remote) c = Receive wall remote c"

text \<open>Every wall time the event brings in, from the machine or from a remote stamp, is at most \<open>B\<close>.\<close>

fun event_below :: "int \<Rightarrow> clock_event \<Rightarrow> bool" where
  "event_below B (ETick wall) = (sint wall \<le> B)"
| "event_below B (EReceive wall remote) = (sint wall \<le> B \<and> sint (WallTime remote) \<le> B)"

inductive clock_run :: "int \<Rightarrow> clock \<Rightarrow> hlc list \<Rightarrow> clock \<Rightarrow> bool" for B :: int and c :: clock where
  start: "clock_run B c [] c"
| call: "clock_run B c hs c' \<Longrightarrow> event_below B e \<Longrightarrow> clock_do e c' = (h, c'')
     \<Longrightarrow> clock_run B c (hs @ [h]) c''"

inductive_cases clock_run_snocE: "clock_run B c (hs @ [h]) c'"
inductive_simps clock_run_Nil: "clock_run B c [] c'"

lemma clock_do_last: "clock_do e c = (h, c') \<Longrightarrow> clk_last c' = h"
  by (cases e) (auto dest!: Tick_result Receive_result)

lemma clock_do_wall_le:
  "event_below B e \<Longrightarrow> clock_do e c = (h, c') \<Longrightarrow>
     sint (WallTime h) \<le> max B (sint (WallTime (clk_last c))) + 1"
  by (cases e) (fastforce dest!: Tick_wall_le Receive_wall_le)+

lemma clock_do_advances:
  assumes "event_below B e" "B < 2 ^ 63 - 1" "sint (WallTime (clk_last c)) < 2 ^ 63 - 1"
    "clock_do e c = (h, c')"
  shows "clk_last c < h"
proof -
  have ns: "\<not> saturated (clk_last c)" using assms(3) by (simp add: saturated_def)
  have "hlc_time (clk_last c) < hlc_time h"
  proof (cases e)
    case (ETick wall)
    then show ?thesis using Tick_advances(1) [OF ns] assms(4) by simp
  next
    case (EReceive wall remote)
    then have "\<not> saturated remote" using assms(1,2) by (simp add: saturated_def)
    then show ?thesis using Receive_advances [OF ns] assms(4) EReceive by auto
  qed
  then show ?thesis by (rule hlc_time_less_imp)
qed

lemma clock_run_wall_le:
  "clock_run B c hs c' \<Longrightarrow>
     sint (WallTime (clk_last c')) \<le> max B (sint (WallTime (clk_last c))) + int (length hs)"
  by (induction rule: clock_run.induct) (fastforce dest: clock_do_wall_le clock_do_last)+

lemma clock_run_sorted:
  assumes "clock_run B c hs c'" "max B (sint (WallTime (clk_last c))) + int (length hs) < 2 ^ 63"
  shows "sorted_wrt (<) (clk_last c # hs) \<and> clk_last c' = last (clk_last c # hs)"
  using assms
proof (induction rule: clock_run.induct)
  case start
  then show ?case by simp
next
  case (call hs c' e h c'')
  have w: "sint (WallTime (clk_last c')) < 2 ^ 63 - 1" "B < 2 ^ 63 - 1"
    using clock_run_wall_le [OF call.hyps(1)] call.prems by simp_all
  have so: "sorted_wrt (<) (clk_last c # hs)" and la: "clk_last c' = last (clk_last c # hs)"
    using call.IH call.prems by simp_all
  have "last (clk_last c # hs) < h"
    using clock_do_advances [OF call.hyps(2) w(2,1) call.hyps(3)] la by simp
  moreover have "x \<le> last (clk_last c # hs)" if "x \<in> set (clk_last c # hs)" for x
    using so that by (intro sorted_le_last strict_sorted_imp_sorted)
  ultimately have "sorted_wrt (<) ((clk_last c # hs) @ [h])"
    unfolding sorted_wrt_append using so by fastforce
  then show ?case
    using clock_do_last [OF call.hyps(3)] by simp
qed

section \<open>Properties\<close>

text \<open>
  C35: \<open>Before\<close> is a strict total order on stamps: irreflexive, transitive and total, so
  any two different stamps are ordered one way and only one.
\<close>

theorem Before_strict_total_order: "irreflp Before \<and> transp Before \<and> totalp Before"
proof -
  have "Before = (<)" by (intro ext) (simp add: Before_iff_less)
  then show ?thesis by simp
qed

text \<open>
  C20: \<open>Receive\<close> returns a stamp after the clock's last stamp and after the remote stamp,
  whose wall time is no earlier than the machine's, and keeps it as the clock's last, as
  long as neither stamp is the very last one there is.
\<close>

theorem Receive_after_both:
  assumes "\<not> saturated (clk_last c)" "\<not> saturated remote" "Receive wall remote c = (h, c')"
  shows "Before (clk_last c) h \<and> Before remote h \<and> sint wall \<le> sint (WallTime h)
    \<and> clk_last c' = h \<and> DeviceID h = clk_deviceID c"
  using Receive_advances [OF assms] Receive_result [OF assms(3)]
  by (auto simp: Before_iff_less intro: hlc_time_less_imp)

theorem Receive_after_both_witness:
  "let remote = \<lparr>WallTime = 7, Logical = MaxUint32, DeviceID = ''dev2''\<rparr>;
       (h, c') = Receive 5 remote (NewClock ''server'')
   in Before remote h \<and> WallTime h = 8 \<and> Logical h = 0 \<and> clk_last c' = h"
proof -
  let ?remote = "\<lparr>WallTime = 7, Logical = MaxUint32, DeviceID = ''dev2''\<rparr>"
  let ?c = "NewClock ''server''"
  obtain h c' where R: "Receive 5 ?remote ?c = (h, c')" by (cases "Receive 5 ?remote ?c")
  have "\<not> saturated (clk_last ?c)" "\<not> saturated ?remote"
    by (simp_all add: saturated_def NewClock_def)
  from Receive_after_both [OF this R] have "Before ?remote h" "clk_last c' = h" by simp_all
  moreover have "WallTime h = 8" "Logical h = 0"
    using R by (auto simp: Receive_def Let_def NewClock_def max3_def max2u_def advanceLogicalWall_def)
  ultimately show ?thesis using R by simp
qed



text \<open>
  A remote stamp at the end of both counters makes the clock go backwards: wall time
  wraps to the least \<open>int64\<close>, and the stamp returned (which the clock keeps) is before the
  remote stamp and before the clock's last one.
\<close>

theorem Receive_saturated_wraps:
  assumes "saturated remote" "Receive wall remote c = (h, c')" "sint (WallTime (clk_last c)) < 2 ^ 63 - 1"
    "sint wall < 2 ^ 63 - 1"
  shows "sint (WallTime h) = - (2 ^ 63) \<and> Before h remote \<and> clk_last c' = h"
proof -
  have "WallTime h = WallTime remote + 1"
    using assms(2)
  proof (cases rule: Receive_cases)
    case remote
    then show ?thesis using assms(1) by (auto simp: advanceLogicalWall_def saturated_def)
  qed (use assms(1,3,4) in \<open>auto simp: saturated_def\<close>)
  then have "sint (WallTime h) = - (2 ^ 63)"
    using assms(1) sint64_add1_max by (simp add: saturated_def)
  then show ?thesis
    using assms(1) Receive_result [OF assms(2)] by (auto simp: Before_iff_less hlc_less_iff saturated_def)
qed

theorem Receive_saturated_wraps_witness:
  "let remote = \<lparr>WallTime = 9223372036854775807, Logical = MaxUint32, DeviceID = ''dev2''\<rparr>
   in Before (fst (Receive 5 remote (NewClock ''server''))) remote"
proof -
  let ?remote = "\<lparr>WallTime = 9223372036854775807, Logical = MaxUint32, DeviceID = ''dev2''\<rparr>"
  let ?c = "NewClock ''server''"
  obtain h c' where R: "Receive 5 ?remote ?c = (h, c')" by (cases "Receive 5 ?remote ?c")
  have "saturated ?remote" by (simp add: saturated_def)
  from Receive_saturated_wraps [OF this R] show ?thesis
    using R by (simp add: NewClock_def)
qed

end
