(* ===== verification/Dataset.thy ===== *)
theory Dataset
  imports Sqlite Hlc
begin

text \<open>
  \<open>storage/crsqlite/data.go\<close>: the per-dataset operation log.  Each function of the file is
  a definition of the same name, taking the ids and acting on the database.  The log of a
  dataset is a table named after the three ids by \<open>datasetTable\<close>; \<open>InsertOps\<close> and
  \<open>ReactivateOps\<close> run in a transaction, every other function is a sequence of statements
  that each commit.
\<close>

section \<open>Table names\<close>

definition name_char :: "char \<Rightarrow> bool" where
  "name_char c \<longleftrightarrow>
     (CHR ''a'' \<le> c \<and> c \<le> CHR ''z'') \<or> (CHR ''A'' \<le> c \<and> c \<le> CHR ''Z'')
     \<or> (CHR ''0'' \<le> c \<and> c \<le> CHR ''9'')"

definition sanitize :: "string \<Rightarrow> string" where
  "sanitize s = map (\<lambda>c. if name_char c then c else CHR ''_'') s"

definition datasetTable :: "string \<Rightarrow> string \<Rightarrow> string \<Rightarrow> string" where
  "datasetTable appID userID datasetID =
     ''op_log_'' @ sanitize appID @ ''_'' @ sanitize userID @ ''_'' @ sanitize datasetID"

section \<open>EnsureDataset\<close>

definition create_snapshots :: "unit dbprog" where
  "create_snapshots db =
     (Inr (), if snapshots db = None
              then db\<lparr>snapshots := Some [], master := insert ''snapshots'' (master db)\<rparr> else db)"

definition create_op_log :: "string \<Rightarrow> unit dbprog" where
  "create_op_log tbl db =
     (Inr (), if table_rows tbl db = None
              then (set_rows tbl [] db)\<lparr>master := insert tbl (master db)\<rparr> else db)"

definition count_master :: "string \<Rightarrow> int dbprog" where
  "count_master name db = (Inr (if name \<in> master db then 1 else 0), db)"

definition crsql_as_crr :: "string \<Rightarrow> unit dbprog" where
  "crsql_as_crr tbl db = (Inr (), db\<lparr>master := master db \<union> crr_tables db tbl\<rparr>)"

definition EnsureDataset :: "string \<Rightarrow> string \<Rightarrow> string \<Rightarrow> unit dbprog" where
  "EnsureDataset appID userID datasetID =
     bindP (wrapP (Wrap ''create snapshots table'') (sql create_snapshots)) (\<lambda>_.
     let tbl = datasetTable appID userID datasetID in
     bindP (wrapP (Wrap (''create op_log table '' @ tbl)) (sql (create_op_log tbl))) (\<lambda>_.
     bindP (wrapP (Wrap ''check crsql shadow table'') (sql (count_master (tbl @ ''__crsql_clock'')))) (\<lambda>count.
     if count > 0 then retP ()
     else wrapP (Wrap (''crsql_as_crr '' @ tbl)) (sql (crsql_as_crr tbl)))))"

section \<open>InsertOps\<close>

definition op_to_row :: "json \<Rightarrow> crdt_op \<Rightarrow> op_row" where
  "op_to_row valueJSON op =
     \<lparr>row_op_id = OpID op, row_doc_id = DocID op, row_field = Field op, row_value = valueJSON,
      row_ts_wall = WallTime (Timestamp op), row_ts_logic = Logical (Timestamp op),
      row_device_id = OpDeviceID op, row_status = ''active''\<rparr>"

lemma op_to_row_sel [simp]:
  "row_op_id (op_to_row j op) = OpID op" "row_doc_id (op_to_row j op) = DocID op"
  "row_field (op_to_row j op) = Field op" "row_value (op_to_row j op) = j"
  "row_ts_wall (op_to_row j op) = WallTime (Timestamp op)"
  "row_ts_logic (op_to_row j op) = Logical (Timestamp op)"
  "row_device_id (op_to_row j op) = OpDeviceID op" "row_status (op_to_row j op) = ''active''"
  by (simp_all add: op_to_row_def)

text \<open>\<open>INSERT \<dots> ON CONFLICT(op_id) DO NOTHING\<close>\<close>

definition insert_ignore :: "op_row \<Rightarrow> op_row list \<Rightarrow> unit \<times> op_row list" where
  "insert_ignore r rows =
     ((), if row_op_id r \<in> row_op_id ` set rows then rows else rows @ [r])"

text \<open>The loop both transactions run: marshal the value, execute the prepared statement.\<close>

fun exec_ops :: "string \<Rightarrow> string \<Rightarrow> (op_row \<Rightarrow> op_row list \<Rightarrow> unit \<times> op_row list) \<Rightarrow> crdt_op list
    \<Rightarrow> unit dbprog" where
  "exec_ops verb tbl stmt [] = retP ()"
| "exec_ops verb tbl stmt (op # ops) =
     (case json_marshal (Value op) of
        None \<Rightarrow> failP (Wrap (''marshal value for op '' @ OpID op) ErrMarshal)
      | Some valueJSON \<Rightarrow>
          bindP (wrapP (Wrap (verb @ '' op '' @ OpID op)) (sql (on_table tbl (stmt (op_to_row valueJSON op)))))
            (\<lambda>_. exec_ops verb tbl stmt ops))"

text \<open>Preparing a statement fails when the table does not exist.\<close>

definition prepare :: "string \<Rightarrow> unit dbprog" where
  "prepare tbl = read_table tbl (\<lambda>_. ())"

definition InsertOps :: "string \<Rightarrow> string \<Rightarrow> string \<Rightarrow> crdt_op list \<Rightarrow> unit dbprog" where
  "InsertOps appID userID datasetID ops =
     (let tbl = datasetTable appID userID datasetID in
      with_tx (bindP (wrapP (Wrap ''prepare insert'') (sql (prepare tbl)))
                (\<lambda>_. exec_ops ''insert'' tbl insert_ignore ops)))"

section \<open>QueryOps, CountOps\<close>

definition row_time :: "op_row \<Rightarrow> int \<times> int" where
  "row_time r = (sint (row_ts_wall r), uint (row_ts_logic r))"

text \<open>The \<open>WHERE\<close> clause: with or without the device as the last tie-breaker.\<close>

definition after_cursor :: "hlc \<Rightarrow> op_row \<Rightarrow> bool" where
  "after_cursor since r \<longleftrightarrow>
     row_status r = ''active'' \<and>
     (if DeviceID since \<noteq> [] then
        sint (row_ts_wall r) > sint (WallTime since)
        \<or> row_ts_wall r = WallTime since \<and> uint (row_ts_logic r) > uint (Logical since)
        \<or> row_ts_wall r = WallTime since \<and> row_ts_logic r = Logical since \<and> row_device_id r > DeviceID since
      else
        sint (row_ts_wall r) > sint (WallTime since)
        \<or> row_ts_wall r = WallTime since \<and> uint (row_ts_logic r) > uint (Logical since))"

text \<open>\<open>ORDER BY ts_wall ASC, ts_logic ASC, device_id ASC\<close>\<close>

definition row_order :: "op_row \<Rightarrow> int \<times> int \<times> string" where
  "row_order r = (sint (row_ts_wall r), uint (row_ts_logic r), row_device_id r)"

text \<open>Scanning a row: the stamp's device is the operation's device.\<close>

definition row_to_op :: "op_row \<Rightarrow> crdt_op" where
  "row_to_op r =
     \<lparr>OpID = row_op_id r, DocID = row_doc_id r, Field = row_field r,
      Value = json_unmarshal (row_value r),
      Timestamp = \<lparr>WallTime = row_ts_wall r, Logical = row_ts_logic r, DeviceID = row_device_id r\<rparr>,
      OpDeviceID = row_device_id r\<rparr>"

definition select_ops :: "hlc \<Rightarrow> op_row list \<Rightarrow> op_row list" where
  "select_ops since rows = sort_key row_order (filter (after_cursor since) rows)"

definition QueryOps :: "string \<Rightarrow> string \<Rightarrow> string \<Rightarrow> hlc \<Rightarrow> crdt_op list dbprog" where
  "QueryOps appID userID datasetID since =
     (let tbl = datasetTable appID userID datasetID in
      bindP (wrapP (Wrap ''query ops'') (sql (read_table tbl (select_ops since)))) (\<lambda>rows.
      bindP (sql (retP ())) (\<lambda>_.  \<comment> \<open>\<open>rows.Err()\<close>\<close>
      retP (map row_to_op rows))))"

definition CountOps :: "string \<Rightarrow> string \<Rightarrow> string \<Rightarrow> int dbprog" where
  "CountOps appID userID datasetID =
     wrapP (Wrap ''count ops'')
       (sql (read_table (datasetTable appID userID datasetID)
          (\<lambda>rows. int (length (filter (\<lambda>r. row_status r = ''active'') rows)))))"

section \<open>DeleteOps, ArchiveOps, ReactivateOps, WriteSnapshot\<close>

definition DeleteOps :: "string \<Rightarrow> string \<Rightarrow> string \<Rightarrow> unit dbprog" where
  "DeleteOps appID userID datasetID =
     wrapP (Wrap ''delete ops'')
       (sql (on_table (datasetTable appID userID datasetID) (\<lambda>rows. ((), []))))"

definition archive_row :: "op_row \<Rightarrow> op_row" where
  "archive_row r = (if row_status r = ''active'' then r\<lparr>row_status := ''archived''\<rparr> else r)"

definition ArchiveOps :: "string \<Rightarrow> string \<Rightarrow> string \<Rightarrow> unit dbprog" where
  "ArchiveOps appID userID datasetID =
     wrapP (Wrap ''archive ops'')
       (sql (on_table (datasetTable appID userID datasetID) (\<lambda>rows. ((), map archive_row rows))))"

text \<open>\<open>INSERT \<dots> ON CONFLICT(op_id) DO UPDATE SET status = 'active'\<close>\<close>

definition insert_activate :: "op_row \<Rightarrow> op_row list \<Rightarrow> unit \<times> op_row list" where
  "insert_activate r rows =
     ((), if row_op_id r \<in> row_op_id ` set rows
          then map (\<lambda>x. if row_op_id x = row_op_id r then x\<lparr>row_status := ''active''\<rparr> else x) rows
          else rows @ [r])"

definition ReactivateOps :: "string \<Rightarrow> string \<Rightarrow> string \<Rightarrow> crdt_op list \<Rightarrow> unit dbprog" where
  "ReactivateOps appID userID datasetID ops =
     (let tbl = datasetTable appID userID datasetID in
      with_tx (bindP (wrapP (Wrap ''prepare reactivate'') (sql (prepare tbl)))
                (\<lambda>_. exec_ops ''reactivate'' tbl insert_activate ops)))"

text \<open>\<open>INSERT OR REPLACE\<close>: the row with the same key goes, the new one is appended.\<close>

definition replace_snapshot :: "snapshot_row \<Rightarrow> unit dbprog" where
  "replace_snapshot r db =
     (case snapshots db of
        None \<Rightarrow> (Inl (ErrNoTable ''snapshots''), db)
      | Some rs \<Rightarrow>
          (Inr (), db\<lparr>snapshots := Some
             (filter (\<lambda>x. \<not> (sn_dataset_id x = sn_dataset_id r \<and> sn_user_id x = sn_user_id r
                             \<and> sn_doc_id x = sn_doc_id r)) rs @ [r\<lparr>sn_created_at := db_now db\<rparr>])\<rparr>))"

definition WriteSnapshot ::
    "string \<Rightarrow> string \<Rightarrow> string \<Rightarrow> json \<Rightarrow> 64 word \<Rightarrow> 32 word \<Rightarrow> string \<Rightarrow> unit dbprog" where
  "WriteSnapshot datasetID userID docID data wallTime logical deviceID =
     wrapP (Wrap ''write snapshot'')
       (sql (replace_snapshot
          \<lparr>sn_dataset_id = datasetID, sn_user_id = userID, sn_doc_id = docID, sn_data = data,
           sn_wall_time = wallTime, sn_logical = logical, sn_device_id = deviceID, sn_created_at = 0\<rparr>))"

section \<open>What every operation on a dataset keeps\<close>

text \<open>
  A statement relation that every single statement of \<open>data.go\<close> on the dataset \<open>(a, u, d)\<close>
  keeps.  Whatever the schedule of errors, the composed operations then keep it too,
  whether they succeed or fail.
\<close>

locale dataset_invariant = statement_relation R
  for R :: "database \<Rightarrow> database \<Rightarrow> bool" +
  fixes a :: string and u :: string and d :: string
  assumes snapshots_step: "keeps R create_snapshots"
    and op_log_step: "keeps R (create_op_log (datasetTable a u d))"
    and crr_step: "keeps R (crsql_as_crr (datasetTable a u d))"
    and insert_step: "table_rows (datasetTable a u d) db = Some rows \<Longrightarrow> row_status r = ''active'' \<Longrightarrow>
        R db (set_rows (datasetTable a u d) (snd (insert_ignore r rows)) db)"
    and activate_step: "table_rows (datasetTable a u d) db = Some rows \<Longrightarrow> row_status r = ''active'' \<Longrightarrow>
        R db (set_rows (datasetTable a u d) (snd (insert_activate r rows)) db)"
    and archive_step: "table_rows (datasetTable a u d) db = Some rows \<Longrightarrow>
        R db (set_rows (datasetTable a u d) (map archive_row rows) db)"
    and replace_step: "keeps R (replace_snapshot sn)"
begin

lemma keeps_exec_ops:
  assumes "\<And>r. row_status r = ''active'' \<Longrightarrow> keeps R (on_table tbl (stmt r))"
  shows "keeps R (exec_ops verb tbl stmt ops)"
proof (induction ops)
  case (Cons op ops)
  then show ?case
    by (cases "json_marshal (Value op)")
      (simp_all add: keeps_bind_R keeps_wrapP keeps_sql_R assms)
qed simp

lemma keeps_count_master_R: "keeps R (count_master name)"
  using refl by (auto simp: keeps_def count_master_def dest: reflpD)

lemma EnsureDataset_keeps: "keeps R (EnsureDataset a u d)"
  unfolding EnsureDataset_def Let_def
  by (intro keeps_bind_R keeps_wrapP keeps_sql_R keeps_if_R keeps_ret_R keeps_count_master_R
      snapshots_step op_log_step crr_step)

lemma InsertOps_keeps: "keeps R (InsertOps a u d ops)"
  unfolding InsertOps_def Let_def prepare_def
  by (intro keeps_tx_R keeps_bind_R keeps_wrapP keeps_sql_R keeps_read_R keeps_exec_ops
      keeps_on_table_R insert_step; assumption)

lemma QueryOps_keeps: "keeps R (QueryOps a u d since)"
  unfolding QueryOps_def Let_def
  by (intro keeps_bind_R keeps_wrapP keeps_sql_R keeps_read_R keeps_ret_R)

lemma CountOps_keeps: "keeps R (CountOps a u d)"
  unfolding CountOps_def by (intro keeps_wrapP keeps_sql_R keeps_read_R)

lemma ArchiveOps_keeps: "keeps R (ArchiveOps a u d)"
  unfolding ArchiveOps_def
  by (intro keeps_wrapP keeps_sql_R keeps_on_table_R) (simp only: snd_conv archive_step)

lemma ReactivateOps_keeps: "keeps R (ReactivateOps a u d ops)"
  unfolding ReactivateOps_def Let_def prepare_def
  by (intro keeps_tx_R keeps_bind_R keeps_wrapP keeps_sql_R keeps_read_R keeps_exec_ops
      keeps_on_table_R activate_step; assumption)

lemma WriteSnapshot_keeps: "keeps R (WriteSnapshot d' u' doc data w l dev)"
  unfolding WriteSnapshot_def by (intro keeps_wrapP keeps_sql_R replace_step)

end

section \<open>Four invariants of the dataset operations\<close>

text \<open>Nothing but the log of table \<open>tbl\<close> (and the snapshots table) changes.\<close>

definition frame_other :: "string \<Rightarrow> database \<Rightarrow> database \<Rightarrow> bool" where
  "frame_other tbl db db' \<longleftrightarrow>
     (\<forall>k. k \<noteq> table_key tbl \<longrightarrow> tables db' k = tables db k)
     \<and> has_meta db' = has_meta db \<and> device_keys db' = device_keys db \<and> datasets db' = datasets db
     \<and> sync_events db' = sync_events db \<and> next_event_id db' = next_event_id db
     \<and> db_now db' = db_now db \<and> crr_tables db' = crr_tables db"

text \<open>No row of any log disappears; only its status may change.\<close>

definition payload :: "op_row \<Rightarrow> op_row" where
  "payload r = r\<lparr>row_status := []\<rparr>"

definition log_le :: "op_row list \<Rightarrow> op_row list \<Rightarrow> bool" where
  "log_le rows rows' \<longleftrightarrow> payload ` set rows \<subseteq> payload ` set rows'"

definition durable :: "database \<Rightarrow> database \<Rightarrow> bool" where
  "durable db db' \<longleftrightarrow>
     (\<forall>k rows. tables db k = Some rows \<longrightarrow> (\<exists>rows'. tables db' k = Some rows' \<and> log_le rows rows'))"

text \<open>Primary keys are unique and a status is one of the two the program writes.\<close>

definition log_ok :: "op_row list \<Rightarrow> bool" where
  "log_ok rows \<longleftrightarrow>
     distinct (map row_op_id rows) \<and> (\<forall>r \<in> set rows. row_status r \<in> {''active'', ''archived''})"

definition snapshot_key :: "snapshot_row \<Rightarrow> string \<times> string \<times> string" where
  "snapshot_key r = (sn_dataset_id r, sn_user_id r, sn_doc_id r)"

definition db_ok :: "database \<Rightarrow> bool" where
  "db_ok db \<longleftrightarrow>
     (\<forall>k rows. tables db k = Some rows \<longrightarrow> log_ok rows)
     \<and> (\<forall>rs. snapshots db = Some rs \<longrightarrow> distinct (map snapshot_key rs))"

definition ok_step :: "database \<Rightarrow> database \<Rightarrow> bool" where
  "ok_step db db' \<longleftrightarrow> (db_ok db \<longrightarrow> db_ok db')"

text \<open>A schedule without errors stays one.\<close>

definition quiet :: "database \<Rightarrow> database \<Rightarrow> bool" where
  "quiet db db' \<longleftrightarrow> (faults db = [] \<longrightarrow> faults db' = [])"

lemma payload_sel [simp]:
  "row_op_id (payload r) = row_op_id r" "payload (r\<lparr>row_status := s\<rparr>) = payload r"
  "payload (archive_row r) = payload r" "row_op_id (archive_row r) = row_op_id r"
  by (simp_all add: payload_def archive_row_def)

lemma row_op_id_archive_row [simp]: "map row_op_id (map archive_row rows) = map row_op_id rows"
  by simp

lemma row_op_id_update [simp]:
  "map row_op_id (map (\<lambda>x. if p x then x\<lparr>row_status := s\<rparr> else x) rows) = map row_op_id rows"
  by simp

lemma log_le_refl [simp]: "log_le rows rows"
  by (simp add: log_le_def)

lemma log_le_trans: "log_le a b \<Longrightarrow> log_le b c \<Longrightarrow> log_le a c"
  by (auto simp: log_le_def)

lemma log_le_map:
  "(\<And>r. payload (f r) = payload r) \<Longrightarrow> log_le rows (map f rows)"
  by (simp add: log_le_def image_image)

lemma log_le_append [simp]: "log_le rows (rows @ rs)"
  by (auto simp: log_le_def)

lemma log_le_insert_ignore: "log_le rows (snd (insert_ignore r rows))"
  by (simp add: insert_ignore_def)

lemma log_le_insert_activate: "log_le rows (snd (insert_activate r rows))"
  by (auto simp: insert_activate_def intro: log_le_map)

lemma log_le_archive: "log_le rows (map archive_row rows)"
  by (rule log_le_map) simp

lemma log_ok_insert_ignore:
  "log_ok rows \<Longrightarrow> row_status r = ''active'' \<Longrightarrow> log_ok (snd (insert_ignore r rows))"
  by (auto simp: log_ok_def insert_ignore_def)

lemma log_ok_insert_activate:
  assumes "log_ok rows" "row_status r = ''active''"
  shows "log_ok (snd (insert_activate r rows))"
proof (cases "row_op_id r \<in> row_op_id ` set rows")
  case True
  then have "map row_op_id (snd (insert_activate r rows)) = map row_op_id rows"
    by (simp only: insert_activate_def snd_conv if_True row_op_id_update)
  moreover have "\<forall>x \<in> set (snd (insert_activate r rows)). row_status x \<in> {''active'', ''archived''}"
    using True assms by (auto simp: insert_activate_def log_ok_def)
  ultimately show ?thesis using assms(1) by (simp only: log_ok_def)
next
  case False
  then show ?thesis using assms by (auto simp: insert_activate_def log_ok_def)
qed

lemma log_ok_archive:
  assumes "log_ok rows"
  shows "log_ok (map archive_row rows)"
proof -
  have "\<forall>x \<in> set (map archive_row rows). row_status x \<in> {''active'', ''archived''}"
    using assms by (auto simp: log_ok_def archive_row_def)
  then show ?thesis using assms by (simp only: log_ok_def row_op_id_archive_row)
qed

lemma reflp_frame_other: "reflp (frame_other tbl)"
  by (simp add: reflp_def frame_other_def)

lemma transp_frame_other: "transp (frame_other tbl)"
  by (simp add: transp_def frame_other_def)

lemma same_content_frame_other: "same_content db db' \<Longrightarrow> frame_other tbl db db'"
  by (simp add: frame_other_def same_contentD)

lemma frame_other_set_rows [simp]: "frame_other tbl db (set_rows tbl rows db)"
  by (simp add: frame_other_def set_rows_def)

lemma reflp_durable: "reflp durable"
  by (auto simp: reflp_def durable_def)

lemma transp_durable: "transp durable"
  unfolding transp_def durable_def by (meson log_le_trans)

lemma durable_set_rows:
  "table_rows tbl db = Some rows \<Longrightarrow> log_le rows rows' \<Longrightarrow> durable db (set_rows tbl rows' db)"
  by (auto simp: durable_def set_rows_def table_rows_def)

lemma reflp_ok_step: "reflp ok_step"
  by (simp add: reflp_def ok_step_def)

lemma transp_ok_step: "transp ok_step"
  by (auto simp: transp_def ok_step_def)

lemma ok_step_set_rows:
  "table_rows tbl db = Some rows \<Longrightarrow> (log_ok rows \<Longrightarrow> log_ok rows') \<Longrightarrow> ok_step db (set_rows tbl rows' db)"
  by (auto simp: ok_step_def db_ok_def set_rows_def table_rows_def)

lemma ok_step_replace_snapshot: "keeps ok_step (replace_snapshot r)"
proof (rule keepsI)
  fix db
  show "ok_step db (snd (replace_snapshot r db))"
  proof (cases "snapshots db")
    case None
    then show ?thesis using reflpD [OF reflp_ok_step] by (simp add: replace_snapshot_def)
  next
    case (Some rs)
    let ?keep = "filter (\<lambda>x. \<not> (sn_dataset_id x = sn_dataset_id r \<and> sn_user_id x = sn_user_id r
      \<and> sn_doc_id x = sn_doc_id r)) rs"
    have "distinct (map snapshot_key (?keep @ [r\<lparr>sn_created_at := db_now db\<rparr>]))"
      if "distinct (map snapshot_key rs)"
      using that by (auto simp: distinct_map_filter snapshot_key_def)
    then show ?thesis
      using Some by (simp add: replace_snapshot_def ok_step_def db_ok_def)
  qed
qed

interpretation frame_inv: dataset_invariant "frame_other (datasetTable a u d)" a u d
  by unfold_locales
    (auto simp: reflp_frame_other transp_frame_other frame_other_def keeps_def create_snapshots_def
      create_op_log_def crsql_as_crr_def set_rows_def replace_snapshot_def split: option.split)

interpretation durable_inv: dataset_invariant durable a u d
proof unfold_locales
  show "keeps durable (create_op_log (datasetTable a u d))"
    by (auto simp: keeps_def create_op_log_def durable_def set_rows_def table_rows_def)
qed (auto simp: reflp_durable transp_durable durable_def keeps_def create_snapshots_def
      crsql_as_crr_def replace_snapshot_def set_rows_def table_rows_def log_le_insert_ignore
      log_le_insert_activate log_le_archive split: option.split)

interpretation ok_inv: dataset_invariant ok_step a u d
proof unfold_locales
  show "keeps ok_step (create_op_log (datasetTable a u d))"
    by (auto simp: keeps_def create_op_log_def ok_step_def db_ok_def set_rows_def log_ok_def)
  show "keeps ok_step (replace_snapshot sn)" for sn
    by (rule ok_step_replace_snapshot)
  show "keeps ok_step create_snapshots"
    by (auto simp: keeps_def create_snapshots_def ok_step_def db_ok_def)
  show "keeps ok_step (crsql_as_crr (datasetTable a u d))"
    by (simp add: keeps_def crsql_as_crr_def ok_step_def db_ok_def)
  show "ok_step db (db\<lparr>faults := fs\<rparr>)" for db fs
    by (simp add: ok_step_def db_ok_def)
  show "ok_step db (db\<lparr>faults := faults db'\<rparr>)" for db db'
    by (simp add: ok_step_def db_ok_def)
qed (blast intro: reflp_ok_step transp_ok_step ok_step_set_rows log_ok_insert_ignore
      log_ok_insert_activate log_ok_archive)+

interpretation quiet_inv: dataset_invariant quiet a u d
  by unfold_locales
    (auto simp: reflp_def transp_def quiet_def keeps_def create_snapshots_def
      create_op_log_def crsql_as_crr_def replace_snapshot_def split: option.split)

section \<open>What the operations return and leave behind\<close>

text \<open>
  A success of an operation determines the content of the database, whatever errors the
  schedule still holds (\<open>_Inr\<close>); without further errors the operation succeeds
  (\<open>_total\<close>).
\<close>

definition apply_ops :: "(op_row \<Rightarrow> op_row list \<Rightarrow> unit \<times> op_row list) \<Rightarrow> crdt_op list
    \<Rightarrow> op_row list \<Rightarrow> op_row list" where
  "apply_ops stmt ops rows =
     foldl (\<lambda>rs op. snd (stmt (op_to_row (to_json (Value op)) op) rs)) rows ops"

lemma apply_ops_Nil [simp]: "apply_ops stmt [] rows = rows"
  by (simp add: apply_ops_def)

lemma apply_ops_Cons [simp]: "apply_ops stmt (op # ops) rows =
    apply_ops stmt ops (snd (stmt (op_to_row (to_json (Value op)) op) rows))"
  by (simp add: apply_ops_def)

lemma apply_ops_snoc: "apply_ops stmt (ops @ [op]) rows =
    snd (stmt (op_to_row (to_json (Value op)) op) (apply_ops stmt ops rows))"
  by (simp add: apply_ops_def)

lemma exec_ops_Inr:
  assumes "exec_ops verb tbl stmt ops db = (Inr x, db')" "table_rows tbl db = Some rows"
  shows "(\<forall>op \<in> set ops. marshalable (Value op)) \<and> same_content (set_rows tbl (apply_ops stmt ops rows) db) db'"
  using assms
proof (induction ops arbitrary: db rows)
  case Nil
  then show ?case by (simp add: set_rows_same)
next
  case (Cons op ops)
  have m: "marshalable (Value op)"
    using Cons.prems(1) by (auto simp: json_marshal_def split: if_splits)
  let ?r = "op_to_row (to_json (Value op)) op"
  obtain y db1 where 1: "sql (on_table tbl (stmt ?r)) db = (Inr y, db1)"
    and 2: "exec_ops verb tbl stmt ops db1 = (Inr x, db')"
    using Cons.prems(1) m by (auto simp: json_marshal_def bindP_eq_Inr)
  have sc: "same_content (set_rows tbl (snd (stmt ?r rows)) db) db1"
    using sql_on_table_Inr [OF 1] Cons.prems(2) by auto
  then have t: "table_rows tbl db1 = Some (snd (stmt ?r rows))"
    by (simp add: table_rows_same_content)
  have "same_content (set_rows tbl (apply_ops stmt ops (snd (stmt ?r rows))) db1) db'"
    using Cons.IH [OF 2 t] by blast
  moreover have "same_content (set_rows tbl (apply_ops stmt ops (snd (stmt ?r rows))) db)
      (set_rows tbl (apply_ops stmt ops (snd (stmt ?r rows))) db1)"
    using set_rows_same_content [OF sc, of tbl] by simp
  ultimately show ?case
    using Cons.IH [OF 2 t] m by (auto intro: same_content_trans)
qed

lemma exec_ops_total:
  assumes "faults db = []" "table_rows tbl db = Some rows" "\<forall>op \<in> set ops. marshalable (Value op)"
  shows "\<exists>db'. exec_ops verb tbl stmt ops db = (Inr (), db') \<and> faults db' = []"
  using assms
proof (induction ops arbitrary: db rows)
  case (Cons op ops)
  let ?r = "op_to_row (to_json (Value op)) op"
  obtain rows' where r': "stmt ?r rows = ((), rows')" by (cases "stmt ?r rows") simp
  have "sql (on_table tbl (stmt ?r)) db = (Inr (), set_rows tbl rows' db)"
    using Cons.prems r' by simp
  moreover have "\<exists>db'. exec_ops verb tbl stmt ops (set_rows tbl rows' db) = (Inr (), db') \<and> faults db' = []"
    using Cons.prems by (intro Cons.IH) simp_all
  ultimately show ?case
    using Cons.prems(3) by (simp add: json_marshal_def)
qed simp

lemma prepare_Inr: "sql (prepare tbl) db = (Inr x, db') \<Longrightarrow>
    same_content db db' \<and> (\<exists>rows. table_rows tbl db = Some rows)"
  unfolding prepare_def by (drule sql_read_table_Inr) auto

lemma tx_ops_Inr:
  assumes "with_tx (bindP (wrapP f (sql (prepare tbl))) (\<lambda>_. exec_ops verb tbl stmt ops)) db = (Inr x, db')"
  shows "\<exists>rows. table_rows tbl db = Some rows \<and> (\<forall>op \<in> set ops. marshalable (Value op))
    \<and> same_content (set_rows tbl (apply_ops stmt ops rows) db) db'"
proof -
  obtain db1 db2 where 1: "same_content db db1" "same_content db2 db'"
    and b: "bindP (wrapP f (sql (prepare tbl))) (\<lambda>_. exec_ops verb tbl stmt ops) db1 = (Inr x, db2)"
    using assms by (rule with_tx_Inr)
  obtain y db3 where p: "sql (prepare tbl) db1 = (Inr y, db3)" and e: "exec_ops verb tbl stmt ops db3 = (Inr x, db2)"
    using b by (auto simp: bindP_eq_Inr)
  obtain rows where r: "table_rows tbl db1 = Some rows" "same_content db1 db3"
    using prepare_Inr [OF p] by blast
  have t: "table_rows tbl db3 = Some rows" using r by (simp add: table_rows_same_content)
  have "same_content db db3" using 1(1) r(2) by (rule same_content_trans)
  then have "same_content (set_rows tbl (apply_ops stmt ops rows) db) (set_rows tbl (apply_ops stmt ops rows) db3)"
    by (rule set_rows_same_content)
  then show ?thesis
    using exec_ops_Inr [OF e t] r(1) 1 table_rows_same_content [OF 1(1)]
    by (auto intro: same_content_trans)
qed

lemma tx_ops_total:
  assumes "faults db = []" "table_rows tbl db = Some rows" "\<forall>op \<in> set ops. marshalable (Value op)"
  shows "\<exists>db'. with_tx (bindP (wrapP f (sql (prepare tbl))) (\<lambda>_. exec_ops verb tbl stmt ops)) db = (Inr (), db')
    \<and> faults db' = []"
proof -
  obtain db' where e: "exec_ops verb tbl stmt ops db = (Inr (), db')" "faults db' = []"
    using exec_ops_total [OF assms] by blast
  have "sql (prepare tbl) db = (Inr (), db)"
    using assms(1,2) by (simp add: prepare_def)
  then show ?thesis
    using e assms(1) by (simp add: with_tx_def)
qed

lemma InsertOps_Inr:
  "InsertOps a u d ops db = (Inr x, db') \<Longrightarrow>
     \<exists>rows. table_rows (datasetTable a u d) db = Some rows \<and> (\<forall>op \<in> set ops. marshalable (Value op))
       \<and> same_content (set_rows (datasetTable a u d) (apply_ops insert_ignore ops rows) db) db'"
  unfolding InsertOps_def Let_def by (rule tx_ops_Inr)

lemma InsertOps_Inl: "InsertOps a u d ops db = (Inl e, db') \<Longrightarrow> same_content db db'"
  unfolding InsertOps_def Let_def by (rule with_tx_Inl)

lemma ReactivateOps_Inr:
  "ReactivateOps a u d ops db = (Inr x, db') \<Longrightarrow>
     \<exists>rows. table_rows (datasetTable a u d) db = Some rows \<and> (\<forall>op \<in> set ops. marshalable (Value op))
       \<and> same_content (set_rows (datasetTable a u d) (apply_ops insert_activate ops rows) db) db'"
  unfolding ReactivateOps_def Let_def by (rule tx_ops_Inr)

lemma QueryOps_Inr:
  assumes "QueryOps a u d since db = (Inr ops, db')"
  shows "same_content db db' \<and> (\<exists>rows. table_rows (datasetTable a u d) db = Some rows
    \<and> ops = map row_to_op (select_ops since rows))"
proof -
  obtain rs db1 where 1: "sql (read_table (datasetTable a u d) (select_ops since)) db = (Inr rs, db1)"
    and 2: "sql (retP ()) db1 = (Inr (), db')" and o: "ops = map row_to_op rs"
    using assms by (auto simp: QueryOps_def Let_def bindP_eq_Inr)
  then show ?thesis
    using sql_read_table_Inr [OF 1] sql_ret_unit [OF 2] by (auto intro: same_content_trans)
qed

lemma QueryOps_total:
  assumes "faults db = []" "table_rows (datasetTable a u d) db = Some rows"
  shows "QueryOps a u d since db = (Inr (map row_to_op (select_ops since rows)), db)"
  using assms by (simp add: QueryOps_def Let_def)

lemma CountOps_Inr:
  assumes "CountOps a u d db = (Inr n, db')"
  shows "same_content db db' \<and> (\<exists>rows. table_rows (datasetTable a u d) db = Some rows
    \<and> n = int (length (filter (\<lambda>r. row_status r = ''active'') rows)))"
  using assms unfolding CountOps_def by (auto dest: sql_read_table_Inr)

lemma ArchiveOps_Inr:
  assumes "ArchiveOps a u d db = (Inr x, db')"
  shows "\<exists>rows. table_rows (datasetTable a u d) db = Some rows
    \<and> same_content (set_rows (datasetTable a u d) (map archive_row rows) db) db'"
  using assms unfolding ArchiveOps_def by (auto dest: sql_on_table_Inr)

text \<open>The log of a dataset; a table that does not exist yet counts as empty.\<close>

definition log_of :: "string \<Rightarrow> string \<Rightarrow> string \<Rightarrow> database \<Rightarrow> op_row list" where
  "log_of a u d db = (case table_rows (datasetTable a u d) db of None \<Rightarrow> [] | Some rows \<Rightarrow> rows)"

lemma log_of_Some: "table_rows (datasetTable a u d) db = Some rows \<Longrightarrow> log_of a u d db = rows"
  by (simp add: log_of_def)

lemma log_of_same_content: "same_content db db' \<Longrightarrow> log_of a u d db' = log_of a u d db"
  by (simp add: log_of_def table_rows_same_content)

definition ensured :: "string \<Rightarrow> string \<Rightarrow> string \<Rightarrow> database \<Rightarrow> database \<Rightarrow> bool" where
  "ensured a u d db db' \<longleftrightarrow>
     table_rows (datasetTable a u d) db' = Some (log_of a u d db)
     \<and> frame_other (datasetTable a u d) db db'
     \<and> snapshots db' = Some (case snapshots db of None \<Rightarrow> [] | Some rs \<Rightarrow> rs)"

lemma create_snapshots_Inr:
  assumes "sql create_snapshots db = (Inr x, db')"
  shows "snapshots db' = Some (case snapshots db of None \<Rightarrow> [] | Some rs \<Rightarrow> rs)
    \<and> tables db' = tables db"
  using assms by (cases rule: sql_cases [of create_snapshots db])
    (auto simp: create_snapshots_def same_contentD)

lemma create_op_log_Inr:
  assumes "sql (create_op_log (datasetTable a u d)) db = (Inr x, db')"
  shows "table_rows (datasetTable a u d) db' = Some (log_of a u d db) \<and> snapshots db' = snapshots db"
  using assms by (cases rule: sql_cases [of "create_op_log (datasetTable a u d)" db])
    (auto simp: create_op_log_def same_contentD table_rows_same_content log_of_def table_rows_def set_rows_def
      split: if_splits)

lemma count_master_Inr: "sql (count_master n) db = (Inr x, db') \<Longrightarrow> same_content db db'"
  by (cases rule: sql_cases [of "count_master n" db]) (auto simp: count_master_def)

lemma crsql_as_crr_Inr:
  "sql (crsql_as_crr t) db = (Inr x, db') \<Longrightarrow> tables db' = tables db \<and> snapshots db' = snapshots db"
  by (cases rule: sql_cases [of "crsql_as_crr t" db]) (auto simp: crsql_as_crr_def same_contentD)

lemma EnsureDataset_Inr:
  assumes "EnsureDataset a u d db = (Inr x, db')"
  shows "ensured a u d db db'"
proof -
  let ?t = "datasetTable a u d"
  obtain x1 db1 x2 db2 n db3
    where 1: "sql create_snapshots db = (Inr x1, db1)" and 2: "sql (create_op_log ?t) db1 = (Inr x2, db2)"
      and 3: "sql (count_master (?t @ ''__crsql_clock'')) db2 = (Inr n, db3)"
      and 4: "tables db' = tables db3 \<and> snapshots db' = snapshots db3"
    using assms by (auto simp: EnsureDataset_def Let_def bindP_eq_Inr dest!: crsql_as_crr_Inr split: if_splits)
  have "snapshots db' = Some (case snapshots db of None \<Rightarrow> [] | Some rs \<Rightarrow> rs)"
    using create_snapshots_Inr [OF 1] create_op_log_Inr [OF 2] same_contentD(3) [OF count_master_Inr [OF 3]] 4
    by simp
  moreover have "table_rows ?t db' = Some (log_of a u d db)"
    using create_snapshots_Inr [OF 1] create_op_log_Inr [OF 2] same_contentD(1) [OF count_master_Inr [OF 3]] 4
    by (simp add: table_rows_def log_of_def)
  moreover have "frame_other ?t db db'"
    using keepsD' [OF frame_inv.EnsureDataset_keeps assms] .
  ultimately show ?thesis by (simp add: ensured_def)
qed

lemma EnsureDataset_total:
  assumes "faults db = []"
  obtains db' where "EnsureDataset a u d db = (Inr (), db')" "faults db' = []"
proof -
  obtain r db' where E: "EnsureDataset a u d db = (r, db')" by (cases "EnsureDataset a u d db")
  then have f: "faults db' = []"
    using keepsD' [OF quiet_inv.EnsureDataset_keeps E] assms by (simp add: quiet_def)
  have "\<exists>s. EnsureDataset a u d db = (Inr (), s)"
    using assms
    by (auto simp: EnsureDataset_def Let_def create_snapshots_def create_op_log_def count_master_def
        crsql_as_crr_def bindP_def wrapP_def)
  then show thesis using that E f by auto
qed

section \<open>The pure effect of the two transactions\<close>

lemma row_op_ids_insert_ignore:
  "row_op_id ` set (snd (insert_ignore r rows)) = insert (row_op_id r) (row_op_id ` set rows)"
  by (auto simp: insert_ignore_def)

lemma row_op_ids_apply_insert:
  "row_op_id ` set (apply_ops insert_ignore ops rows) = row_op_id ` set rows \<union> OpID ` set ops"
  by (induction ops arbitrary: rows) (auto simp: row_op_ids_insert_ignore)

lemma apply_insert_known:
  "OpID ` set ops \<subseteq> row_op_id ` set rows \<Longrightarrow> apply_ops insert_ignore ops rows = rows"
  by (induction ops) (auto simp: insert_ignore_def)

lemma apply_insert_twice [simp]:
  "apply_ops insert_ignore ops (apply_ops insert_ignore ops rows) = apply_ops insert_ignore ops rows"
  by (rule apply_insert_known) (simp add: row_op_ids_apply_insert)

lemma apply_insert_keeps_rows: "set rows \<subseteq> set (apply_ops insert_ignore ops rows)"
  by (induction ops arbitrary: rows) (fastforce simp: insert_ignore_def)+

lemma apply_insert_rows:
  "set (apply_ops insert_ignore ops rows)
     \<subseteq> set rows \<union> (\<lambda>op. op_to_row (to_json (Value op)) op) ` set ops"
proof (induction ops arbitrary: rows)
  case (Cons op ops)
  let ?r = "op_to_row (to_json (Value op)) op"
  have "set (snd (insert_ignore ?r rows)) \<subseteq> insert ?r (set rows)"
    by (auto simp: insert_ignore_def)
  then show ?case using Cons.IH [of "snd (insert_ignore ?r rows)"] by auto
qed simp

text \<open>The first operation with a new id is stored as it was pushed.\<close>

lemma apply_insert_new:
  assumes "op \<in> set ops" "OpID op \<notin> row_op_id ` set rows" "inj_on OpID (set ops)"
  shows "op_to_row (to_json (Value op)) op \<in> set (apply_ops insert_ignore ops rows)"
  using assms
proof (induction ops arbitrary: rows)
  case (Cons x ops)
  show ?case
  proof (cases "op = x")
    case True
    then have "op_to_row (to_json (Value op)) op
        \<in> set (snd (insert_ignore (op_to_row (to_json (Value x)) x) rows))"
      using Cons.prems(2) by (simp add: insert_ignore_def)
    then show ?thesis using apply_insert_keeps_rows by force
  next
    case False
    then have "OpID op \<noteq> OpID x" using Cons.prems(1,3) by (meson inj_onD list.set_intros(1))
    then show ?thesis
      using False Cons.prems Cons.IH by (simp add: row_op_ids_insert_ignore)
  qed
qed simp

lemma log_ok_apply_insert: "log_ok rows \<Longrightarrow> log_ok (apply_ops insert_ignore ops rows)"
  by (induction ops arbitrary: rows) (simp_all add: log_ok_insert_ignore)

lemma apply_activate:
  assumes "OpID ` set ops \<subseteq> row_op_id ` set rows"
  shows "apply_ops insert_activate ops rows =
     map (\<lambda>r. if row_op_id r \<in> OpID ` set ops then r\<lparr>row_status := ''active''\<rparr> else r) rows"
  using assms
proof (induction ops arbitrary: rows)
  case (Cons op ops)
  let ?rows = "map (\<lambda>x. if row_op_id x = OpID op then x\<lparr>row_status := ''active''\<rparr> else x) rows"
  have ids: "row_op_id ` set ?rows = row_op_id ` set rows"
    using arg_cong [OF row_op_id_update, of set "\<lambda>x. row_op_id x = OpID op" "''active''" rows]
    by (simp only: set_map)
  have "apply_ops insert_activate (op # ops) rows = apply_ops insert_activate ops ?rows"
    using Cons.prems by (simp add: insert_activate_def)
  also have "\<dots> = map (\<lambda>r. if row_op_id r \<in> OpID ` set ops then r\<lparr>row_status := ''active''\<rparr> else r) ?rows"
    using Cons.prems ids by (intro Cons.IH) simp
  also have "\<dots> = map (\<lambda>r. if row_op_id r \<in> OpID ` set (op # ops) then r\<lparr>row_status := ''active''\<rparr> else r) rows"
    unfolding map_map
  proof (rule map_cong [OF refl])
    fix r
    show "((\<lambda>r. if row_op_id r \<in> OpID ` set ops then r\<lparr>row_status := ''active''\<rparr> else r)
        \<circ> (\<lambda>x. if row_op_id x = OpID op then x\<lparr>row_status := ''active''\<rparr> else x)) r
      = (if row_op_id r \<in> OpID ` set (op # ops) then r\<lparr>row_status := ''active''\<rparr> else r)"
      by (cases "row_op_id r = OpID op") simp_all
  qed
  finally show ?case .
qed (simp add: map_idI)

section \<open>The query\<close>

lemma row_to_op_sel [simp]:
  "OpID (row_to_op r) = row_op_id r" "DocID (row_to_op r) = row_doc_id r"
  "Field (row_to_op r) = row_field r" "Value (row_to_op r) = json_unmarshal (row_value r)"
  "OpDeviceID (row_to_op r) = row_device_id r"
  by (simp_all add: row_to_op_def)

definition row_stamp :: "op_row \<Rightarrow> hlc" where
  "row_stamp r = \<lparr>WallTime = row_ts_wall r, Logical = row_ts_logic r, DeviceID = row_device_id r\<rparr>"

lemma Timestamp_row_to_op [simp]: "Timestamp (row_to_op r) = row_stamp r"
  by (simp add: row_to_op_def row_stamp_def)

lemma row_to_op_comp [simp]: "OpID \<circ> row_to_op = row_op_id" "Timestamp \<circ> row_to_op = row_stamp"
  by (simp_all add: fun_eq_iff)

lemma row_stamp_sel [simp]:
  "WallTime (row_stamp r) = row_ts_wall r" "Logical (row_stamp r) = row_ts_logic r"
  "DeviceID (row_stamp r) = row_device_id r"
  by (simp_all add: row_stamp_def)

lemma row_stamp_update [simp]: "row_stamp (r\<lparr>row_status := s\<rparr>) = row_stamp r"
  by (simp add: row_stamp_def)

lemma row_to_op_update [simp]: "row_to_op (r\<lparr>row_status := s\<rparr>) = row_to_op r"
  by (simp add: row_to_op_def)

lemma row_order_le: "row_order r \<le> row_order r' \<longleftrightarrow> row_stamp r \<le> row_stamp r'"
  by (auto simp: row_order_def row_stamp_def less_eq_hlc_ext_def hlc_key_def)

lemma hlc_time_row_stamp [simp]: "hlc_time (row_stamp r) = row_time r"
  by (simp add: hlc_time_def row_time_def)

text \<open>The two forms of the \<open>WHERE\<close> clause in terms of the stamp order.\<close>

lemma after_cursor_iff:
  "after_cursor since r \<longleftrightarrow>
     row_status r = ''active''
     \<and> (if DeviceID since \<noteq> [] then since < row_stamp r else hlc_time since < row_time r)"
  by (auto simp: after_cursor_def hlc_less_iff hlc_time_def row_time_def sint_eq_iff)

lemma after_cursor_less: "after_cursor since r \<Longrightarrow> since < row_stamp r"
  by (auto simp: after_cursor_iff intro: hlc_time_less_imp split: if_splits)

lemma after_cursor_time: "row_status r = ''active'' \<Longrightarrow> hlc_time since < row_time r \<Longrightarrow> after_cursor since r"
  by (auto simp: after_cursor_iff intro: hlc_time_less_imp)

lemma set_select_ops [simp]: "set (select_ops since rows) = {r \<in> set rows. after_cursor since r}"
  by (auto simp: select_ops_def)

lemma mset_select_ops: "mset (select_ops since rows) = mset (filter (after_cursor since) rows)"
  by (simp add: select_ops_def)

lemma sorted_select_ops: "sorted (map row_stamp (select_ops since rows))"
proof -
  have "sorted (map row_order (select_ops since rows))"
    by (simp add: select_ops_def)
  then show ?thesis by (simp add: sorted_map row_order_le)
qed

lemma distinct_select_ops: "log_ok rows \<Longrightarrow> distinct (map row_op_id (select_ops since rows))"
proof -
  assume "log_ok rows"
  then have "distinct (map row_op_id (filter (after_cursor since) rows))"
    by (simp add: log_ok_def distinct_map_filter)
  moreover have "mset (map row_op_id (select_ops since rows))
      = mset (map row_op_id (filter (after_cursor since) rows))"
    by (simp add: select_ops_def)
  ultimately show ?thesis by (metis mset_eq_imp_distinct_iff)
qed

section \<open>Table names tell datasets apart, up to a point\<close>

text \<open>Ids of lower-case letters and digits only.\<close>

definition plain_char :: "char \<Rightarrow> bool" where
  "plain_char c \<longleftrightarrow> CHR ''a'' \<le> c \<and> c \<le> CHR ''z'' \<or> CHR ''0'' \<le> c \<and> c \<le> CHR ''9''"

definition plain_id :: "string \<Rightarrow> bool" where
  "plain_id s \<longleftrightarrow> (\<forall>c \<in> set s. plain_char c)"

lemma plain_lower: "plain_char c \<Longrightarrow> ascii_lower c = c"
  by (auto simp: plain_char_def ascii_lower_def less_eq_char_def Let_def)

lemma plain_not_underscore: "plain_char c \<Longrightarrow> c \<noteq> CHR ''_''"
  by (auto simp: plain_char_def less_eq_char_def)

lemma plain_sanitize: "plain_id s \<Longrightarrow> sanitize s = s"
  unfolding sanitize_def by (rule map_idI) (auto simp: plain_id_def plain_char_def name_char_def)

lemma plain_table_key:
  assumes "plain_id a" "plain_id u" "plain_id d"
  shows "table_key (datasetTable a u d) = ''op_log_'' @ a @ ''_'' @ u @ ''_'' @ d"
proof -
  have "map ascii_lower s = s" if "plain_id s" for s
    using that by (intro map_idI) (auto simp: plain_id_def plain_lower)
  moreover have "map ascii_lower ''op_log_'' = ''op_log_''" "map ascii_lower ''_'' = ''_''"
    by (simp_all add: ascii_lower_def Let_def)
  ultimately show ?thesis
    using assms by (simp only: datasetTable_def plain_sanitize table_key_def map_append)
qed

lemma plain_id_no_underscore: "plain_id s \<Longrightarrow> CHR ''_'' \<notin> set s"
  by (auto simp: plain_id_def dest: plain_not_underscore)

section \<open>Properties\<close>


definition example_db :: database where
  "example_db = set_rows (datasetTable ''app1'' ''user1'' ''ds1'') [] (empty_db\<lparr>snapshots := Some []\<rparr>)"

definition nan_op :: crdt_op where
  "nan_op =
     \<lparr>OpID = ''op2'', DocID = ''doc1'', Field = ''x'', Value = GFloat NaN,
      Timestamp = \<lparr>WallTime = 5, Logical = 0, DeviceID = ''dev1''\<rparr>, OpDeviceID = ''dev1''\<rparr>"

definition good_op :: crdt_op where
  "good_op = nan_op\<lparr>OpID := ''op1'', Value := GString ''v''\<rparr>"


text \<open>
  Datasets whose ids consist of lower-case letters and digits have different tables
  unless all three ids agree.
\<close>

theorem datasetTable_injective:
  assumes "plain_id a" "plain_id u" "plain_id d" "plain_id a'" "plain_id u'" "plain_id d'"
    and "table_key (datasetTable a u d) = table_key (datasetTable a' u' d')"
  shows "a = a' \<and> u = u' \<and> d = d'"
proof -
  have "a @ CHR ''_'' # (u @ CHR ''_'' # d) = a' @ CHR ''_'' # (u' @ CHR ''_'' # d')"
    using assms by (simp add: plain_table_key)
  then have "a = a' \<and> u @ CHR ''_'' # d = u' @ CHR ''_'' # d'"
    using assms by (metis option.inject plain_id_no_underscore prod.inject split_at_first)
  moreover have "u = u' \<and> d = d'" if "u @ CHR ''_'' # d = u' @ CHR ''_'' # d'"
    using that assms by (metis option.inject plain_id_no_underscore prod.inject split_at_first)
  ultimately show ?thesis by blast
qed

theorem datasetTable_injective_witness:
  "table_key (datasetTable ''app1'' ''user1'' ''ds1'') \<noteq> table_key (datasetTable ''app1'' ''user2'' ''ds1'')"
proof
  assume k: "table_key (datasetTable ''app1'' ''user1'' ''ds1'') = table_key (datasetTable ''app1'' ''user2'' ''ds1'')"
  have "plain_id ''app1''" "plain_id ''user1''" "plain_id ''ds1''" "plain_id ''user2''"
    by (simp_all add: plain_id_def plain_char_def less_eq_char_def)
  from datasetTable_injective [OF this(1,2,3,1,4,3) k] show False by simp
qed

text \<open>
  Outside such ids the name does not tell tenants apart: the data of user \<open>u_v\<close> of app
  \<open>a\<close> and of user \<open>v\<close> of app \<open>a_u\<close> share one table, for every \<open>a\<close>, \<open>u\<close> and \<open>v\<close>, and so do ids
  that differ in punctuation or in the case of a letter.
\<close>

theorem datasetTable_collisions:
  "datasetTable a (u @ ''_'' @ v) d = datasetTable (a @ ''_'' @ u) v d
   \<and> datasetTable ''my-app'' u d = datasetTable ''my.app'' u d
   \<and> table_key (datasetTable ''App'' u d) = table_key (datasetTable ''app'' u d)"
  by (simp add: datasetTable_def sanitize_def name_char_def less_eq_char_def table_key_def
      ascii_lower_def Let_def char_of_def bit_0)

end
