(* ===== verification/Meta_Store.thy ===== *)
theory Meta_Store
  imports Sqlite
begin

text \<open>
  \<open>storage/crsqlite/meta.go\<close>, \<open>metadb.go\<close> and \<open>open.go\<close>: the metadata tables, the schema
  version of a dataset, and opening a database through the once-registered driver.
\<close>

section \<open>Metadata tables\<close>

text \<open>Every statement of the script is \<open>CREATE \<dots> IF NOT EXISTS\<close>.\<close>

definition create_meta :: "unit dbprog" where
  "create_meta db =
     (Inr (), if has_meta db then db
              else db\<lparr>has_meta := True, device_keys := [], datasets := [], sync_events := [],
                     next_event_id := 1,
                     master := master db \<union> {''device_keys'', ''datasets'', ''refresh_tokens'', ''sync_events''}\<rparr>)"

definition ApplyMetaDDL :: "unit dbprog" where
  "ApplyMetaDDL = sql create_meta"

definition EnsureMeta :: "unit dbprog" where
  "EnsureMeta = ApplyMetaDDL"

section \<open>Schema versions\<close>

definition is_dataset :: "string \<Rightarrow> string \<Rightarrow> dataset_row \<Rightarrow> bool" where
  "is_dataset appID datasetID r \<longleftrightarrow> ds_app_id r = appID \<and> ds_dataset_id r = datasetID"

text \<open>\<open>QueryRow \<dots> Scan\<close>: no row is the error \<open>sql.ErrNoRows\<close>.\<close>

definition select_version :: "string \<Rightarrow> string \<Rightarrow> int dbprog" where
  "select_version appID datasetID db =
     (case find (is_dataset appID datasetID) (datasets db) of
        None \<Rightarrow> (Inl ErrNoRows, db)
      | Some r \<Rightarrow> (Inr (ds_schema_version r), db))"

definition GetSchemaVersion :: "string \<Rightarrow> string \<Rightarrow> int dbprog" where
  "GetSchemaVersion appID datasetID db =
     (case sql (on_meta (select_version appID datasetID)) db of
        (Inl e, db') \<Rightarrow>
          if e = ErrNoRows then (Inr 1, db')
          else (Inl (Wrap ''get schema version'' e), db')
      | (Inr version, db') \<Rightarrow> (Inr version, db'))"

definition upsert_version :: "string \<Rightarrow> string \<Rightarrow> int \<Rightarrow> unit dbprog" where
  "upsert_version appID datasetID version db =
     (Inr (), db\<lparr>datasets :=
        (if \<exists>r \<in> set (datasets db). is_dataset appID datasetID r
         then map (\<lambda>r. if is_dataset appID datasetID r then r\<lparr>ds_schema_version := version\<rparr> else r) (datasets db)
         else datasets db @ [\<lparr>ds_app_id = appID, ds_dataset_id = datasetID, ds_acl = ACLPrivate,
                              ds_schema_version = version\<rparr>])\<rparr>)"

definition SetSchemaVersion :: "string \<Rightarrow> string \<Rightarrow> int \<Rightarrow> unit dbprog" where
  "SetSchemaVersion appID datasetID version =
     wrapP (Wrap ''set schema version'') (sql (on_meta (upsert_version appID datasetID version)))"

section \<open>Opening a database\<close>

text \<open>
  The package variable \<open>driverPath\<close>, and registering the driver for one extension path.
\<close>

definition ensureDriver :: "string \<Rightarrow> (string, err, unit) prog" where
  "ensureDriver extPath driverPath =
     (if driverPath = extPath then (Inr (), driverPath)
      else if driverPath \<noteq> []
        then (Inl (ErrMsg ''cr-sqlite driver already registered''), driverPath)
      else (Inr (), extPath))"

text \<open>
  \<open>Open\<close> returns a handle on the file; \<open>can_open\<close> and \<open>can_ping\<close> are the driver's answers.
  The handle is the database of the model.
\<close>

definition Open :: "bool \<Rightarrow> bool \<Rightarrow> string \<Rightarrow> (string, err, unit) prog" where
  "Open can_open can_ping extPath =
     bindP (ensureDriver extPath) (\<lambda>_.
     if \<not> can_open then failP (Wrap ''open db'' ErrDriver)
     else if \<not> can_ping then failP (Wrap ''ping'' ErrDriver)
     else retP ())"

text \<open>\<open>NewBackend\<close> and \<open>OpenMeta\<close>: open, then create the metadata tables.\<close>

definition NewBackend :: "bool \<Rightarrow> bool \<Rightarrow> string \<Rightarrow> (string \<times> database, err, unit) prog" where
  "NewBackend can_open can_ping extPath s =
     (case Open can_open can_ping extPath (fst s) of
        (Inl e, p) \<Rightarrow> (Inl (Wrap ''new backend'' e), (p, snd s))
      | (Inr _, p) \<Rightarrow>
          (case EnsureMeta (snd s) of
             (Inl e, db) \<Rightarrow> (Inl (Wrap ''ensure meta'' e), (p, db))
           | (Inr _, db) \<Rightarrow> (Inr (), (p, db))))"

definition OpenMeta :: "bool \<Rightarrow> bool \<Rightarrow> string \<Rightarrow> (string \<times> database, err, unit) prog" where
  "OpenMeta can_open can_ping extPath s =
     (case Open can_open can_ping extPath (fst s) of
        (Inl e, p) \<Rightarrow> (Inl (Wrap ''open meta db'' e), (p, snd s))
      | (Inr _, p) \<Rightarrow>
          (case EnsureMeta (snd s) of
             (Inl e, db) \<Rightarrow> (Inl (Wrap ''ensure meta schema'' e), (p, db))
           | (Inr _, db) \<Rightarrow> (Inr (), (p, db))))"

section \<open>Facts\<close>

lemma find_dataset_update:
  "find (is_dataset a d) (map (\<lambda>r. if is_dataset a d r then r\<lparr>ds_schema_version := v\<rparr> else r) rs)
     = map_option (\<lambda>r. r\<lparr>ds_schema_version := v\<rparr>) (find (is_dataset a d) rs)"
  by (induction rs) (auto simp: is_dataset_def)

lemma find_dataset_update_other:
  "(a', d') \<noteq> (a, d) \<Longrightarrow>
     find (is_dataset a' d') (map (\<lambda>r. if is_dataset a d r then r\<lparr>ds_schema_version := v\<rparr> else r) rs)
       = find (is_dataset a' d') rs"
  by (induction rs) (auto simp: is_dataset_def)

lemma find_append: "find P (xs @ ys) = (case find P xs of None \<Rightarrow> find P ys | Some x \<Rightarrow> Some x)"
  by (induction xs) auto

definition version_of :: "string \<Rightarrow> string \<Rightarrow> database \<Rightarrow> int" where
  "version_of a d db =
     (case find (is_dataset a d) (datasets db) of None \<Rightarrow> 1 | Some r \<Rightarrow> ds_schema_version r)"

lemma GetSchemaVersion_Inr:
  assumes "GetSchemaVersion a d db = (Inr v, db')"
  shows "v = version_of a d db \<and> has_meta db \<and> same_content db db'"
  using assms
  by (cases rule: sql_cases [of "on_meta (select_version a d)" db])
    (auto simp: GetSchemaVersion_def on_meta_def select_version_def version_of_def same_contentD
      split: option.splits if_splits)

lemma GetSchemaVersion_content: "GetSchemaVersion a d db = (r, db') \<Longrightarrow> same_content db db'"
  by (cases rule: sql_cases [of "on_meta (select_version a d)" db])
    (auto simp: GetSchemaVersion_def on_meta_def select_version_def split: option.splits if_splits)

lemma GetSchemaVersion_total:
  "faults db = [] \<Longrightarrow> has_meta db \<Longrightarrow> GetSchemaVersion a d db = (Inr (version_of a d db), db)"
  by (auto simp: GetSchemaVersion_def on_meta_def select_version_def version_of_def split: option.split)

lemma version_of_upsert:
  "version_of a' d' (snd (upsert_version a d v db)) = (if (a', d') = (a, d) then v else version_of a' d' db)"
proof (cases "\<exists>r \<in> set (datasets db). is_dataset a d r")
  case True
  then have "find (is_dataset a d) (datasets db) \<noteq> None" by (auto simp: find_None_iff)
  with True show ?thesis
    by (auto simp: upsert_version_def version_of_def find_dataset_update find_dataset_update_other)
next
  case False
  then have "find (is_dataset a d) (datasets db) = None" by (auto simp: find_None_iff)
  with False show ?thesis
    by (auto simp: upsert_version_def version_of_def find_append is_dataset_def split: option.split)
qed

section \<open>Properties\<close>

text \<open>
  A version that was set is the one read back for that dataset and no other dataset's
  version changes; a dataset never recorded has version 1.
\<close>

theorem SetSchemaVersion_Get:
  assumes "SetSchemaVersion a d v db = (Inr (), db')" "GetSchemaVersion a' d' db' = (Inr v', db'')"
  shows "v' = (if (a', d') = (a, d) then v else version_of a' d' db)"
proof -
  obtain db1 where 1: "same_content db db1" "on_meta (upsert_version a d v) db1 = (Inr (), db')"
    using assms(1) unfolding SetSchemaVersion_def wrapP_eq_Inr by (rule sql_Inr)
  then have "db' = snd (upsert_version a d v db1)"
    by (auto simp: on_meta_def split: if_splits)
  moreover have "version_of a' d' db1 = version_of a' d' db"
    using 1(1) by (simp add: version_of_def same_contentD)
  ultimately show ?thesis
    using GetSchemaVersion_Inr [OF assms(2)] by (simp add: version_of_upsert)
qed

theorem SetSchemaVersion_Get_witness:
  "let db = snd (create_meta empty_db); db' = snd (SetSchemaVersion ''app1'' ''ds1'' 3 db)
   in fst (GetSchemaVersion ''app1'' ''ds1'' db') = Inr 3 \<and> fst (GetSchemaVersion ''app1'' ''ds2'' db') = Inr 1"
proof -
  let ?db = "snd (create_meta empty_db)"
  obtain db' where s: "SetSchemaVersion ''app1'' ''ds1'' 3 ?db = (Inr (), db')"
    by (simp add: SetSchemaVersion_def wrapP_def on_meta_def create_meta_def empty_db_def upsert_version_def)
  have f: "faults db' = []" "has_meta db'"
    using s by (auto simp: SetSchemaVersion_def wrapP_def on_meta_def create_meta_def empty_db_def upsert_version_def)
  have g: "GetSchemaVersion ''app1'' d db' = (Inr (version_of ''app1'' d db'), db')" for d
    using f by (rule GetSchemaVersion_total)
  have "version_of ''app1'' d db' = (if (''app1'', d) = (''app1'', ''ds1'') then 3 else version_of ''app1'' d ?db)" for d
    using SetSchemaVersion_Get [OF s g [of d]] .
  moreover have "version_of ''app1'' ''ds2'' ?db = 1"
    by (simp add: version_of_def create_meta_def empty_db_def)
  ultimately show ?thesis using s g by simp
qed

end
