(* ===== verification/Lww.thy ===== *)
theory Lww
  imports Prelude
begin

text \<open>
  The last-writer-wins register, over any type of operations with a stamp.  \<open>pick\<close> is the
  test all three merge loops of the program share: take the operation when there is none
  yet, or when the current one is strictly before it.  \<open>winner\<close> folds it over a log.  The
  locale \<open>lww_register\<close> holds what the loops need of the stamp order; its lemmas are
  proved once and used for \<open>crdt.Merge\<close>, \<open>mergeOpsLocal\<close> and \<open>Compact\<close>.
\<close>

definition pick :: "('t \<Rightarrow> 't \<Rightarrow> bool) \<Rightarrow> ('o \<Rightarrow> 't) \<Rightarrow> 'o option \<Rightarrow> 'o \<Rightarrow> 'o option" where
  "pick before ts cur op =
     (case cur of
        None \<Rightarrow> Some op
      | Some c \<Rightarrow> if before (ts c) (ts op) then Some op else Some c)"

definition winner :: "('t \<Rightarrow> 't \<Rightarrow> bool) \<Rightarrow> ('o \<Rightarrow> 't) \<Rightarrow> 'o list \<Rightarrow> 'o option" where
  "winner before ts ops = foldl (pick before ts) None ops"

lemma winner_Nil [simp]: "winner before ts [] = None"
  by (simp add: winner_def)

lemma winner_snoc [simp]: "winner before ts (ops @ [op]) = pick before ts (winner before ts ops) op"
  by (simp add: winner_def)

lemma winner_single [simp]: "winner before ts [op] = Some op"
  by (simp add: winner_def pick_def)

lemma winner_eq_None [simp]: "winner before ts ops = None \<longleftrightarrow> ops = []"
  by (induction ops rule: rev_induct) (auto simp: pick_def split: option.splits)

lemma winner_in: "winner before ts ops = Some w \<Longrightarrow> w \<in> set ops"
  by (induction ops arbitrary: w rule: rev_induct) (auto simp: pick_def split: option.splits if_splits)

text \<open>No two operations of a log carry the same stamp.\<close>

definition stamps_unique :: "('o \<Rightarrow> 't) \<Rightarrow> 'o set \<Rightarrow> bool" where
  "stamps_unique ts S \<longleftrightarrow> inj_on ts S"

locale lww_register =
  fixes before :: "'t \<Rightarrow> 't \<Rightarrow> bool"
    and ts :: "'o \<Rightarrow> 't"
  assumes irrefl: "\<not> before a a"
    and trans: "before a b \<Longrightarrow> before b c \<Longrightarrow> before a c"
    and total: "\<not> before a b \<Longrightarrow> \<not> before b a \<Longrightarrow> a = b"
begin

lemma not_before_trans:
  "\<not> before b a \<Longrightarrow> \<not> before c b \<Longrightarrow> \<not> before c a"
  by (metis total trans)

lemma winner_max:
  "winner before ts ops = Some w \<Longrightarrow> op \<in> set ops \<Longrightarrow> \<not> before (ts w) (ts op)"
proof (induction ops arbitrary: w rule: rev_induct)
  case (snoc x ops)
  show ?case
  proof (cases "winner before ts ops")
    case None
    then show ?thesis using snoc.prems irrefl by (auto simp: pick_def)
  next
    case (Some c)
    show ?thesis
    proof (cases "before (ts c) (ts x)")
      case True
      then have w: "w = x" using snoc.prems(1) Some by (simp add: pick_def)
      show ?thesis
      proof (cases "op = x")
        case False
        then have "\<not> before (ts c) (ts op)" using snoc.IH [OF Some] snoc.prems(2) by simp
        then show ?thesis using True w trans by blast
      qed (simp add: w irrefl)
    next
      case False
      then have "w = c" using snoc.prems(1) Some by (simp add: pick_def)
      then show ?thesis using False snoc.IH [OF Some] snoc.prems(2) by auto
    qed
  qed
qed simp

lemma winner_eqI:
  assumes "stamps_unique ts (set ops)" "w \<in> set ops"
    and max: "\<And>op. op \<in> set ops \<Longrightarrow> \<not> before (ts w) (ts op)"
  shows "winner before ts ops = Some w"
proof -
  have "ops \<noteq> []" using assms(2) by auto
  then obtain v where v: "winner before ts ops = Some v" by fastforce
  have "\<not> before (ts v) (ts w)" using winner_max [OF v assms(2)] .
  moreover have "\<not> before (ts w) (ts v)" using max winner_in [OF v] by blast
  ultimately have "ts v = ts w" by (rule total)
  then have "v = w"
    using assms(1,2) winner_in [OF v] by (auto simp: stamps_unique_def dest: inj_onD)
  with v show ?thesis by simp
qed

text \<open>Order and repetition of the operations do not matter when stamps are unique.\<close>

lemma winner_cong_set:
  assumes "set ops = set ops'" "stamps_unique ts (set ops)"
  shows "winner before ts ops = winner before ts ops'"
proof (cases "winner before ts ops")
  case None
  then show ?thesis using assms(1) by simp
next
  case (Some w)
  have "winner before ts ops' = Some w"
    using assms winner_in [OF Some] winner_max [OF Some] by (intro winner_eqI) auto
  with Some show ?thesis by simp
qed

text \<open>Merging two batches: the winner of the winners.\<close>

lemma winner_append:
  "winner before ts (xs @ ys) =
     (case winner before ts ys of None \<Rightarrow> winner before ts xs
      | Some b \<Rightarrow> pick before ts (winner before ts xs) b)"
proof (induction ys rule: rev_induct)
  case (snoc y ys)
  have IH: "winner before ts (xs @ ys @ [y]) = pick before ts (winner before ts (xs @ ys)) y"
    using winner_snoc [of before ts "xs @ ys" y] by simp
  have "pick before ts (pick before ts a b) y = pick before ts a z"
    if "pick before ts (Some b) y = Some z" for a b z
    using that trans [of "ts (the a)" "ts b" "ts y"] not_before_trans [of "ts b" "ts y" "ts (the a)"]
    by (cases a) (auto simp: pick_def split: if_splits)
  moreover have "\<exists>z. pick before ts (Some b) y = Some z" for b
    by (simp add: pick_def)
  ultimately show ?case
    unfolding IH snoc.IH
    by (cases "winner before ts ys") (fastforce simp: pick_def)+
qed simp

lemma winner_subset:
  assumes "winner before ts ops = Some w" "w \<in> set ops'" "set ops' \<subseteq> set ops"
    "stamps_unique ts (set ops)"
  shows "winner before ts ops' = Some w"
  using assms winner_max [OF assms(1)]
  by (intro winner_eqI) (auto simp: stamps_unique_def intro: inj_on_subset)

text \<open>A part of a log in which something is at least as late as every operation of the log.\<close>

lemma winner_dominated:
  assumes "set xs \<subseteq> set ys" "stamps_unique ts (set ys)"
    and dom: "\<And>y. y \<in> set ys \<Longrightarrow> \<exists>x \<in> set xs. \<not> before (ts x) (ts y)"
  shows "winner before ts xs = winner before ts ys"
proof (cases "winner before ts ys")
  case None
  then show ?thesis using assms(1) by simp
next
  case (Some w)
  have "w \<in> set ys" using Some by (rule winner_in)
  then obtain x where x: "x \<in> set xs" "\<not> before (ts x) (ts w)"
    using dom [of w] by blast
  then have "x \<in> set ys" using assms(1) by blast
  then have "ts x = ts w" using winner_max [OF Some] x(2) by (intro total)
  then have "x = w"
    using assms(2) \<open>x \<in> set ys\<close> \<open>w \<in> set ys\<close> by (auto simp: stamps_unique_def dest: inj_onD)
  then have "winner before ts xs = Some w"
    using winner_subset [OF Some _ assms(1,2)] x(1) by simp
  then show ?thesis using Some by simp
qed

end

end
