(* ===== verification/Merge.thy ===== *)
theory Merge
  imports Hlc Lww
begin

text \<open>
  \<open>core/crdt/merge.go\<close>: last-writer-wins over a list of operations, into a map from
  document to field to value.  The loop of \<open>Merge\<close> is \<open>wins_step\<close> folded over the list;
  it is shared with the copy of the function in the storage package (\<open>mergeOpsLocal\<close>),
  with the order test as an argument.
\<close>

type_synonym 'v docs = "(string, (string, 'v) gomap) gomap"

text \<open>Reading a missing inner map gives Go's nil map, which reads as empty.\<close>

definition gm_at :: "'v docs \<Rightarrow> string \<Rightarrow> (string, 'v) gomap" where
  "gm_at m d = (case gm_get m d of None \<Rightarrow> [] | Some fm \<Rightarrow> fm)"

definition lookup2 :: "'v docs \<Rightarrow> string \<Rightarrow> string \<Rightarrow> 'v option" where
  "lookup2 m d f = gm_get (gm_at m d) f"

definition wins_step :: "(hlc \<Rightarrow> hlc \<Rightarrow> bool) \<Rightarrow> crdt_op docs \<Rightarrow> crdt_op \<Rightarrow> crdt_op docs" where
  "wins_step before wins op =
     (let wins1 = (if gm_get wins (DocID op) = None then gm_put (DocID op) [] wins else wins);
          fields = gm_at wins1 (DocID op)
      in case gm_get fields (Field op) of
           None \<Rightarrow> gm_put (DocID op) (gm_put (Field op) op fields) wins1
         | Some cur \<Rightarrow>
             if before (Timestamp cur) (Timestamp op)
             then gm_put (DocID op) (gm_put (Field op) op fields) wins1
             else wins1)"

text \<open>The second loop: the value of each winner.  No order of visiting shows in the result.\<close>

definition wins_values :: "crdt_op docs \<Rightarrow> goval docs" where
  "wins_values wins = map (\<lambda>(docID, fields). (docID, map (\<lambda>(field, w). (field, Value w)) fields)) wins"

definition Merge :: "crdt_op list \<Rightarrow> goval docs" where
  "Merge ops = wins_values (foldl (wins_step Before) [] ops)"

section \<open>The loop computes the winner of every field\<close>

text \<open>The operations of a log on one field of one document, in log order.\<close>

definition ops_on :: "string \<Rightarrow> string \<Rightarrow> crdt_op list \<Rightarrow> crdt_op list" where
  "ops_on d f ops = filter (\<lambda>op. DocID op = d \<and> Field op = f) ops"

lemma ops_on_snoc: "ops_on d f (ops @ [op]) =
    (if DocID op = d \<and> Field op = f then ops_on d f ops @ [op] else ops_on d f ops)"
  by (simp add: ops_on_def)

lemma ops_on_append: "ops_on d f (xs @ ys) = ops_on d f xs @ ops_on d f ys"
  by (simp add: ops_on_def)

lemma set_ops_on [simp]: "set (ops_on d f ops) = {op \<in> set ops. DocID op = d \<and> Field op = f}"
  by (auto simp: ops_on_def)

lemma ops_on_Nil_iff: "ops_on d f ops = [] \<longleftrightarrow> (\<forall>op \<in> set ops. DocID op = d \<longrightarrow> Field op \<noteq> f)"
  by (auto simp: ops_on_def filter_empty_conv)

lemma gm_at_put: "gm_at (gm_put d fm m) d' = (if d' = d then fm else gm_at m d')"
  by (simp add: gm_at_def)

lemma gm_at_ensure:
  "gm_at (if gm_get m d = None then gm_put d [] m else m) d' = gm_at m d'"
  by (simp add: gm_at_def)

lemma lookup2_wins_step:
  "lookup2 (wins_step before wins op) d f =
     (if DocID op = d \<and> Field op = f
      then pick before Timestamp (lookup2 wins d f) op
      else lookup2 wins d f)"
proof -
  define w1 where "w1 = (if gm_get wins (DocID op) = None then gm_put (DocID op) [] wins else wins)"
  have at: "gm_at w1 d' = gm_at wins d'" for d'
    unfolding w1_def by (rule gm_at_ensure)
  have "wins_step before wins op =
      (case lookup2 wins (DocID op) (Field op) of
         None \<Rightarrow> gm_put (DocID op) (gm_put (Field op) op (gm_at wins (DocID op))) w1
       | Some cur \<Rightarrow> if before (Timestamp cur) (Timestamp op)
           then gm_put (DocID op) (gm_put (Field op) op (gm_at wins (DocID op))) w1 else w1)"
    by (simp only: wins_step_def w1_def [symmetric] Let_def at lookup2_def)
  then show ?thesis
    by (cases "lookup2 wins (DocID op) (Field op)") (auto simp: lookup2_def gm_at_put at pick_def)
qed

lemma lookup2_wins: "lookup2 (foldl (wins_step before) [] ops) d f =
    winner before Timestamp (ops_on d f ops)"
proof (induction ops rule: rev_induct)
  case Nil
  show ?case by (simp add: lookup2_def gm_at_def ops_on_def)
qed (simp add: lookup2_wins_step ops_on_snoc)

text \<open>Every map the loop builds has one entry per key.\<close>

definition docs_ok :: "'v docs \<Rightarrow> bool" where
  "docs_ok m \<longleftrightarrow> gm_ok m \<and> (\<forall>fm \<in> snd ` set m. gm_ok fm)"

lemma docs_ok_Nil [simp]: "docs_ok []"
  by (simp add: docs_ok_def)

lemma docs_ok_gm_at [intro]: "docs_ok m \<Longrightarrow> gm_ok (gm_at m d)"
  by (auto simp: docs_ok_def gm_at_def split: option.splits dest: map_of_SomeD)

lemma docs_ok_put: "docs_ok m \<Longrightarrow> gm_ok fm \<Longrightarrow> docs_ok (gm_put d fm m)"
  unfolding docs_ok_def using set_gm_put [of d fm m] by fastforce

lemma docs_ok_wins_step: "docs_ok wins \<Longrightarrow> docs_ok (wins_step before wins op)"
  by (auto simp: wins_step_def Let_def docs_ok_put split: option.splits intro!: docs_ok_put docs_ok_gm_at)

lemma docs_ok_wins: "docs_ok (foldl (wins_step before) [] ops)"
  by (induction ops rule: rev_induct) (simp_all add: docs_ok_wins_step)

lemma gm_get_map_values: "gm_get (map (\<lambda>(k, w). (k, g w)) m) k = map_option g (gm_get m k)"
  by (induction m) auto

lemma lookup2_wins_values: "lookup2 (wins_values wins) d f = map_option Value (lookup2 wins d f)"
proof -
  have "gm_get (wins_values wins) d = map_option (map (\<lambda>(field, w). (field, Value w))) (gm_get wins d)"
    unfolding wins_values_def by (rule gm_get_map_values)
  then show ?thesis
    by (cases "gm_get wins d") (simp_all add: lookup2_def gm_at_def gm_get_map_values)
qed

lemma lookup2_Merge:
  "lookup2 (Merge ops) d f = map_option Value (winner Before Timestamp (ops_on d f ops))"
  by (simp add: Merge_def lookup2_wins_values lookup2_wins)

section \<open>Before is an order the register can use\<close>

interpretation lww_Before: lww_register Before Timestamp
  by unfold_locales (auto simp: Before_iff_less)

section \<open>Properties\<close>

text \<open>No two operations on the same field of the same document carry the same stamp.\<close>

definition field_stamps_unique :: "crdt_op set \<Rightarrow> bool" where
  "field_stamps_unique S \<longleftrightarrow>
     (\<forall>a \<in> S. \<forall>b \<in> S. DocID a = DocID b \<longrightarrow> Field a = Field b \<longrightarrow> Timestamp a = Timestamp b \<longrightarrow> a = b)"

lemma field_stamps_unique_on: "field_stamps_unique (set ops) \<Longrightarrow> stamps_unique Timestamp (set (ops_on d f ops))"
  by (auto simp: field_stamps_unique_def stamps_unique_def inj_on_def)

lemma field_stamps_unique_subset: "field_stamps_unique S \<Longrightarrow> T \<subseteq> S \<Longrightarrow> field_stamps_unique T"
  by (auto simp: field_stamps_unique_def)

text \<open>
  C19: \<open>Merge\<close> is last-writer-wins: each field some operation writes holds the value of an
  operation on it that no other operation on it comes after.
\<close>

theorem Merge_last_writer_wins:
  assumes "op \<in> set ops"
  shows "\<exists>w \<in> set ops. DocID w = DocID op \<and> Field w = Field op
    \<and> lookup2 (Merge ops) (DocID op) (Field op) = Some (Value w)
    \<and> (\<forall>x \<in> set ops. DocID x = DocID op \<longrightarrow> Field x = Field op \<longrightarrow> \<not> Before (Timestamp w) (Timestamp x))"
proof -
  let ?on = "ops_on (DocID op) (Field op) ops"
  have "?on \<noteq> []" using assms by (auto simp: ops_on_Nil_iff)
  then have "winner Before Timestamp ?on \<noteq> None" by simp
  then obtain w where w: "winner Before Timestamp ?on = Some w" by blast
  show ?thesis
    using winner_in [OF w] lww_Before.winner_max [OF w] w by (intro bexI [of _ w]) (auto simp: lookup2_Merge)
qed

definition example_op :: "string \<Rightarrow> string \<Rightarrow> int \<Rightarrow> crdt_op" where
  "example_op oid v t =
     \<lparr>OpID = oid, DocID = ''doc1'', Field = ''name'', Value = GString v,
      Timestamp = \<lparr>WallTime = word_of_int t, Logical = 0, DeviceID = ''dev1''\<rparr>, OpDeviceID = ''dev1''\<rparr>"

lemma example_op_sel [simp]:
  "DocID (example_op i v t) = ''doc1''" "Field (example_op i v t) = ''name''"
  "Value (example_op i v t) = GString v" "OpID (example_op i v t) = i"
  "OpDeviceID (example_op i v t) = ''dev1''"
  "Timestamp (example_op i v t) = \<lparr>WallTime = word_of_int t, Logical = 0, DeviceID = ''dev1''\<rparr>"
  by (simp_all add: example_op_def)

theorem Merge_last_writer_wins_witness:
  "\<exists>w \<in> {example_op ''1'' ''Alice'' 100, example_op ''2'' ''Bob'' 200}.
     lookup2 (Merge [example_op ''1'' ''Alice'' 100, example_op ''2'' ''Bob'' 200]) ''doc1'' ''name'' = Some (Value w)"
proof -
  let ?a = "example_op ''1'' ''Alice'' 100" and ?b = "example_op ''2'' ''Bob'' 200"
  have "?a \<in> set [?a, ?b]" by simp
  from Merge_last_writer_wins [OF this] show ?thesis by auto
qed

text \<open>
  C8: Two lists with the same operations, in any order and with any repetitions, merge to
  the same map when stamps are unique per field: the merge is commutative and idempotent,
  and replicas that have seen the same operations agree.
\<close>

theorem Merge_convergence:
  assumes "set ops = set ops'" "field_stamps_unique (set ops)"
  shows "lookup2 (Merge ops) d f = lookup2 (Merge ops') d f"
proof -
  have "winner Before Timestamp (ops_on d f ops) = winner Before Timestamp (ops_on d f ops')"
    using assms by (intro lww_Before.winner_cong_set field_stamps_unique_on) auto
  then show ?thesis by (simp add: lookup2_Merge)
qed

theorem Merge_convergence_witness:
  "let a = example_op ''1'' ''Alice'' 100; b = example_op ''2'' ''Bob'' 200
   in set [a, b, a] = set [b, a] \<and> field_stamps_unique {a, b}
      \<and> lookup2 (Merge [a, b, a]) ''doc1'' ''name'' = lookup2 (Merge [b, a]) ''doc1'' ''name''"
proof -
  let ?a = "example_op ''1'' ''Alice'' 100" and ?b = "example_op ''2'' ''Bob'' 200"
  have s: "set [?a, ?b, ?a] = set [?b, ?a]" by auto
  have u: "field_stamps_unique (set [?a, ?b, ?a])"
    by (simp add: field_stamps_unique_def example_op_def)
  from Merge_convergence [OF s u] s u show ?thesis by (simp add: insert_commute)
qed

text \<open>
  Without unique stamps the order of the operations shows: of two operations on a field
  with equal stamps the first in the list wins, so the two orders merge to different
  values.
\<close>

theorem Merge_equal_stamps_order_dependent:
  assumes "DocID a = DocID b" "Field a = Field b" "Timestamp a = Timestamp b"
  shows "lookup2 (Merge [a, b]) (DocID a) (Field a) = Some (Value a)
    \<and> lookup2 (Merge [b, a]) (DocID a) (Field a) = Some (Value b)"
  using assms by (simp add: lookup2_Merge ops_on_def winner_def pick_def lww_Before.irrefl)

theorem Merge_equal_stamps_order_dependent_witness:
  "let a = example_op ''1'' ''Alice'' 100; b = example_op ''2'' ''Bob'' 100
   in lookup2 (Merge [a, b]) ''doc1'' ''name'' \<noteq> lookup2 (Merge [b, a]) ''doc1'' ''name''"
proof -
  let ?a = "example_op ''1'' ''Alice'' 100" and ?b = "example_op ''2'' ''Bob'' 100"
  have "DocID ?a = DocID ?b" "Field ?a = Field ?b" "Timestamp ?a = Timestamp ?b"
    by (simp_all add: example_op_def)
  from Merge_equal_stamps_order_dependent [OF this] show ?thesis
    by (simp add: example_op_def)
qed

end
