(* ===== verification/Backend.thy ===== *)
theory Backend
  imports Dataset Meta_Store Merge
begin

text \<open>
  \<open>storage/crsqlite/backend.go\<close>: the storage backend.  Each method ensures the dataset's
  tables and then works on its log through the functions of \<open>data.go\<close>.  A \<open>range\<close> loop
  over a Go map visits its entries in an order chosen by the runtime: \<open>ranges\<close> holds one
  seed per such loop, and the lemmas hold for all of them.
\<close>

section \<open>Definitions\<close>

record ranges =
  rg_docs :: "nat list"
  rg_fields :: "string \<Rightarrow> nat list"
  rg_winners :: "nat list"
  rg_doc_states :: "nat list"

definition no_shuffle :: ranges where
  "no_shuffle = \<lparr>rg_docs = [], rg_fields = (\<lambda>_. []), rg_winners = [], rg_doc_states = []\<rparr>"

definition beforeHLC :: "hlc \<Rightarrow> hlc \<Rightarrow> bool" where
  "beforeHLC a b =
     (if WallTime a \<noteq> WallTime b then sint (WallTime a) < sint (WallTime b)
      else if Logical a \<noteq> Logical b then Logical a < Logical b
      else DeviceID a < DeviceID b)"

definition mergeOpsLocal :: "crdt_op list \<Rightarrow> goval docs" where
  "mergeOpsLocal ops = wins_values (foldl (wins_step beforeHLC) [] ops)"

definition MergeOps :: "string \<Rightarrow> string \<Rightarrow> string \<Rightarrow> crdt_op list \<Rightarrow> unit dbprog" where
  "MergeOps appID userID datasetID ops =
     bindP (wrapP (Wrap ''MergeOps ensure dataset'') (EnsureDataset appID userID datasetID)) (\<lambda>_.
     InsertOps appID userID datasetID ops)"

text \<open>The loop that computes the maximum stamp, from Go's zero value.\<close>

definition max_hlc :: "crdt_op list \<Rightarrow> hlc" where
  "max_hlc ops = foldl (\<lambda>m op. if beforeHLC m (Timestamp op) then Timestamp op else m) zero_hlc ops"

definition GetDelta :: "string \<Rightarrow> string \<Rightarrow> string \<Rightarrow> hlc \<Rightarrow> (crdt_op list \<times> hlc) dbprog" where
  "GetDelta appID userID datasetID since =
     bindP (wrapP (Wrap ''GetDelta ensure dataset'') (EnsureDataset appID userID datasetID)) (\<lambda>_.
     bindP (QueryOps appID userID datasetID since) (\<lambda>ops.
     retP (ops, max_hlc ops)))"

text \<open>The nested loop that flattens documents to keys \<open>docID.field\<close>.\<close>

definition flatten_fields :: "nat list \<Rightarrow> string \<Rightarrow> (string, goval) gomap \<Rightarrow> (string, goval) gomap
    \<Rightarrow> (string, goval) gomap" where
  "flatten_fields seed docID fm flat =
     foldl (\<lambda>flat (field, val). gm_put (docID @ ''.'' @ field) val flat) flat (shuffle seed fm)"

definition flatten_docs :: "ranges \<Rightarrow> goval docs \<Rightarrow> (string, goval) gomap" where
  "flatten_docs rg snapshot =
     foldl (\<lambda>flat (docID, fm). flatten_fields (rg_fields rg docID) docID fm flat) []
       (shuffle (rg_docs rg) snapshot)"

definition GetSnapshot :: "ranges \<Rightarrow> string \<Rightarrow> string \<Rightarrow> string \<Rightarrow> ((string, goval) gomap \<times> hlc) dbprog" where
  "GetSnapshot rg appID userID datasetID =
     bindP (wrapP (Wrap ''GetSnapshot ensure dataset'') (EnsureDataset appID userID datasetID)) (\<lambda>_.
     bindP (QueryOps appID userID datasetID zero_hlc) (\<lambda>ops.
     let snapshot = mergeOpsLocal ops in
     retP (flatten_docs rg snapshot, max_hlc ops)))"

definition SchemaVersion :: "string \<Rightarrow> string \<Rightarrow> int dbprog" where
  "SchemaVersion appID datasetID = GetSchemaVersion appID datasetID"

definition OpCount :: "string \<Rightarrow> string \<Rightarrow> string \<Rightarrow> int dbprog" where
  "OpCount appID userID datasetID =
     bindP (wrapP (Wrap ''OpCount ensure dataset'') (EnsureDataset appID userID datasetID)) (\<lambda>_.
     CountOps appID userID datasetID)"

section \<open>Compact\<close>

text \<open>The first loop: the winner per document and field, in one map keyed by the pair.\<close>

definition win_step :: "(string \<times> string, crdt_op) gomap \<Rightarrow> crdt_op \<Rightarrow> (string \<times> string, crdt_op) gomap" where
  "win_step winMap op =
     (let key = (DocID op, Field op) in
      case gm_get winMap key of
        None \<Rightarrow> gm_put key op winMap
      | Some cur \<Rightarrow> if beforeHLC (Timestamp cur) (Timestamp op) then gm_put key op winMap else winMap)"

definition win_map :: "crdt_op list \<Rightarrow> (string \<times> string, crdt_op) gomap" where
  "win_map ops = foldl win_step [] ops"

definition kept_ops :: "ranges \<Rightarrow> crdt_op list \<Rightarrow> crdt_op list" where
  "kept_ops rg ops = map snd (shuffle (rg_winners rg) (win_map ops))"

text \<open>The merged document to store, its latest stamp and that stamp's device.\<close>

record doc_state =
  st_fields :: "(string, goval) gomap"
  st_hlc :: hlc
  st_devID :: string

definition doc_step :: "(string, doc_state) gomap \<Rightarrow> crdt_op \<Rightarrow> (string, doc_state) gomap" where
  "doc_step docMap op =
     (let ds = (case gm_get docMap (DocID op) of
                  None \<Rightarrow> \<lparr>st_fields = [], st_hlc = zero_hlc, st_devID = []\<rparr>
                | Some ds \<Rightarrow> ds);
          ds1 = ds\<lparr>st_fields := gm_put (Field op) (Value op) (st_fields ds)\<rparr>;
          ds2 = (if beforeHLC (st_hlc ds1) (Timestamp op)
                 then ds1\<lparr>st_hlc := Timestamp op, st_devID := OpDeviceID op\<rparr> else ds1)
      in gm_put (DocID op) ds2 docMap)"

definition doc_map :: "crdt_op list \<Rightarrow> (string, doc_state) gomap" where
  "doc_map kept = foldl doc_step [] kept"

fun write_snapshots :: "string \<Rightarrow> string \<Rightarrow> (string \<times> doc_state) list \<Rightarrow> unit dbprog" where
  "write_snapshots datasetID userID [] = retP ()"
| "write_snapshots datasetID userID ((docID, ds) # rest) =
     (case json_marshal (GMap (st_fields ds)) of
        None \<Rightarrow> failP (Wrap (''Compact marshal snapshot for doc '' @ docID) ErrMarshal)
      | Some data \<Rightarrow>
          bindP (wrapP (Wrap ''Compact write snapshot'')
                   (WriteSnapshot datasetID userID docID data
                      (WallTime (st_hlc ds)) (Logical (st_hlc ds)) (st_devID ds)))
            (\<lambda>_. write_snapshots datasetID userID rest))"

definition Compact :: "ranges \<Rightarrow> string \<Rightarrow> string \<Rightarrow> string \<Rightarrow> unit dbprog" where
  "Compact rg appID userID datasetID =
     bindP (wrapP (Wrap ''Compact ensure dataset'') (EnsureDataset appID userID datasetID)) (\<lambda>_.
     bindP (wrapP (Wrap ''Compact query'') (QueryOps appID userID datasetID zero_hlc)) (\<lambda>ops.
     let kept = kept_ops rg ops;
         docMap = doc_map kept
     in bindP (write_snapshots datasetID userID (shuffle (rg_doc_states rg) docMap)) (\<lambda>_.
        bindP (wrapP (Wrap ''Compact archive'') (ArchiveOps appID userID datasetID)) (\<lambda>_.
        if kept \<noteq> []
        then wrapP (Wrap ''Compact reactivate winners'') (ReactivateOps appID userID datasetID kept)
        else retP ()))))"

section \<open>The copies agree with package crdt\<close>

lemma beforeHLC_Before: "beforeHLC = Before"
  by (intro ext) (simp add: beforeHLC_def Before_def)

interpretation lww_beforeHLC: lww_register beforeHLC Timestamp
  unfolding beforeHLC_Before by (rule lww_Before.lww_register_axioms)

section \<open>Winners\<close>

lemma gm_get_win_step:
  "gm_get (win_step m op) k =
     (if k = (DocID op, Field op) then pick beforeHLC Timestamp (gm_get m k) op else gm_get m k)"
  by (auto simp: win_step_def Let_def pick_def split: option.splits)

lemma gm_get_win_map: "gm_get (win_map ops) (d, f) = winner beforeHLC Timestamp (ops_on d f ops)"
proof (induction ops rule: rev_induct)
  case (snoc op ops)
  have "win_map (ops @ [op]) = win_step (win_map ops) op" by (simp add: win_map_def)
  then show ?case using snoc by (auto simp: gm_get_win_step ops_on_snoc)
qed (simp add: win_map_def ops_on_def)

lemma gm_ok_win_step: "gm_ok m \<Longrightarrow> gm_ok (win_step m op)"
  by (auto simp: win_step_def Let_def split: option.splits)

lemma gm_ok_win_map: "gm_ok (win_map ops)"
  unfolding win_map_def by (induction ops rule: rev_induct) (auto simp: gm_ok_win_step)

text \<open>The winners kept by a compaction, as a set: no order of visiting shows in it.\<close>

definition winners :: "crdt_op list \<Rightarrow> crdt_op set" where
  "winners ops = {w. winner beforeHLC Timestamp (ops_on (DocID w) (Field w) ops) = Some w}"

lemma win_map_entry: "((d, f), w) \<in> set (win_map ops) \<longleftrightarrow> winner beforeHLC Timestamp (ops_on d f ops) = Some w"
  using gm_mem_iff [OF gm_ok_win_map] by (simp add: gm_get_win_map)

lemma winner_ops_on_key:
  "winner before Timestamp (ops_on d f ops) = Some w \<Longrightarrow> DocID w = d \<and> Field w = f \<and> w \<in> set ops"
  by (drule winner_in) simp

lemma set_kept_ops [simp]: "set (kept_ops rg ops) = winners ops"
proof -
  have "snd ` set (win_map ops) = winners ops"
  proof (intro set_eqI iffI)
    fix w
    assume "w \<in> snd ` set (win_map ops)"
    then obtain d f where "((d, f), w) \<in> set (win_map ops)" by force
    then show "w \<in> winners ops"
      using winner_ops_on_key by (auto simp: win_map_entry winners_def)
  next
    fix w
    assume "w \<in> winners ops"
    then have "((DocID w, Field w), w) \<in> set (win_map ops)" by (simp add: win_map_entry winners_def)
    then show "w \<in> snd ` set (win_map ops)" by force
  qed
  then show ?thesis by (simp add: kept_ops_def)
qed

lemma winners_subset: "winners ops \<subseteq> set ops"
  by (auto simp: winners_def dest: winner_ops_on_key)

lemma winners_key_inj: "inj_on (\<lambda>op. (DocID op, Field op)) (winners ops)"
proof (rule inj_onI)
  fix x y
  assume x: "x \<in> winners ops" and y: "y \<in> winners ops" and k: "(DocID x, Field x) = (DocID y, Field y)"
  have "Some x = winner beforeHLC Timestamp (ops_on (DocID x) (Field x) ops)"
    using x by (simp only: winners_def mem_Collect_eq)
  also have "\<dots> = winner beforeHLC Timestamp (ops_on (DocID y) (Field y) ops)"
    using k by (simp only: prod.inject)
  also have "\<dots> = Some y"
    using y by (simp only: winners_def mem_Collect_eq)
  finally show "x = y" by simp
qed

lemma winners_keys: "(\<lambda>op. (DocID op, Field op)) ` winners ops = (\<lambda>op. (DocID op, Field op)) ` set ops"
proof (intro equalityI subsetI)
  fix k
  assume "k \<in> (\<lambda>op. (DocID op, Field op)) ` set ops"
  then obtain op where op: "op \<in> set ops" "k = (DocID op, Field op)" by auto
  then have "winner beforeHLC Timestamp (ops_on (DocID op) (Field op) ops) \<noteq> None"
    by (auto simp: ops_on_Nil_iff)
  then obtain w where w: "winner beforeHLC Timestamp (ops_on (DocID op) (Field op) ops) = Some w" by blast
  have key: "DocID w = DocID op" "Field w = Field op" using winner_ops_on_key [OF w] by simp_all
  then have "w \<in> winners ops" using w by (simp add: winners_def)
  moreover have "k = (DocID w, Field w)" using key op(2) by simp
  ultimately show "k \<in> (\<lambda>op. (DocID op, Field op)) ` winners ops" by (simp only: image_eqI)
qed (use winners_subset in auto)

lemma finite_winners [simp]: "finite (winners ops)"
  using winners_subset by (rule finite_subset) simp

lemma card_winners: "card (winners ops) = card ((\<lambda>op. (DocID op, Field op)) ` set ops)"
  by (metis card_image winners_key_inj winners_keys)

lemma winner_on_winners:
  "set ops' = winners ops \<Longrightarrow> winner beforeHLC Timestamp (ops_on d f ops') = winner beforeHLC Timestamp (ops_on d f ops)"
proof -
  assume s: "set ops' = winners ops"
  show ?thesis
  proof (cases "winner beforeHLC Timestamp (ops_on d f ops)")
    case None
    then have "\<forall>w \<in> winners ops. \<not> (DocID w = d \<and> Field w = f)"
      by (auto simp: winners_def)
    then have "ops_on d f ops' = []" using s by (auto simp: ops_on_Nil_iff)
    moreover have "ops_on d f ops = []" using None by simp
    ultimately show ?thesis by simp
  next
    case (Some w)
    have "winner beforeHLC Timestamp (ops_on d f ops') = Some w"
    proof -
      have "x = w" if "x \<in> set (ops_on d f ops')" for x
        using that s Some by (auto simp: winners_def)
      moreover have "w \<in> winners ops" "DocID w = d" "Field w = f"
        using Some winner_ops_on_key [OF Some] by (auto simp: winners_def)
      then have "ops_on d f ops' \<noteq> []" using s by (auto simp: ops_on_Nil_iff)
      ultimately show ?thesis
        by (metis not_Some_eq winner_eq_None winner_in)
    qed
    then show ?thesis using Some by simp
  qed
qed

lemma winners_of_winners: "set ops' = winners ops \<Longrightarrow> winners ops' = winners ops"
proof (rule set_eqI)
  fix w
  assume "set ops' = winners ops"
  then show "w \<in> winners ops' \<longleftrightarrow> w \<in> winners ops"
    using winner_on_winners [of ops' ops "DocID w" "Field w"] by (simp add: winners_def)
qed

section \<open>The maximum stamp\<close>

lemma max_hlc_Nil [simp]: "max_hlc [] = zero_hlc"
  by (simp add: max_hlc_def)

lemma max_hlc_snoc [simp]: "max_hlc (ops @ [op]) = max (max_hlc ops) (Timestamp op)"
  by (auto simp: max_hlc_def beforeHLC_Before Before_iff_less max_def)

lemma max_hlc_ge: "op \<in> set ops \<Longrightarrow> Timestamp op \<le> max_hlc ops"
  by (induction ops rule: rev_induct) (auto simp: le_max_iff_disj)

lemma max_hlc_zero: "zero_hlc \<le> max_hlc ops"
  by (induction ops rule: rev_induct) (auto simp: le_max_iff_disj)

lemma max_hlc_in: "max_hlc ops = zero_hlc \<or> (\<exists>op \<in> set ops. max_hlc ops = Timestamp op)"
  by (induction ops rule: rev_induct) (auto simp: max_def)

lemma max_hlc_Max: "max_hlc ops = Max (insert zero_hlc (Timestamp ` set ops))"
proof (rule Max_eqI [symmetric])
  show "t \<le> max_hlc ops" if "t \<in> insert zero_hlc (Timestamp ` set ops)" for t
    using that max_hlc_ge max_hlc_zero by auto
  show "max_hlc ops \<in> insert zero_hlc (Timestamp ` set ops)"
    using max_hlc_in [of ops] by auto
qed simp

section \<open>Outcomes of the methods\<close>

text \<open>Ensuring a dataset never changes its log, even when it fails half way.\<close>

definition log_same :: "string \<Rightarrow> string \<Rightarrow> string \<Rightarrow> database \<Rightarrow> database \<Rightarrow> bool" where
  "log_same a u d db db' \<longleftrightarrow> log_of a u d db' = log_of a u d db"

interpretation log_rel: statement_relation "log_same a u d"
  by unfold_locales (auto simp: log_same_def reflp_def transp_def log_of_def)

lemma log_same_EnsureDataset: "keeps (log_same a u d) (EnsureDataset a u d)"
proof -
  have "keeps (log_same a u d) create_snapshots"
    by (auto simp: keeps_def create_snapshots_def log_same_def log_of_def table_rows_def)
  moreover have "keeps (log_same a u d) (create_op_log (datasetTable a u d))"
    by (auto simp: keeps_def create_op_log_def log_same_def log_of_def table_rows_def set_rows_def)
  moreover have "keeps (log_same a u d) (crsql_as_crr (datasetTable a u d))"
    by (auto simp: keeps_def crsql_as_crr_def log_same_def log_of_def table_rows_def)
  moreover have "keeps (log_same a u d) (count_master n)" for n
    by (auto simp: keeps_def count_master_def log_same_def)
  ultimately show ?thesis
    unfolding EnsureDataset_def Let_def
    by (intro log_rel.keeps_bind_R keeps_wrapP log_rel.keeps_sql_R log_rel.keeps_if_R log_rel.keeps_ret_R)
qed

lemma EnsureDataset_log: "EnsureDataset a u d db = (r, db') \<Longrightarrow> log_of a u d db' = log_of a u d db"
  using keepsD' [OF log_same_EnsureDataset] by (simp add: log_same_def)

text \<open>The operations a query from the zero cursor returns: what snapshots and compactions see.\<close>

definition live_ops :: "op_row list \<Rightarrow> crdt_op list" where
  "live_ops rows = map row_to_op (select_ops zero_hlc rows)"

lemma set_live_ops: "set (live_ops rows) = row_to_op ` {r \<in> set rows. after_cursor zero_hlc r}"
  by (simp add: live_ops_def)

lemma MergeOps_Inr:
  assumes "MergeOps a u d ops db = (Inr x, db')"
  shows "log_of a u d db' = apply_ops insert_ignore ops (log_of a u d db)
    \<and> (\<forall>op \<in> set ops. marshalable (Value op)) \<and> snapshots db' \<noteq> None"
proof -
  obtain y db1 where 1: "EnsureDataset a u d db = (Inr y, db1)" and 2: "InsertOps a u d ops db1 = (Inr x, db')"
    using assms by (auto simp: MergeOps_def bindP_eq_Inr)
  note e = EnsureDataset_Inr [OF 1]
  obtain rows where rows: "table_rows (datasetTable a u d) db1 = Some rows"
    and m: "\<forall>op \<in> set ops. marshalable (Value op)"
    and sc: "same_content (set_rows (datasetTable a u d) (apply_ops insert_ignore ops rows) db1) db'"
    using InsertOps_Inr [OF 2] by blast
  have "rows = log_of a u d db" using e rows by (simp add: ensured_def)
  moreover have "log_of a u d db' = apply_ops insert_ignore ops rows"
    using log_of_same_content [OF sc] by (simp add: log_of_def)
  moreover have "snapshots db' \<noteq> None"
    using e same_contentD(3) [OF sc] by (simp add: ensured_def)
  ultimately show ?thesis using m by simp
qed

lemma MergeOps_Inl:
  assumes "MergeOps a u d ops db = (Inl e, db')"
  shows "log_of a u d db' = log_of a u d db"
proof -
  consider e' where "EnsureDataset a u d db = (Inl e', db')"
    | y db1 where "EnsureDataset a u d db = (Inr y, db1)" "InsertOps a u d ops db1 = (Inl e, db')"
    using assms by (auto simp: MergeOps_def bindP_eq_Inl wrapP_eq_Inl)
  then show ?thesis
  proof cases
    case 1
    then show ?thesis by (rule EnsureDataset_log)
  next
    case 2
    then show ?thesis using EnsureDataset_log [OF 2(1)] log_of_same_content [OF InsertOps_Inl [OF 2(2)]] by simp
  qed
qed

lemma MergeOps_total:
  assumes "faults db = []" "\<forall>op \<in> set ops. marshalable (Value op)"
  shows "\<exists>db'. MergeOps a u d ops db = (Inr (), db') \<and> faults db' = []"
proof -
  obtain db1 where 1: "EnsureDataset a u d db = (Inr (), db1)" "faults db1 = []"
    using assms(1) by (rule EnsureDataset_total)
  then have t: "table_rows (datasetTable a u d) db1 = Some (log_of a u d db)"
    using EnsureDataset_Inr by (simp add: ensured_def)
  have "\<exists>db'. InsertOps a u d ops db1 = (Inr (), db') \<and> faults db' = []"
    unfolding InsertOps_def Let_def using 1(2) t assms(2) by (rule tx_ops_total)
  then show ?thesis using 1 by (simp add: MergeOps_def)
qed

lemma ensured_query:
  assumes "bindP (wrapP f (EnsureDataset a u d)) (\<lambda>_. QueryOps a u d since) db = (Inr ops, db')"
  shows "ops = map row_to_op (select_ops since (log_of a u d db)) \<and> log_of a u d db' = log_of a u d db
    \<and> table_rows (datasetTable a u d) db' = Some (log_of a u d db) \<and> ensured a u d db db'"
proof -
  obtain y db1 where 1: "EnsureDataset a u d db = (Inr y, db1)" and 2: "QueryOps a u d since db1 = (Inr ops, db')"
    using assms by (auto simp: bindP_eq_Inr)
  note e = EnsureDataset_Inr [OF 1]
  obtain rows where q: "same_content db1 db'" "table_rows (datasetTable a u d) db1 = Some rows"
      "ops = map row_to_op (select_ops since rows)"
    using QueryOps_Inr [OF 2] by blast
  have rows: "rows = log_of a u d db" using e q(2) by (simp add: ensured_def)
  have t: "table_rows (datasetTable a u d) db' = Some (log_of a u d db)"
    using q(1,2) rows by (simp add: table_rows_same_content)
  have "frame_other (datasetTable a u d) db1 db'" by (rule same_content_frame_other [OF q(1)])
  then have "ensured a u d db db'"
    using e t same_contentD(3) [OF q(1)] transpD [OF transp_frame_other]
    by (auto simp: ensured_def)
  then show ?thesis using q(3) rows t by (simp add: log_of_Some)
qed

lemma GetDelta_Inr:
  assumes "GetDelta a u d since db = (Inr (ops, mx), db')"
  shows "ops = map row_to_op (select_ops since (log_of a u d db)) \<and> mx = max_hlc ops
    \<and> log_of a u d db' = log_of a u d db \<and> ensured a u d db db'"
proof -
  have "bindP (wrapP (Wrap ''GetDelta ensure dataset'') (EnsureDataset a u d)) (\<lambda>_. QueryOps a u d since) db
      = (Inr ops, db') \<and> mx = max_hlc ops"
    using assms by (auto simp: GetDelta_def bindP_eq_Inr)
  then show ?thesis using ensured_query by blast
qed

lemma GetSnapshot_Inr:
  assumes "GetSnapshot rg a u d db = (Inr (flat, mx), db')"
  shows "flat = flatten_docs rg (mergeOpsLocal (live_ops (log_of a u d db)))
    \<and> mx = max_hlc (live_ops (log_of a u d db)) \<and> log_of a u d db' = log_of a u d db \<and> ensured a u d db db'"
proof -
  obtain ops where "bindP (wrapP (Wrap ''GetSnapshot ensure dataset'') (EnsureDataset a u d))
        (\<lambda>_. QueryOps a u d zero_hlc) db = (Inr ops, db')"
      and "flat = flatten_docs rg (mergeOpsLocal ops)" "mx = max_hlc ops"
    using assms by (auto simp: GetSnapshot_def Let_def bindP_eq_Inr)
  then show ?thesis using ensured_query by (auto simp: live_ops_def)
qed

lemma OpCount_Inr:
  assumes "OpCount a u d db = (Inr n, db')"
  shows "n = int (length (filter (\<lambda>r. row_status r = ''active'') (log_of a u d db)))
    \<and> log_of a u d db' = log_of a u d db"
proof -
  obtain y db1 where 1: "EnsureDataset a u d db = (Inr y, db1)" and 2: "CountOps a u d db1 = (Inr n, db')"
    using assms by (auto simp: OpCount_def bindP_eq_Inr)
  show ?thesis
    using EnsureDataset_Inr [OF 1] CountOps_Inr [OF 2]
    by (auto simp: ensured_def log_of_same_content log_of_Some)
qed

lemma GetDelta_total:
  assumes "faults db = []"
  shows "\<exists>ops mx db'. GetDelta a u d since db = (Inr (ops, mx), db') \<and> faults db' = []"
proof -
  obtain db1 where 1: "EnsureDataset a u d db = (Inr (), db1)" "faults db1 = []"
    using assms by (rule EnsureDataset_total)
  then have t: "table_rows (datasetTable a u d) db1 = Some (log_of a u d db)"
    using EnsureDataset_Inr by (simp add: ensured_def)
  show ?thesis using 1 QueryOps_total [OF 1(2) t] by (simp add: GetDelta_def)
qed

lemma GetSnapshot_total:
  assumes "faults db = []"
  shows "\<exists>flat mx db'. GetSnapshot rg a u d db = (Inr (flat, mx), db') \<and> faults db' = []"
proof -
  obtain db1 where 1: "EnsureDataset a u d db = (Inr (), db1)" "faults db1 = []"
    using assms by (rule EnsureDataset_total)
  then have t: "table_rows (datasetTable a u d) db1 = Some (log_of a u d db)"
    using EnsureDataset_Inr by (simp add: ensured_def)
  show ?thesis using 1 QueryOps_total [OF 1(2) t] by (simp add: GetSnapshot_def Let_def)
qed

lemma OpCount_total:
  assumes "faults db = []"
  shows "\<exists>n db'. OpCount a u d db = (Inr n, db') \<and> faults db' = []"
proof -
  obtain db1 where 1: "EnsureDataset a u d db = (Inr (), db1)" "faults db1 = []"
    using assms by (rule EnsureDataset_total)
  then have t: "table_rows (datasetTable a u d) db1 = Some (log_of a u d db)"
    using EnsureDataset_Inr by (simp add: ensured_def)
  show ?thesis using 1 t by (simp add: OpCount_def CountOps_def)
qed

end
