(* ===== verification/Compaction.thy ===== *)
theory Compaction
  imports Backend
begin

text \<open>
  What a compaction does to a log (\<open>Compact\<close> in \<open>backend.go\<close>), and the invariants of the
  backend over any sequence of calls.  A successful compaction leaves active exactly the
  winning operation of every field, so every later merge, snapshot and count is that of the
  winners; the rows of the other operations stay, archived.
\<close>

section \<open>Every method keeps a dataset invariant\<close>

context dataset_invariant
begin

lemma MergeOps_keeps: "keeps R (MergeOps a u d ops)"
  unfolding MergeOps_def by (intro keeps_bind_R keeps_wrapP EnsureDataset_keeps InsertOps_keeps)

lemma GetDelta_keeps: "keeps R (GetDelta a u d since)"
  unfolding GetDelta_def
  by (intro keeps_bind_R keeps_wrapP EnsureDataset_keeps QueryOps_keeps keeps_ret_R)

lemma GetSnapshot_keeps: "keeps R (GetSnapshot rg a u d)"
  unfolding GetSnapshot_def Let_def
  by (intro keeps_bind_R keeps_wrapP EnsureDataset_keeps QueryOps_keeps keeps_ret_R)

lemma OpCount_keeps: "keeps R (OpCount a u d)"
  unfolding OpCount_def by (intro keeps_bind_R keeps_wrapP EnsureDataset_keeps CountOps_keeps)

lemma write_snapshots_keeps: "keeps R (write_snapshots d' u' entries)"
proof (induction entries)
  case (Cons e es)
  obtain docID ds where e: "e = (docID, ds)" by (cases e)
  show ?case
    using Cons by (cases "json_marshal (GMap (st_fields ds))")
      (simp_all add: e keeps_bind_R keeps_wrapP WriteSnapshot_keeps)
qed simp

lemma Compact_keeps: "keeps R (Compact rg a u d)"
  unfolding Compact_def Let_def
  by (intro keeps_bind_R keeps_wrapP keeps_if_R EnsureDataset_keeps QueryOps_keeps write_snapshots_keeps
      ArchiveOps_keeps ReactivateOps_keeps keeps_ret_R)

end

section \<open>The log after a compaction\<close>

lemma log_same_write_snapshots: "keeps (log_same a u d) (write_snapshots d' u' entries)"
proof (induction entries)
  case (Cons e es)
  obtain docID ds where e: "e = (docID, ds)" by (cases e)
  have "keeps (log_same a u d) (replace_snapshot r)" for r
    by (auto simp: keeps_def replace_snapshot_def log_same_def log_of_def table_rows_def split: option.split)
  then have "keeps (log_same a u d) (WriteSnapshot d' u' docID data w l dev)" for data w l dev
    unfolding WriteSnapshot_def by (intro keeps_wrapP log_rel.keeps_sql_R)
  then show ?case
    using Cons by (cases "json_marshal (GMap (st_fields ds))")
      (simp_all add: e log_rel.keeps_bind_R keeps_wrapP)
qed simp

definition compact_rows :: "string set \<Rightarrow> op_row list \<Rightarrow> op_row list" where
  "compact_rows K rows =
     map (\<lambda>r. if row_op_id r \<in> K then r\<lparr>row_status := ''active''\<rparr> else archive_row r) rows"

lemma row_op_id_compact_rows [simp]: "map row_op_id (compact_rows K rows) = map row_op_id rows"
  by (simp add: compact_rows_def)

lemma activate_archived:
  "map (\<lambda>r. if row_op_id r \<in> K then r\<lparr>row_status := ''active''\<rparr> else r) (map archive_row rows)
     = compact_rows K rows"
  by (auto simp: compact_rows_def archive_row_def)

lemma winner_ids_subset:
  "OpID ` winners (live_ops rows) \<subseteq> row_op_id ` set rows"
  using winners_subset [of "live_ops rows"] by (force simp: set_live_ops)

text \<open>The steps of a compaction that succeeded.\<close>

lemma Compact_steps:
  assumes "Compact rg a u d db = (Inr x, db')"
  obtains db1 db2 db3 where
    "ensured a u d db db1" "log_of a u d db1 = log_of a u d db"
    "write_snapshots d u (shuffle (rg_doc_states rg) (doc_map (kept_ops rg (live_ops (log_of a u d db))))) db1
       = (Inr (), db2)"
    "ArchiveOps a u d db2 = (Inr (), db3)"
    "kept_ops rg (live_ops (log_of a u d db)) = [] \<and> db' = db3
     \<or> kept_ops rg (live_ops (log_of a u d db)) \<noteq> []
       \<and> ReactivateOps a u d (kept_ops rg (live_ops (log_of a u d db))) db3 = (Inr (), db')"
proof -
  let ?rest = "\<lambda>ops. bindP (write_snapshots d u (shuffle (rg_doc_states rg) (doc_map (kept_ops rg ops)))) (\<lambda>_.
    bindP (wrapP (Wrap ''Compact archive'') (ArchiveOps a u d)) (\<lambda>_.
      if kept_ops rg ops \<noteq> []
      then wrapP (Wrap ''Compact reactivate winners'') (ReactivateOps a u d (kept_ops rg ops)) else retP ()))"
  obtain ops db0 db1 where e: "EnsureDataset a u d db = (Inr (), db0)"
      and q: "QueryOps a u d zero_hlc db0 = (Inr ops, db1)" and rest: "?rest ops db1 = (Inr x, db')"
    using assms by (auto simp: Compact_def Let_def bindP_eq_Inr [of "wrapP _ _"])
  have 1: "bindP (wrapP (Wrap ''Compact ensure dataset'') (EnsureDataset a u d))
      (\<lambda>_. QueryOps a u d zero_hlc) db = (Inr ops, db1)"
    using e q by simp
  obtain db2 db3 where 2: "write_snapshots d u (shuffle (rg_doc_states rg) (doc_map (kept_ops rg ops))) db1 = (Inr (), db2)"
    and 3: "ArchiveOps a u d db2 = (Inr (), db3)"
    and 4: "(if kept_ops rg ops \<noteq> []
      then wrapP (Wrap ''Compact reactivate winners'') (ReactivateOps a u d (kept_ops rg ops)) else retP ()) db3
      = (Inr x, db')"
    using rest by (auto simp: bindP_eq_Inr)
  from 4 have 4: "kept_ops rg ops = [] \<and> db' = db3
      \<or> kept_ops rg ops \<noteq> [] \<and> ReactivateOps a u d (kept_ops rg ops) db3 = (Inr (), db')"
    by (cases "kept_ops rg ops = []") simp_all
  note q = ensured_query [OF 1]
  then have "ops = live_ops (log_of a u d db)" by (simp add: live_ops_def)
  then show thesis using that q 2 3 4 by blast
qed

lemma archive_reactivate_log:
  assumes 2: "write_snapshots d u entries db1 = (Inr (), db2)"
    and 3: "ArchiveOps a u d db2 = (Inr (), db3)"
    and 4: "kept_ops rg ops = [] \<and> db' = db3
      \<or> kept_ops rg ops \<noteq> [] \<and> ReactivateOps a u d (kept_ops rg ops) db3 = (Inr (), db')"
    and ids: "OpID ` winners ops \<subseteq> row_op_id ` set (log_of a u d db1)"
  shows "log_of a u d db' = compact_rows (OpID ` winners ops) (log_of a u d db1)"
proof -
  let ?rows = "log_of a u d db1" and ?kept = "kept_ops rg ops"
  have "log_of a u d db2 = ?rows"
    using keepsD' [OF log_same_write_snapshots 2] by (simp add: log_same_def)
  then have arch: "table_rows (datasetTable a u d) db3 = Some (map archive_row ?rows)"
    using ArchiveOps_Inr [OF 3] by (auto simp: log_of_Some table_rows_same_content)
  from 4 show ?thesis
  proof
    assume k: "?kept = [] \<and> db' = db3"
    then have "winners ops = {}" by (metis set_kept_ops empty_set)
    then show ?thesis using arch k by (simp add: log_of_Some compact_rows_def)
  next
    assume k: "?kept \<noteq> [] \<and> ReactivateOps a u d ?kept db3 = (Inr (), db')"
    then obtain rows where r: "table_rows (datasetTable a u d) db3 = Some rows"
      "same_content (set_rows (datasetTable a u d) (apply_ops insert_activate ?kept rows) db3) db'"
      using ReactivateOps_Inr by blast
    have "apply_ops insert_activate ?kept (map archive_row ?rows) = compact_rows (OpID ` winners ops) ?rows"
      unfolding activate_archived [symmetric] set_kept_ops [of rg, symmetric]
      using ids by (intro apply_activate) (simp add: image_image)
    then show ?thesis
      using arch r log_of_same_content [OF r(2)] by (simp add: log_of_def)
  qed
qed

lemma Compact_log:
  assumes "Compact rg a u d db = (Inr x, db')"
  shows "log_of a u d db' = compact_rows (OpID ` winners (live_ops (log_of a u d db))) (log_of a u d db)"
proof -
  let ?rows = "log_of a u d db"
  let ?kept = "kept_ops rg (live_ops ?rows)"
  obtain db1 db2 db3 where
    1: "log_of a u d db1 = ?rows"
    and 2: "write_snapshots d u (shuffle (rg_doc_states rg) (doc_map ?kept)) db1 = (Inr (), db2)"
    and 3: "ArchiveOps a u d db2 = (Inr (), db3)"
    and 4: "?kept = [] \<and> db' = db3 \<or> ?kept \<noteq> [] \<and> ReactivateOps a u d ?kept db3 = (Inr (), db')"
    using assms by (rule Compact_steps)
  show ?thesis
    using archive_reactivate_log [OF 2 3 4] winner_ids_subset [of ?rows] by (simp add: 1)
qed

section \<open>What is live after a compaction\<close>

lemma log_ok_same_id:
  "log_ok rows \<Longrightarrow> r \<in> set rows \<Longrightarrow> r' \<in> set rows \<Longrightarrow> row_op_id r = row_op_id r' \<Longrightarrow> r = r'"
  by (auto simp: log_ok_def distinct_map dest: inj_onD)

lemma archive_row_not_active: "row_status (archive_row r) \<noteq> ''active''"
  by (simp add: archive_row_def)

lemma winner_row:
  "w \<in> winners (live_ops rows) \<Longrightarrow> \<exists>r \<in> set rows. after_cursor zero_hlc r \<and> w = row_to_op r"
  using winners_subset [of "live_ops rows"] by (auto simp: set_live_ops)

lemma row_is_winner:
  assumes "log_ok rows" "r \<in> set rows" "row_op_id r \<in> OpID ` winners (live_ops rows)"
  shows "row_to_op r \<in> winners (live_ops rows) \<and> after_cursor zero_hlc r"
proof -
  obtain w where w: "w \<in> winners (live_ops rows)" "OpID w = row_op_id r" using assms(3) by auto
  then obtain r0 where r0: "r0 \<in> set rows" "after_cursor zero_hlc r0" "w = row_to_op r0"
    using winner_row by blast
  then have "r = r0" using log_ok_same_id [OF assms(1,2) r0(1)] w(2) by simp
  then show ?thesis using w r0 by simp
qed

lemma live_after_compact:
  assumes "log_ok rows"
  shows "set (live_ops (compact_rows (OpID ` winners (live_ops rows)) rows)) = winners (live_ops rows)"
proof (intro equalityI subsetI)
  fix w
  let ?K = "OpID ` winners (live_ops rows)"
  assume "w \<in> set (live_ops (compact_rows ?K rows))"
  then obtain r where r: "r \<in> set rows" "row_op_id r \<in> ?K" "w = row_to_op r"
    using archive_row_not_active
    by (auto simp: set_live_ops compact_rows_def after_cursor_def split: if_splits)
  then show "w \<in> winners (live_ops rows)" using row_is_winner [OF assms] by blast
next
  fix w
  let ?K = "OpID ` winners (live_ops rows)"
  assume w: "w \<in> winners (live_ops rows)"
  then obtain r where r: "r \<in> set rows" "after_cursor zero_hlc r" "w = row_to_op r"
    using winner_row by blast
  then have "r\<lparr>row_status := ''active''\<rparr> = r" by (auto simp: after_cursor_def)
  moreover have "row_op_id r \<in> ?K" using w r(3) by force
  ultimately have "r \<in> set (compact_rows ?K rows)"
    using r(1) by (force simp: compact_rows_def)
  then show "w \<in> set (live_ops (compact_rows ?K rows))"
    using r by (auto simp: set_live_ops)
qed

text \<open>The winning operation of a field, and its value, as a reader of the log sees them.\<close>

definition field_winner :: "string \<Rightarrow> string \<Rightarrow> op_row list \<Rightarrow> crdt_op option" where
  "field_winner doc f rows = winner beforeHLC Timestamp (ops_on doc f (live_ops rows))"

lemma field_winner_compact:
  "log_ok rows \<Longrightarrow>
     field_winner doc f (compact_rows (OpID ` winners (live_ops rows)) rows) = field_winner doc f rows"
  unfolding field_winner_def by (rule winner_on_winners) (rule live_after_compact)

lemma inj_on_OpID_winners:
  assumes "log_ok rows"
  shows "inj_on OpID (winners (live_ops rows))"
proof (rule inj_onI)
  fix x y
  assume "x \<in> winners (live_ops rows)" "y \<in> winners (live_ops rows)" and e: "OpID x = OpID y"
  then obtain r s where "r \<in> set rows" "x = row_to_op r" "s \<in> set rows" "y = row_to_op s"
    using winner_row by metis
  then show "x = y" using e log_ok_same_id [OF assms] by auto
qed

lemma active_compact_rows:
  "filter (\<lambda>r. row_status r = ''active'') (compact_rows K rows)
     = map (\<lambda>r. r\<lparr>row_status := ''active''\<rparr>) (filter (\<lambda>r. row_op_id r \<in> K) rows)"
  by (induction rows) (simp_all add: compact_rows_def archive_row_not_active)

lemma image_restrict: "K \<subseteq> f ` A \<Longrightarrow> f ` {x \<in> A. f x \<in> K} = K"
  by blast

lemma active_after_compact:
  assumes "log_ok rows"
  shows "length (filter (\<lambda>r. row_status r = ''active'') (compact_rows (OpID ` winners (live_ops rows)) rows))
    = card (winners (live_ops rows))"
proof -
  let ?K = "OpID ` winners (live_ops rows)"
  have "filter (\<lambda>r. row_status r = ''active'') (compact_rows ?K rows)
      = map (\<lambda>r. r\<lparr>row_status := ''active''\<rparr>) (filter (\<lambda>r. row_op_id r \<in> ?K) rows)"
    by (rule active_compact_rows)
  then have "length (filter (\<lambda>r. row_status r = ''active'') (compact_rows ?K rows))
      = length (map row_op_id (filter (\<lambda>r. row_op_id r \<in> ?K) rows))"
    by simp
  also have "\<dots> = card (set (map row_op_id (filter (\<lambda>r. row_op_id r \<in> ?K) rows)))"
    using assms by (intro distinct_card [symmetric]) (simp add: log_ok_def distinct_map_filter)
  also have "set (map row_op_id (filter (\<lambda>r. row_op_id r \<in> ?K) rows)) = ?K"
    unfolding set_map set_filter by (rule image_restrict) (rule winner_ids_subset)
  also have "card ?K = card (winners (live_ops rows))"
    using inj_on_OpID_winners [OF assms] by (rule card_image)
  finally show ?thesis .
qed

section \<open>The stored documents\<close>

lemma gm_get_doc_step:
  "gm_get (doc_step m op) d =
     (if d = DocID op
      then (let ds = (case gm_get m d of None \<Rightarrow> \<lparr>st_fields = [], st_hlc = zero_hlc, st_devID = []\<rparr> | Some ds \<Rightarrow> ds);
                ds1 = ds\<lparr>st_fields := gm_put (Field op) (Value op) (st_fields ds)\<rparr>
            in Some (if beforeHLC (st_hlc ds1) (Timestamp op)
                     then ds1\<lparr>st_hlc := Timestamp op, st_devID := OpDeviceID op\<rparr> else ds1))
      else gm_get m d)"
  by (simp add: doc_step_def Let_def)

text \<open>The fields of a stored document: one per kept operation on it.\<close>

definition doc_fields :: "(string, doc_state) gomap \<Rightarrow> string \<Rightarrow> (string, goval) gomap" where
  "doc_fields m d = (case gm_get m d of None \<Rightarrow> [] | Some ds \<Rightarrow> st_fields ds)"

lemma doc_fields_step:
  "doc_fields (doc_step m op) d =
     (if d = DocID op then gm_put (Field op) (Value op) (doc_fields m d) else doc_fields m d)"
  by (auto simp: doc_fields_def gm_get_doc_step Let_def split: option.split)

lemma gm_ok_doc_fields: "gm_ok (doc_fields (doc_map ops) d)"
proof (induction ops rule: rev_induct)
  case (snoc op ops)
  have "doc_map (ops @ [op]) = doc_step (doc_map ops) op" by (simp add: doc_map_def)
  then show ?case using snoc by (cases "d = DocID op") (simp_all add: doc_fields_step)
qed (simp add: doc_fields_def doc_map_def)

lemma gm_ok_doc_map: "gm_ok (doc_map ops)"
proof (induction ops rule: rev_induct)
  case (snoc op ops)
  have "doc_map (ops @ [op]) = doc_step (doc_map ops) op" by (simp add: doc_map_def)
  then show ?case using snoc by (simp add: doc_step_def Let_def)
qed (simp add: doc_map_def)

lemma doc_map_Some: "gm_get (doc_map ops) d \<noteq> None \<longleftrightarrow> d \<in> DocID ` set ops"
proof (induction ops rule: rev_induct)
  case (snoc op ops)
  have "doc_map (ops @ [op]) = doc_step (doc_map ops) op" by (simp add: doc_map_def)
  then show ?case using snoc by (simp add: gm_get_doc_step Let_def)
qed (simp add: doc_map_def)

lemma doc_fields_get:
  "gm_get (doc_fields (doc_map ops) d) f = (if ops_on d f ops = [] then None else Some (Value (last (ops_on d f ops))))"
proof (induction ops rule: rev_induct)
  case (snoc op ops)
  have "doc_map (ops @ [op]) = doc_step (doc_map ops) op" by (simp add: doc_map_def)
  then show ?case using snoc by (auto simp: doc_fields_step ops_on_snoc)
qed (simp add: doc_fields_def doc_map_def ops_on_def)

lemma last_kept:
  assumes "winner beforeHLC Timestamp (ops_on d f ops) = Some w"
  shows "ops_on d f (kept_ops rg ops) \<noteq> [] \<and> last (ops_on d f (kept_ops rg ops)) = w"
proof -
  have w: "DocID w = d" "Field w = f" using winner_ops_on_key [OF assms] by simp_all
  then have "w \<in> winners ops" using assms by (simp add: winners_def)
  then have ne: "ops_on d f (kept_ops rg ops) \<noteq> []" using w by (auto simp: ops_on_Nil_iff)
  have "x = w" if "x \<in> set (ops_on d f (kept_ops rg ops))" for x
    using that assms by (auto simp: winners_def)
  then show ?thesis using ne last_in_set by blast
qed

lemma doc_fields_kept:
  "gm_get (doc_fields (doc_map (kept_ops rg ops)) d) f =
     map_option Value (winner beforeHLC Timestamp (ops_on d f ops))"
proof (cases "winner beforeHLC Timestamp (ops_on d f ops)")
  case None
  then have "ops_on d f ops = []" by simp
  then have "ops_on d f (kept_ops rg ops) = []"
    using winners_subset [of ops] by (auto simp: ops_on_Nil_iff)
  then show ?thesis using None by (simp add: doc_fields_get)
next
  case (Some w)
  then show ?thesis using last_kept [OF Some] by (simp add: doc_fields_get)
qed

text \<open>The row written for one document, once all of them are written.\<close>

definition has_snapshot :: "string \<Rightarrow> string \<Rightarrow> string \<Rightarrow> json \<Rightarrow> database \<Rightarrow> bool" where
  "has_snapshot d u doc data db \<longleftrightarrow>
     (\<exists>rs. snapshots db = Some rs
       \<and> (\<exists>r \<in> set rs. snapshot_key r = (d, u, doc) \<and> sn_data r = data))"

lemma has_snapshot_same_content: "same_content db db' \<Longrightarrow> has_snapshot d u doc data db' = has_snapshot d u doc data db"
  by (simp add: has_snapshot_def same_contentD)

lemma WriteSnapshot_Inr:
  assumes "WriteSnapshot d u doc data w l dev db = (Inr x, db')"
  shows "has_snapshot d u doc data db'
    \<and> (\<forall>d' u' doc' data'. (d', u', doc') \<noteq> (d, u, doc) \<longrightarrow> has_snapshot d' u' doc' data' db
        \<longrightarrow> has_snapshot d' u' doc' data' db')"
proof -
  let ?r = "\<lparr>sn_dataset_id = d, sn_user_id = u, sn_doc_id = doc, sn_data = data,
    sn_wall_time = w, sn_logical = l, sn_device_id = dev, sn_created_at = 0\<rparr>"
  obtain db1 where 1: "same_content db db1" "replace_snapshot ?r db1 = (Inr x, db')"
    using assms unfolding WriteSnapshot_def wrapP_eq_Inr by (rule sql_Inr)
  then obtain rs where rs: "snapshots db1 = Some rs"
    by (auto simp: replace_snapshot_def split: option.splits)
  have "snapshots db' = Some (filter (\<lambda>x. snapshot_key x \<noteq> (d, u, doc)) rs @ [?r\<lparr>sn_created_at := db_now db1\<rparr>])"
    using 1(2) rs by (auto simp: replace_snapshot_def snapshot_key_def)
  moreover have "snapshots db = Some rs" using rs same_contentD(3) [OF 1(1)] by simp
  ultimately show ?thesis
    by (auto simp: has_snapshot_def snapshot_key_def)
qed

lemma write_snapshots_Inr:
  assumes "write_snapshots d u entries db = (Inr x, db')" "distinct (map fst entries)"
  shows "(\<forall>doc ds. (doc, ds) \<in> set entries \<longrightarrow> has_snapshot d u doc (to_json (GMap (st_fields ds))) db')
    \<and> (\<forall>doc data. doc \<notin> fst ` set entries \<longrightarrow> has_snapshot d u doc data db \<longrightarrow> has_snapshot d u doc data db')"
  using assms
proof (induction entries arbitrary: db)
  case (Cons e es)
  obtain doc ds where e: "e = (doc, ds)" by (cases e)
  obtain y db1 where j: "json_marshal (GMap (st_fields ds)) = Some (to_json (GMap (st_fields ds)))"
    and 1: "WriteSnapshot d u doc (to_json (GMap (st_fields ds))) (WallTime (st_hlc ds))
        (Logical (st_hlc ds)) (st_devID ds) db = (Inr y, db1)"
    and 2: "write_snapshots d u es db1 = (Inr x, db')"
    using Cons.prems(1) by (auto simp: e bindP_eq_Inr json_marshal_def split: option.splits if_splits)
  have nin: "doc \<notin> fst ` set es" "distinct (map fst es)" using Cons.prems(2) e by auto
  note IH = Cons.IH [OF 2 nin(2)]
  show ?case
    using WriteSnapshot_Inr [OF 1] IH nin(1) by (auto simp: e)
qed simp

lemma has_snapshot_ArchiveOps:
  assumes "ArchiveOps a u d db = (Inr x, db')"
  shows "snapshots db' = snapshots db"
  using ArchiveOps_Inr [OF assms] same_contentD(3) by fastforce

lemma has_snapshot_ReactivateOps:
  assumes "ReactivateOps a u d ops db = (Inr x, db')"
  shows "snapshots db' = snapshots db"
  using ReactivateOps_Inr [OF assms] same_contentD(3) by fastforce

lemma Compact_snapshots:
  assumes C: "Compact rg a u d db = (Inr x, db')" and doc: "doc \<in> DocID ` set (live_ops (log_of a u d db))"
  shows "\<exists>fm. has_snapshot d u doc (to_json (GMap fm)) db' \<and> gm_ok fm
    \<and> (\<forall>f. gm_get fm f = map_option Value (field_winner doc f (log_of a u d db)))"
proof -
  let ?ops = "live_ops (log_of a u d db)"
  let ?m = "doc_map (kept_ops rg ?ops)"
  obtain db1 db2 db3 where
    2: "write_snapshots d u (shuffle (rg_doc_states rg) ?m) db1 = (Inr (), db2)"
    and 3: "ArchiveOps a u d db2 = (Inr (), db3)"
    and 4: "kept_ops rg ?ops = [] \<and> db' = db3 \<or> kept_ops rg ?ops \<noteq> [] \<and> ReactivateOps a u d (kept_ops rg ?ops) db3 = (Inr (), db')"
    using C by (rule Compact_steps)
  have "fst ` (\<lambda>op. (DocID op, Field op)) ` winners ?ops = fst ` (\<lambda>op. (DocID op, Field op)) ` set ?ops"
    by (simp only: winners_keys)
  then have "doc \<in> DocID ` winners ?ops"
    using doc by (simp only: image_image fst_conv)
  then have "gm_get ?m doc \<noteq> None" unfolding doc_map_Some set_kept_ops .
  then obtain ds where ds: "gm_get ?m doc = Some ds" by blast
  then have "(doc, ds) \<in> set (shuffle (rg_doc_states rg) ?m)" by (auto dest: map_of_SomeD)
  then have "has_snapshot d u doc (to_json (GMap (st_fields ds))) db2"
    using write_snapshots_Inr [OF 2] gm_ok_doc_map by simp
  moreover have "snapshots db' = snapshots db2"
    using 4 has_snapshot_ArchiveOps [OF 3] has_snapshot_ReactivateOps by metis
  ultimately have "has_snapshot d u doc (to_json (GMap (st_fields ds))) db'"
    by (simp add: has_snapshot_def)
  moreover have "st_fields ds = doc_fields ?m doc" using ds by (simp add: doc_fields_def)
  ultimately show ?thesis
    using doc_fields_kept [of rg ?ops doc] gm_ok_doc_fields by (auto simp: field_winner_def)
qed

section \<open>Properties\<close>

lemma payload_compact_rows: "payload ` set (compact_rows K rows) = payload ` set rows"
proof -
  have "map payload (compact_rows K rows) = map payload rows"
    by (induction rows) (auto simp: compact_rows_def)
  then show ?thesis by (metis set_map)
qed

text \<open>
  C7: A compaction that succeeds changes no field a reader sees, loses no row of the log (the
  superseded ones stay, archived), and leaves exactly one active operation per field that
  had one with a positive time.
\<close>

theorem Compact_preserves_fields:
  assumes "log_ok (log_of a u d db)" "Compact rg a u d db = (Inr x, db')"
  shows "field_winner doc f (log_of a u d db') = field_winner doc f (log_of a u d db)
    \<and> payload ` set (log_of a u d db') = payload ` set (log_of a u d db)
    \<and> length (filter (\<lambda>r. row_status r = ''active'') (log_of a u d db'))
        = card ((\<lambda>op. (DocID op, Field op)) ` set (live_ops (log_of a u d db)))"
proof -
  let ?rows = "log_of a u d db" and ?K = "OpID ` winners (live_ops (log_of a u d db))"
  have log: "log_of a u d db' = compact_rows ?K ?rows" by (rule Compact_log [OF assms(2)])
  have "payload ` set (compact_rows ?K ?rows) = payload ` set ?rows"
    by (rule payload_compact_rows)
  then show ?thesis
    unfolding log
    using field_winner_compact [OF assms(1)] active_after_compact [OF assms(1)] card_winners by simp
qed

definition op_at :: "string \<Rightarrow> string \<Rightarrow> string \<Rightarrow> string \<Rightarrow> int \<Rightarrow> crdt_op" where
  "op_at oid doc f v t =
     \<lparr>OpID = oid, DocID = doc, Field = f, Value = GString v,
      Timestamp = \<lparr>WallTime = word_of_int t, Logical = 0, DeviceID = ''devA''\<rparr>, OpDeviceID = ''devA''\<rparr>"

definition three_ops :: "crdt_op list" where
  "three_ops = [op_at ''op1'' ''doc1'' ''name'' ''Alice'' 100, op_at ''op2'' ''doc1'' ''name'' ''Alicia'' 200,
                op_at ''op3'' ''doc1'' ''age'' ''30'' 150]"

definition three_ops_db :: database where
  "three_ops_db =
     set_rows (datasetTable ''app1'' ''user1'' ''ds1'')
       (map (\<lambda>op. op_to_row (to_json (Value op)) op) three_ops) (empty_db\<lparr>snapshots := Some []\<rparr>)"

lemma log_of_three_ops_db:
  "log_of ''app1'' ''user1'' ''ds1'' three_ops_db = map (\<lambda>op. op_to_row (to_json (Value op)) op) three_ops"
  by (simp add: three_ops_db_def log_of_def)

lemma log_ok_three_ops_db: "log_ok (log_of ''app1'' ''user1'' ''ds1'' three_ops_db)"
  by (simp add: log_of_three_ops_db log_ok_def three_ops_def op_at_def)

lemma write_snapshots_total:
  assumes "faults db = []" "snapshots db \<noteq> None"
    and "\<And>doc ds. (doc, ds) \<in> set es \<Longrightarrow> marshalable (GMap (st_fields ds))"
  shows "\<exists>db'. write_snapshots d u es db = (Inr (), db') \<and> faults db' = [] \<and> tables db' = tables db"
  using assms
proof (induction es arbitrary: db)
  case (Cons e es)
  obtain doc ds where e: "e = (doc, ds)" by (cases e)
  obtain rs where rs: "snapshots db = Some rs" using Cons.prems(2) by blast
  have m: "marshalable (GMap (st_fields ds))" using Cons.prems(3) [of doc ds] unfolding e by fastforce
  obtain db1 where w: "WriteSnapshot d u doc (to_json (GMap (st_fields ds))) (WallTime (st_hlc ds)) (Logical (st_hlc ds))
      (st_devID ds) db = (Inr (), db1)" "faults db1 = []" "snapshots db1 \<noteq> None" "tables db1 = tables db"
    using Cons.prems(1) rs by (simp add: WriteSnapshot_def wrapP_def replace_snapshot_def)
  have "\<exists>db'. write_snapshots d u es db1 = (Inr (), db') \<and> faults db' = [] \<and> tables db' = tables db1"
  proof (rule Cons.IH [OF w(2,3)])
    fix doc' ds'
    assume "(doc', ds') \<in> set es"
    then show "marshalable (GMap (st_fields ds'))"
      using Cons.prems(3) [of doc' ds'] unfolding e by fastforce
  qed
  then show ?case using w m by (simp add: e json_marshal_def)
qed simp

lemma live_ops_marshalable: "op \<in> set (live_ops rows) \<Longrightarrow> marshalable (Value op)"
  by (auto simp: set_live_ops)

lemma kept_marshalable: "op \<in> set (kept_ops rg (live_ops rows)) \<Longrightarrow> marshalable (Value op)"
  using winners_subset [of "live_ops rows"] live_ops_marshalable by auto

lemma doc_map_marshalable:
  assumes "(doc, ds) \<in> set (doc_map (kept_ops rg (live_ops rows)))"
  shows "marshalable (GMap (st_fields ds))"
proof -
  let ?m = "doc_map (kept_ops rg (live_ops rows))"
  have "gm_get ?m doc = Some ds" using assms gm_ok_doc_map by simp
  then have ds: "st_fields ds = doc_fields ?m doc" by (simp add: doc_fields_def)
  have "marshalable v" if "(f, v) \<in> set (doc_fields ?m doc)" for f v
  proof -
    have "gm_get (doc_fields ?m doc) f = Some v" using that gm_ok_doc_fields by simp
    then obtain w where w: "winner beforeHLC Timestamp (ops_on doc f (live_ops rows)) = Some w" "v = Value w"
      by (auto simp: doc_fields_kept)
    then show ?thesis using winner_ops_on_key [OF w(1)] live_ops_marshalable by blast
  qed
  then show ?thesis by (auto simp: ds list_all_iff)
qed

lemma Compact_total:
  assumes "faults db = []"
  shows "\<exists>db'. Compact rg a u d db = (Inr (), db') \<and> faults db' = []"
proof -
  obtain db1 where 1: "EnsureDataset a u d db = (Inr (), db1)" "faults db1 = []"
    using assms by (rule EnsureDataset_total)
  note e = EnsureDataset_Inr [OF 1(1)]
  let ?t = "datasetTable a u d" and ?rows = "log_of a u d db"
  let ?kept = "kept_ops rg (live_ops ?rows)"
  have t: "table_rows ?t db1 = Some ?rows" using e by (simp add: ensured_def)
  have q: "QueryOps a u d zero_hlc db1 = (Inr (live_ops ?rows), db1)"
    using QueryOps_total [OF 1(2) t] by (simp add: live_ops_def)
  have "snapshots db1 \<noteq> None" using e by (simp add: ensured_def)
  then obtain db2 where 2: "write_snapshots d u (shuffle (rg_doc_states rg) (doc_map ?kept)) db1 = (Inr (), db2)"
      "faults db2 = []" "tables db2 = tables db1"
    using write_snapshots_total [OF 1(2)] doc_map_marshalable by (metis set_shuffle)
  then have t2: "table_rows ?t db2 = Some ?rows" using t by (simp add: table_rows_def)
  let ?db3 = "set_rows ?t (map archive_row ?rows) db2"
  have 3: "ArchiveOps a u d db2 = (Inr (), ?db3)"
    using 2(2) t2 by (simp add: ArchiveOps_def)
  have "\<exists>db4. ReactivateOps a u d ?kept ?db3 = (Inr (), db4) \<and> faults db4 = []"
    unfolding ReactivateOps_def Let_def using 2(2) kept_marshalable by (intro tx_ops_total) auto
  then show ?thesis
    using 1 q 2 3 by (auto simp: Compact_def Let_def)
qed

theorem Compact_preserves_fields_witness:
  "\<exists>db'. Compact no_shuffle ''app1'' ''user1'' ''ds1'' three_ops_db = (Inr (), db')
     \<and> field_winner ''doc1'' ''name'' (log_of ''app1'' ''user1'' ''ds1'' db')
         = field_winner ''doc1'' ''name'' (log_of ''app1'' ''user1'' ''ds1'' three_ops_db)"
proof -
  have "faults three_ops_db = []" by (simp add: three_ops_db_def empty_db_def)
  then obtain db' where C: "Compact no_shuffle ''app1'' ''user1'' ''ds1'' three_ops_db = (Inr (), db')"
    using Compact_total by blast
  then show ?thesis
    using Compact_preserves_fields [OF log_ok_three_ops_db C] by blast
qed

text \<open>
  C26: A compaction that succeeds stores, for every document with a live operation, a snapshot
  that holds exactly the winning value of every field of the document.
\<close>

theorem Compact_snapshots_hold_winners:
  assumes "Compact rg a u d db = (Inr x, db')" "op \<in> set (live_ops (log_of a u d db))"
  shows "\<exists>fm. has_snapshot d u (DocID op) (to_json (GMap fm)) db' \<and> gm_ok fm
    \<and> (\<forall>f. gm_get fm f = map_option Value (field_winner (DocID op) f (log_of a u d db)))"
  using assms(2) by (intro Compact_snapshots [OF assms(1)]) simp

lemma op_at_sel [simp]:
  "OpID (op_at i doc f v t) = i" "DocID (op_at i doc f v t) = doc" "Field (op_at i doc f v t) = f"
  "Value (op_at i doc f v t) = GString v" "OpDeviceID (op_at i doc f v t) = ''devA''"
  "Timestamp (op_at i doc f v t) = \<lparr>WallTime = word_of_int t, Logical = 0, DeviceID = ''devA''\<rparr>"
  by (simp_all add: op_at_def)

lemma live_three_ops:
  "live_ops (log_of ''app1'' ''user1'' ''ds1'' three_ops_db)
     = [op_at ''op1'' ''doc1'' ''name'' ''Alice'' 100, op_at ''op3'' ''doc1'' ''age'' ''30'' 150,
        op_at ''op2'' ''doc1'' ''name'' ''Alicia'' 200]"
  by (simp add: log_of_three_ops_db three_ops_def live_ops_def select_ops_def after_cursor_def row_order_def
      row_to_op_def less_prod_simp less_eq_prod_simp op_at_def op_to_row_def)

lemma faults_three_ops_db [simp]: "faults three_ops_db = []"
  by (simp add: three_ops_db_def empty_db_def)

theorem Compact_snapshots_hold_winners_witness:
  "\<exists>db' fm. Compact no_shuffle ''app1'' ''user1'' ''ds1'' three_ops_db = (Inr (), db')
     \<and> has_snapshot ''ds1'' ''user1'' ''doc1'' (to_json (GMap fm)) db'
     \<and> gm_get fm ''name'' = Some (GString ''Alicia'')"
proof -
  obtain db' where C: "Compact no_shuffle ''app1'' ''user1'' ''ds1'' three_ops_db = (Inr (), db')"
    using Compact_total [OF faults_three_ops_db] by blast
  let ?op = "op_at ''op1'' ''doc1'' ''name'' ''Alice'' 100"
  have op: "?op \<in> set (live_ops (log_of ''app1'' ''user1'' ''ds1'' three_ops_db))"
    by (simp add: live_three_ops)
  have "field_winner ''doc1'' ''name'' (log_of ''app1'' ''user1'' ''ds1'' three_ops_db)
      = Some (op_at ''op2'' ''doc1'' ''name'' ''Alicia'' 200)"
    by (simp add: field_winner_def live_three_ops ops_on_def winner_def pick_def beforeHLC_def)
  then show ?thesis
    using Compact_snapshots_hold_winners [OF C op] C by fastforce
qed

interpretation content_rel: statement_relation same_content
  by unfold_locales (simp_all add: same_content_def)

lemma QueryOps_content: "QueryOps a u d since db = (r, db') \<Longrightarrow> same_content db db'"
proof -
  assume q: "QueryOps a u d since db = (r, db')"
  have "keeps same_content (QueryOps a u d since)"
    unfolding QueryOps_def Let_def
    by (intro content_rel.keeps_bind_R keeps_wrapP content_rel.keeps_sql_R content_rel.keeps_read_R
        content_rel.keeps_ret_R)
  then show ?thesis using q by (rule keepsD')
qed

lemma ArchiveOps_Inl: "ArchiveOps a u d db = (Inl e, db') \<Longrightarrow> same_content db db'"
  by (cases rule: sql_cases [of "on_table (datasetTable a u d) (\<lambda>rows. ((), map archive_row rows))" db])
    (auto simp: ArchiveOps_def wrapP_eq_Inl on_table_def split: option.splits)

lemma ReactivateOps_Inl: "ReactivateOps a u d ops db = (Inl e, db') \<Longrightarrow> same_content db db'"
  unfolding ReactivateOps_def Let_def by (rule with_tx_Inl)

text \<open>
  A compaction that fails leaves the log either as it was or with every operation
  archived: the second when the statement that archives ran and the transaction that
  reactivates the winners did not.
\<close>

theorem Compact_failure:
  assumes "Compact rg a u d db = (Inl e, db')"
  shows "log_of a u d db' = log_of a u d db \<or> log_of a u d db' = map archive_row (log_of a u d db)"
proof -
  note same = EnsureDataset_log QueryOps_content [THEN log_of_same_content]
    keepsD' [OF log_same_write_snapshots, unfolded log_same_def]
  let ?kept = "kept_ops rg"
  consider e' where "EnsureDataset a u d db = (Inl e', db')"
    | y db1 e' where "EnsureDataset a u d db = (Inr y, db1)" "QueryOps a u d zero_hlc db1 = (Inl e', db')"
    | y db1 ops db2 where "EnsureDataset a u d db = (Inr y, db1)" "QueryOps a u d zero_hlc db1 = (Inr ops, db2)"
        "write_snapshots d u (shuffle (rg_doc_states rg) (doc_map (?kept ops))) db2 = (Inl e, db')"
    | y db1 ops db2 z db3 e' where "EnsureDataset a u d db = (Inr y, db1)" "QueryOps a u d zero_hlc db1 = (Inr ops, db2)"
        "write_snapshots d u (shuffle (rg_doc_states rg) (doc_map (?kept ops))) db2 = (Inr z, db3)"
        "ArchiveOps a u d db3 = (Inl e', db')"
    | y db1 ops db2 z db3 v db4 e' where "EnsureDataset a u d db = (Inr y, db1)"
        "QueryOps a u d zero_hlc db1 = (Inr ops, db2)"
        "write_snapshots d u (shuffle (rg_doc_states rg) (doc_map (?kept ops))) db2 = (Inr z, db3)"
        "ArchiveOps a u d db3 = (Inr v, db4)" "ReactivateOps a u d (?kept ops) db4 = (Inl e', db')"
    using assms
    by (auto simp: Compact_def Let_def bindP_eq_Inl wrapP_eq_Inl split: if_splits)
  then show ?thesis
  proof cases
    case 1
    then show ?thesis using same(1) by blast
  next
    case 2
    then show ?thesis using same(1,2) by metis
  next
    case 3
    then show ?thesis using same by metis
  next
    case 4
    then show ?thesis using same log_of_same_content [OF ArchiveOps_Inl] by metis
  next
    case 5
    have "log_of a u d db3 = log_of a u d db" using same 5(1-3) by metis
    moreover have "log_of a u d db4 = map archive_row (log_of a u d db3)"
    proof -
      obtain rows where "table_rows (datasetTable a u d) db3 = Some rows"
        "same_content (set_rows (datasetTable a u d) (map archive_row rows) db3) db4"
        using ArchiveOps_Inr [OF 5(4)] by blast
      then show ?thesis by (simp add: log_of_def table_rows_same_content)
    qed
    ultimately show ?thesis using log_of_same_content [OF ReactivateOps_Inl [OF 5(5)]] by simp
  qed
qed

text \<open>The eight statements of the compaction run, the transaction that reactivates does not begin.\<close>

definition interrupted_db :: database where
  "interrupted_db = three_ops_db\<lparr>faults := replicate 8 False @ [True]\<rparr>"

definition interrupted_outcome :: "(err + unit) \<times> database" where
  "interrupted_outcome = Compact no_shuffle ''app1'' ''user1'' ''ds1'' interrupted_db"

lemma interrupted_fst:
  "fst interrupted_outcome = Inl (Wrap ''Compact reactivate winners'' (Wrap ''begin tx'' ErrDriver))"
  by code_simp

theorem Compact_failure_witness:
  "log_of ''app1'' ''user1'' ''ds1'' (snd interrupted_outcome)
     \<in> {log_of ''app1'' ''user1'' ''ds1'' interrupted_db,
        map archive_row (log_of ''app1'' ''user1'' ''ds1'' interrupted_db)}"
proof -
  have "Compact no_shuffle ''app1'' ''user1'' ''ds1'' interrupted_db
      = (Inl (Wrap ''Compact reactivate winners'' (Wrap ''begin tx'' ErrDriver)), snd interrupted_outcome)"
    using interrupted_fst by (simp add: interrupted_outcome_def prod_eq_iff)
  from Compact_failure [OF this] show ?thesis by blast
qed


text \<open>
  An operation whose time is not after the zero time (\<open>WallTime\<close> zero and \<open>Logical\<close> zero, or
  a negative \<open>WallTime\<close>) is accepted by the log, never enters a snapshot or a compaction's winners,
  and a compaction archives it: it is lost to every later reader.
\<close>

theorem Compact_drops_nonpositive_times:
  assumes "log_ok (log_of a u d db)" "r \<in> set (log_of a u d db)" "row_time r \<le> (0, 0)"
    and "Compact rg a u d db = (Inr x, db')"
  shows "row_to_op r \<notin> set (live_ops (log_of a u d db)) \<and> archive_row r \<in> set (log_of a u d db')"
proof -
  let ?rows = "log_of a u d db"
  have n: "\<not> after_cursor zero_hlc r"
    using assms(3) by (simp add: after_cursor_iff hlc_time_def not_less)
  then have "row_op_id r \<notin> OpID ` winners (live_ops ?rows)"
    using row_is_winner [OF assms(1,2)] by blast
  then have "archive_row r \<in> set (log_of a u d db')"
    using assms(2) unfolding Compact_log [OF assms(4)] compact_rows_def by force
  moreover have "row_to_op r \<notin> set (live_ops ?rows)"
  proof
    assume "row_to_op r \<in> set (live_ops ?rows)"
    then obtain r' where r': "r' \<in> set ?rows" "after_cursor zero_hlc r'" "row_to_op r = row_to_op r'"
      by (auto simp: set_live_ops)
    then have "row_op_id r = row_op_id r'" by (metis row_to_op_sel(1))
    then have "r = r'" using log_ok_same_id [OF assms(1,2) r'(1)] by blast
    then show False using r'(2) n by blast
  qed
  ultimately show ?thesis by blast
qed

definition zero_time_db :: database where
  "zero_time_db = set_rows (datasetTable ''app1'' ''user1'' ''ds1'')
     [op_to_row (JString ''x'') (op_at ''op0'' ''doc1'' ''name'' ''x'' 0)] (empty_db\<lparr>snapshots := Some []\<rparr>)"

theorem Compact_drops_nonpositive_times_witness:
  "\<exists>db'. Compact no_shuffle ''app1'' ''user1'' ''ds1'' zero_time_db = (Inr (), db')
     \<and> archive_row (op_to_row (JString ''x'') (op_at ''op0'' ''doc1'' ''name'' ''x'' 0))
         \<in> set (log_of ''app1'' ''user1'' ''ds1'' db')"
proof -
  let ?r = "op_to_row (JString ''x'') (op_at ''op0'' ''doc1'' ''name'' ''x'' 0)"
  have l: "log_of ''app1'' ''user1'' ''ds1'' zero_time_db = [?r]"
    by (simp add: zero_time_db_def log_of_def)
  have "faults zero_time_db = []" by (simp add: zero_time_db_def empty_db_def)
  then obtain db' where C: "Compact no_shuffle ''app1'' ''user1'' ''ds1'' zero_time_db = (Inr (), db')"
    using Compact_total by blast
  have "log_ok [?r]" by (simp add: log_ok_def)
  moreover have "row_time ?r \<le> (0, 0)" by (simp add: row_time_def)
  ultimately show ?thesis
    using Compact_drops_nonpositive_times [OF _ _ _ C, of ?r] C l by simp
qed

end
