(* ===== verification/Backend_Runs.thy ===== *)
theory Backend_Runs
  imports Compaction
begin

text \<open>
  Sequences of backend calls.  \<open>backend_run\<close> is the reachability relation of the backend:
  any calls on any datasets, each succeeding or failing as the driver decides, with the
  clock and the schedule of errors of the environment changing in between.  The theory
  proves what every run keeps, what a push and the delta after it give, and that pushes and
  compactions together implement the last-writer-wins specification over everything that was
  pushed.
\<close>

section \<open>Runs\<close>

datatype backend_call =
    DoMerge string string string "crdt_op list"
  | DoDelta string string string hlc
  | DoSnapshot ranges string string string
  | DoCount string string string
  | DoCompact ranges string string string
  | DoVersion string string

definition voidP :: "('s, 'e, 'a) prog \<Rightarrow> ('s, 'e, unit) prog" where
  "voidP m = bindP m (\<lambda>_. retP ())"

fun backend_do :: "backend_call \<Rightarrow> unit dbprog" where
  "backend_do (DoMerge a u d ops) = MergeOps a u d ops"
| "backend_do (DoDelta a u d since) = voidP (GetDelta a u d since)"
| "backend_do (DoSnapshot rg a u d) = voidP (GetSnapshot rg a u d)"
| "backend_do (DoCount a u d) = voidP (OpCount a u d)"
| "backend_do (DoCompact rg a u d) = Compact rg a u d"
| "backend_do (DoVersion a d) = voidP (SchemaVersion a d)"

text \<open>The table a call works on.\<close>

fun call_table :: "backend_call \<Rightarrow> string option" where
  "call_table (DoMerge a u d ops) = Some (table_key (datasetTable a u d))"
| "call_table (DoDelta a u d since) = Some (table_key (datasetTable a u d))"
| "call_table (DoSnapshot rg a u d) = Some (table_key (datasetTable a u d))"
| "call_table (DoCount a u d) = Some (table_key (datasetTable a u d))"
| "call_table (DoCompact rg a u d) = Some (table_key (datasetTable a u d))"
| "call_table (DoVersion a d) = None"

text \<open>A trace holds each call with the fact whether it succeeded.\<close>

type_synonym trace = "(backend_call \<times> bool) list"

inductive backend_run :: "database \<Rightarrow> trace \<Rightarrow> database \<Rightarrow> bool" where
  run_start: "backend_run db [] db"
| run_call: "backend_run db tr db1 \<Longrightarrow> backend_do c db1 = (r, db2) \<Longrightarrow>
     backend_run db (tr @ [(c, \<not> isl r)]) db2"
| run_env: "backend_run db tr db1 \<Longrightarrow> backend_run db tr (db1\<lparr>faults := fs, db_now := t\<rparr>)"

section \<open>What every run keeps\<close>

lemma snd_voidP [simp]: "snd (voidP m s) = snd (m s)"
  by (cases "m s"; cases "fst (m s)") (simp_all add: voidP_def)

lemma keeps_voidP: "keeps R m \<Longrightarrow> keeps R (voidP m)"
  by (simp add: keeps_def)

lemma SchemaVersion_content: "keeps same_content (SchemaVersion a d)"
  using GetSchemaVersion_content by (simp add: keeps_def SchemaVersion_def) (metis surjective_pairing)

lemma keeps_weaken: "keeps R m \<Longrightarrow> (\<And>s s'. R s s' \<Longrightarrow> R' s s') \<Longrightarrow> keeps R' m"
  by (simp add: keeps_def)

lemma same_content_durable: "same_content db db' \<Longrightarrow> durable db db'"
  using reflpD [OF reflp_durable] by (simp add: durable_def same_contentD)

lemma same_content_ok_step: "same_content db db' \<Longrightarrow> ok_step db db'"
  by (simp add: ok_step_def db_ok_def same_contentD)

lemma backend_do_durable: "keeps durable (backend_do c)"
  by (cases c) (simp_all add: keeps_voidP durable_inv.MergeOps_keeps durable_inv.GetDelta_keeps
      durable_inv.GetSnapshot_keeps durable_inv.OpCount_keeps durable_inv.Compact_keeps
      keeps_weaken [OF SchemaVersion_content] same_content_durable)

lemma backend_do_ok: "keeps ok_step (backend_do c)"
  by (cases c) (simp_all add: keeps_voidP ok_inv.MergeOps_keeps ok_inv.GetDelta_keeps
      ok_inv.GetSnapshot_keeps ok_inv.OpCount_keeps ok_inv.Compact_keeps
      keeps_weaken [OF SchemaVersion_content] same_content_ok_step)

definition other_table :: "string \<Rightarrow> database \<Rightarrow> database \<Rightarrow> bool" where
  "other_table k db db' \<longleftrightarrow> tables db' k = tables db k"

lemma frame_other_table: "frame_other tbl db db' \<Longrightarrow> table_key tbl \<noteq> k \<Longrightarrow> other_table k db db'"
  by (auto simp: frame_other_def other_table_def)

lemma backend_do_other: "call_table c \<noteq> Some k \<Longrightarrow> keeps (other_table k) (backend_do c)"
  by (cases c) (auto intro!: keeps_voidP
      intro: keeps_weaken [OF frame_inv.MergeOps_keeps] keeps_weaken [OF frame_inv.GetDelta_keeps]
        keeps_weaken [OF frame_inv.GetSnapshot_keeps] keeps_weaken [OF frame_inv.OpCount_keeps]
        keeps_weaken [OF frame_inv.Compact_keeps] keeps_weaken [OF SchemaVersion_content] frame_other_table
      simp: other_table_def same_contentD)

lemma run_keeps:
  assumes "backend_run db tr db'" and "reflp R" "transp R"
    and "\<And>c. c \<in> fst ` set tr \<Longrightarrow> keeps R (backend_do c)"
    and env: "\<And>s fs t. R s (s\<lparr>faults := fs, db_now := t\<rparr>)"
  shows "R db db'"
  using assms(1,4)
proof (induction rule: backend_run.induct)
  case (run_start db)
  show ?case using assms(2) by (rule reflpD)
next
  case (run_call db tr db1 c r db2)
  have "R db db1" using run_call by simp
  moreover have "keeps R (backend_do c)" using run_call.prems by simp
  then have "R db1 db2" using run_call.hyps(2) by (rule keepsD')
  ultimately show ?case using assms(3) by (blast dest: transpD)
next
  case (run_env db tr db1 fs t)
  then have "R db db1" by blast
  then show ?case using env assms(3) by (blast dest: transpD)
qed

text \<open>
  Over any run of the backend, with any errors of the driver, no operation of any log
  disappears (only its status may change), operation ids stay unique in every log, and at
  most one snapshot is stored per document.
\<close>

theorem backend_run_invariant:
  assumes "backend_run db tr db'" "db_ok db"
  shows "db_ok db' \<and> durable db db'"
proof -
  have "ok_step db db'"
    by (rule run_keeps [OF assms(1) reflp_ok_step transp_ok_step backend_do_ok])
      (simp add: ok_step_def db_ok_def)
  moreover have "durable db db'"
    by (rule run_keeps [OF assms(1) reflp_durable transp_durable backend_do_durable])
      (simp add: durable_def)
  ultimately show ?thesis using assms(2) by (simp add: ok_step_def)
qed

lemma db_ok_empty [simp]: "db_ok empty_db"
  by (simp add: db_ok_def empty_db_def)

theorem backend_run_invariant_witness:
  "\<exists>db'. backend_run empty_db [(DoMerge ''app1'' ''user1'' ''ds1'' three_ops, True)] db'
     \<and> db_ok db' \<and> durable empty_db db'"
proof -
  have "\<exists>db'. MergeOps ''app1'' ''user1'' ''ds1'' three_ops empty_db = (Inr (), db') \<and> faults db' = []"
    by (rule MergeOps_total) (simp_all add: empty_db_def three_ops_def)
  then obtain db' where m: "backend_do (DoMerge ''app1'' ''user1'' ''ds1'' three_ops) empty_db = (Inr (), db')"
    by auto
  have "backend_run empty_db ([] @ [(DoMerge ''app1'' ''user1'' ''ds1'' three_ops, \<not> isl (Inr () :: err + unit))]) db'"
    by (rule run_call [OF run_start m])
  then have r: "backend_run empty_db [(DoMerge ''app1'' ''user1'' ''ds1'' three_ops, True)] db'" by simp
  with backend_run_invariant [OF r db_ok_empty] show ?thesis by blast
qed

text \<open>
  Tenants are isolated as far as their table names differ: a run whose calls all name
  other tables changes nothing in a dataset's log.
\<close>

theorem backend_run_isolation:
  assumes "backend_run db tr db'"
    and "\<forall>c \<in> fst ` set tr. call_table c \<noteq> Some (table_key (datasetTable a u d))"
  shows "log_of a u d db' = log_of a u d db"
proof -
  have "other_table (table_key (datasetTable a u d)) db db'"
  proof (rule run_keeps [OF assms(1)])
    fix c
    assume "c \<in> fst ` set tr"
    then show "keeps (other_table (table_key (datasetTable a u d))) (backend_do c)"
      using assms(2) by (intro backend_do_other) blast
  qed (simp_all add: other_table_def reflp_def transp_def)
  then show ?thesis by (simp add: other_table_def log_of_def table_rows_def)
qed

theorem backend_run_isolation_witness:
  "\<exists>db'. backend_run three_ops_db [(DoCompact no_shuffle ''app1'' ''user2'' ''ds1'', True)] db'
     \<and> log_of ''app1'' ''user1'' ''ds1'' db' = log_of ''app1'' ''user1'' ''ds1'' three_ops_db"
proof -
  obtain db' where "backend_do (DoCompact no_shuffle ''app1'' ''user2'' ''ds1'') three_ops_db = (Inr (), db')"
    using Compact_total [OF faults_three_ops_db] by (metis backend_do.simps(5))
  from run_call [OF run_start this]
  have r: "backend_run three_ops_db [(DoCompact no_shuffle ''app1'' ''user2'' ''ds1'', True)] db'" by simp
  have "table_key (datasetTable ''app1'' ''user2'' ''ds1'') \<noteq> table_key (datasetTable ''app1'' ''user1'' ''ds1'')"
    by code_simp
  then have "log_of ''app1'' ''user1'' ''ds1'' db' = log_of ''app1'' ''user1'' ''ds1'' three_ops_db"
    by (intro backend_run_isolation [OF r]) simp
  then show ?thesis using r by blast
qed

section \<open>Pushes and compactions implement last-writer-wins\<close>

text \<open>The operation a reader gets back for one that was pushed.\<close>

definition row_of :: "crdt_op \<Rightarrow> op_row" where
  "row_of op = op_to_row (to_json (Value op)) op"

definition stored_op :: "crdt_op \<Rightarrow> crdt_op" where
  "stored_op op = row_to_op (row_of op)"

definition after_zero :: "crdt_op \<Rightarrow> bool" where
  "after_zero op \<longleftrightarrow> (0, 0) < hlc_time (Timestamp op)"

lemma row_of_sel [simp]:
  "row_op_id (row_of op) = OpID op" "row_status (row_of op) = ''active''"
  "row_time (row_of op) = hlc_time (Timestamp op)" "row_device_id (row_of op) = OpDeviceID op"
  by (simp_all add: row_of_def row_time_def hlc_time_def)

lemma stored_op_sel [simp]:
  "OpID (stored_op op) = OpID op" "DocID (stored_op op) = DocID op" "Field (stored_op op) = Field op"
  "Value (stored_op op) = stored_value (Value op)"
  "hlc_time (Timestamp (stored_op op)) = hlc_time (Timestamp op)"
  by (simp_all add: stored_op_def row_of_def stored_value_def row_time_def hlc_time_def)

lemma stored_op_eq:
  "DeviceID (Timestamp op) = OpDeviceID op \<Longrightarrow> stored_op op = op\<lparr>Value := stored_value (Value op)\<rparr>"
  by (simp add: stored_op_def row_of_def row_to_op_def stored_value_def op_to_row_def)

lemma row_to_op_payload: "payload r = payload r' \<Longrightarrow> row_to_op r = row_to_op r'"
  by (metis payload_def row_to_op_update)

text \<open>
  The abstraction: a log refines a list of pushed operations when its rows are theirs, none
  of their ids is missing, and every one of them is live or superseded by a live one.
\<close>

definition covered :: "op_row list \<Rightarrow> crdt_op \<Rightarrow> bool" where
  "covered rows op \<longleftrightarrow>
     (\<exists>w \<in> set (live_ops rows). DocID w = DocID op \<and> Field w = Field op
        \<and> Timestamp (stored_op op) \<le> Timestamp w)"

definition refines :: "crdt_op list \<Rightarrow> op_row list \<Rightarrow> bool" where
  "refines P rows \<longleftrightarrow>
     log_ok rows
     \<and> (\<forall>r \<in> set rows. \<exists>op \<in> set P. payload r = payload (row_of op))
     \<and> OpID ` set P \<subseteq> row_op_id ` set rows
     \<and> (\<forall>op \<in> set P. after_zero op \<longrightarrow> covered rows op)"

text \<open>The specification: the winner of a field among all operations ever pushed.\<close>

definition pushed_winner :: "string \<Rightarrow> string \<Rightarrow> crdt_op list \<Rightarrow> crdt_op option" where
  "pushed_winner doc f P =
     winner Before Timestamp (ops_on doc f (map stored_op (filter after_zero P)))"

definition pushes_ok :: "crdt_op list \<Rightarrow> bool" where
  "pushes_ok P \<longleftrightarrow> inj_on OpID (set P) \<and> field_stamps_unique (stored_op ` set P)"

lemma pushes_ok_append: "pushes_ok (P @ Q) \<Longrightarrow> pushes_ok P"
  by (auto simp: pushes_ok_def field_stamps_unique_def intro: inj_on_subset)

lemma live_ops_of_pushed:
  assumes "refines P rows" "w \<in> set (live_ops rows)"
  shows "\<exists>op \<in> set P. after_zero op \<and> w = stored_op op"
proof -
  obtain r where r: "r \<in> set rows" "after_cursor zero_hlc r" "w = row_to_op r"
    using assms(2) by (auto simp: set_live_ops)
  obtain op where op: "op \<in> set P" "payload r = payload (row_of op)"
    using assms(1) r(1) by (auto simp: refines_def)
  have w: "w = stored_op op" using r(3) row_to_op_payload [OF op(2)] by (simp add: stored_op_def)
  have "row_time r = row_time (row_of op)"
    using op(2) by (metis Timestamp_row_to_op hlc_time_row_stamp row_to_op_payload)
  then have "after_zero op" using r(2) by (simp add: after_cursor_iff after_zero_def hlc_time_def)
  then show ?thesis using op(1) w by blast
qed

lemma refines_winner:
  assumes "refines P rows" "pushes_ok P"
  shows "field_winner doc f rows = pushed_winner doc f P"
proof -
  let ?live = "ops_on doc f (live_ops rows)" and ?all = "ops_on doc f (map stored_op (filter after_zero P))"
  have "set ?live \<subseteq> set ?all"
    using live_ops_of_pushed [OF assms(1)] by fastforce
  moreover have "stamps_unique Timestamp (set ?all)"
    using assms(2) by (intro field_stamps_unique_on)
      (auto simp: pushes_ok_def elim: field_stamps_unique_subset)
  moreover have "\<exists>x \<in> set ?live. \<not> Before (Timestamp x) (Timestamp y)" if y: "y \<in> set ?all" for y
  proof -
    obtain op where op: "op \<in> set P" "after_zero op" "y = stored_op op" "DocID op = doc" "Field op = f"
      using y by auto
    then obtain w where "w \<in> set (live_ops rows)" "DocID w = doc" "Field w = f" "Timestamp y \<le> Timestamp w"
      using assms(1) unfolding refines_def covered_def by metis
    then show ?thesis by (intro bexI [of _ w]) (auto simp: Before_iff_less not_less)
  qed
  ultimately show ?thesis
    unfolding field_winner_def pushed_winner_def beforeHLC_Before by (rule lww_Before.winner_dominated)
qed

lemma refines_Nil [simp]: "refines [] []"
  by (simp add: refines_def log_ok_def)

lemma live_ops_mono: "set rows \<subseteq> set rows' \<Longrightarrow> set (live_ops rows) \<subseteq> set (live_ops rows')"
  by (auto simp: set_live_ops)

lemma row_of_live:
  assumes "after_zero op" "row_of op \<in> set rows"
  shows "stored_op op \<in> set (live_ops rows)"
proof -
  have "after_cursor zero_hlc (row_of op)"
    using assms(1) by (intro after_cursor_time) (simp_all add: after_zero_def hlc_time_def)
  then show ?thesis using assms(2) by (simp add: set_live_ops stored_op_def)
qed

lemma covered_mono: "covered rows op \<Longrightarrow> set rows \<subseteq> set rows' \<Longrightarrow> covered rows' op"
  unfolding covered_def by (meson live_ops_mono subsetD)

lemma covered_self: "after_zero op \<Longrightarrow> row_of op \<in> set rows \<Longrightarrow> covered rows op"
  unfolding covered_def by (rule bexI [OF _ row_of_live]) simp_all

text \<open>A pushed id that the log knows is that of an operation pushed before.\<close>

lemma refines_known_id:
  assumes "refines P rows" "OpID op \<in> row_op_id ` set rows"
  shows "\<exists>op' \<in> set P. OpID op' = OpID op"
proof -
  obtain r where r: "r \<in> set rows" "row_op_id r = OpID op" using assms(2) by force
  obtain op' where op': "op' \<in> set P" "payload r = payload (row_of op')"
    using assms(1) r(1) by (auto simp: refines_def)
  have "row_op_id (payload r) = row_op_id (payload (row_of op'))" using op'(2) by simp
  then show ?thesis using op'(1) r(2) by (simp only: payload_sel row_of_sel) metis
qed

lemma covered_push:
  assumes P: "refines P rows" and inj: "inj_on OpID (set P \<union> set ops)"
    and op: "op \<in> set P \<union> set ops" "after_zero op"
  shows "covered (apply_ops insert_ignore ops rows) op"
proof -
  have old: "covered (apply_ops insert_ignore ops rows) op" if "op \<in> set P"
    using P that op(2) by (intro covered_mono [OF _ apply_insert_keeps_rows]) (simp add: refines_def)
  show ?thesis
  proof (cases "OpID op \<in> row_op_id ` set rows")
    case True
    then obtain op' where "op' \<in> set P" "OpID op' = OpID op" using refines_known_id [OF P] by blast
    then have "op \<in> set P" using inj_onD [OF inj, of op' op] op(1) by simp
    then show ?thesis by (rule old)
  next
    case False
    have "inj_on OpID (set ops)" using inj by (rule inj_on_subset) simp
    then have "row_of op \<in> set (apply_ops insert_ignore ops rows)" if "op \<in> set ops"
      unfolding row_of_def using apply_insert_new [OF that False] by blast
    then show ?thesis using old op covered_self by blast
  qed
qed

lemma refines_push:
  assumes P: "refines P rows" and ok: "pushes_ok (P @ ops)"
  shows "refines (P @ ops) (apply_ops insert_ignore ops rows)"
proof -
  let ?rows = "apply_ops insert_ignore ops rows"
  have rows: "set ?rows \<subseteq> set rows \<union> row_of ` set ops"
    using apply_insert_rows by (simp add: row_of_def)
  have inj: "inj_on OpID (set P \<union> set ops)" using ok by (simp add: pushes_ok_def)
  have "\<exists>op \<in> set (P @ ops). payload r = payload (row_of op)" if r: "r \<in> set ?rows" for r
  proof (cases "r \<in> set rows")
    case True
    then show ?thesis using P by (auto simp: refines_def)
  next
    case False
    then show ?thesis using rows r by auto
  qed
  moreover have "log_ok ?rows" using P log_ok_apply_insert by (simp add: refines_def)
  moreover have "OpID ` set (P @ ops) \<subseteq> row_op_id ` set ?rows"
    using P by (auto simp: refines_def row_op_ids_apply_insert)
  ultimately show ?thesis
    using covered_push [OF P inj] by (simp add: refines_def)
qed

lemma log_ok_compact_rows:
  assumes "log_ok rows"
  shows "log_ok (compact_rows K rows)"
proof -
  have "\<forall>x \<in> set (compact_rows K rows). row_status x \<in> {''active'', ''archived''}"
    using assms by (auto simp: log_ok_def compact_rows_def archive_row_def)
  then show ?thesis using assms by (simp only: log_ok_def row_op_id_compact_rows)
qed

lemma covered_compact:
  assumes "log_ok rows" "covered rows op"
  shows "covered (compact_rows (OpID ` winners (live_ops rows)) rows) op"
proof -
  obtain v where v: "v \<in> set (live_ops rows)" "DocID v = DocID op" "Field v = Field op"
      "Timestamp (stored_op op) \<le> Timestamp v"
    using assms(2) by (auto simp: covered_def)
  let ?on = "ops_on (DocID op) (Field op) (live_ops rows)"
  have von: "v \<in> set ?on" using v by simp
  then have "winner beforeHLC Timestamp ?on \<noteq> None" by (metis empty_iff list.set(1) winner_eq_None)
  then obtain w where w: "winner beforeHLC Timestamp ?on = Some w" by blast
  have k: "DocID w = DocID op" "Field w = Field op" using winner_ops_on_key [OF w] by simp_all
  have "\<not> beforeHLC (Timestamp w) (Timestamp v)" using lww_beforeHLC.winner_max [OF w von] .
  then have "Timestamp v \<le> Timestamp w" by (simp add: beforeHLC_Before Before_iff_less not_less)
  then have le: "Timestamp (stored_op op) \<le> Timestamp w" using v(4) by (rule order_trans [rotated])
  have "w \<in> winners (live_ops rows)" using w k by (simp add: winners_def)
  then show ?thesis
    unfolding covered_def live_after_compact [OF assms(1)] using k le by blast
qed

lemma refines_compact:
  assumes P: "refines P rows"
  shows "refines P (compact_rows (OpID ` winners (live_ops rows)) rows)"
proof -
  let ?rows = "compact_rows (OpID ` winners (live_ops rows)) rows"
  have ok: "log_ok rows" using P by (simp add: refines_def)
  have "\<exists>op \<in> set P. payload r = payload (row_of op)" if "r \<in> set ?rows" for r
  proof -
    have "payload r \<in> payload ` set ?rows" using that by (rule imageI)
    then have "payload r \<in> payload ` set rows" unfolding payload_compact_rows .
    then obtain r' where "r' \<in> set rows" "payload r = payload r'" by (rule imageE)
    then show ?thesis using P by (auto simp: refines_def)
  qed
  moreover have "row_op_id ` set ?rows = row_op_id ` set rows"
    unfolding set_map [symmetric] row_op_id_compact_rows ..
  ultimately show ?thesis
    using P covered_compact [OF ok] log_ok_compact_rows [OF ok] by (simp add: refines_def)
qed

text \<open>What a trace pushed into a table, and whether a compaction of it failed.\<close>

fun pushes :: "string \<Rightarrow> backend_call \<times> bool \<Rightarrow> crdt_op list" where
  "pushes k (DoMerge a u d ops, True) = (if table_key (datasetTable a u d) = k then ops else [])"
| "pushes k e = []"

definition pushed :: "string \<Rightarrow> trace \<Rightarrow> crdt_op list" where
  "pushed k tr = concat (map (pushes k) tr)"

fun failed_compaction :: "string \<Rightarrow> backend_call \<times> bool \<Rightarrow> bool" where
  "failed_compaction k (DoCompact rg a u d, False) = (table_key (datasetTable a u d) = k)"
| "failed_compaction k e = False"

lemma pushed_simps [simp]: "pushed k [] = []" "pushed k (tr @ [e]) = pushed k tr @ pushes k e"
  by (simp_all add: pushed_def)

lemma pushes_other: "call_table c \<noteq> Some k \<Longrightarrow> pushes k (c, ok) = []"
  by (cases "(k, (c, ok))" rule: pushes.cases) auto

definition log_at :: "string \<Rightarrow> database \<Rightarrow> op_row list" where
  "log_at k db = (case tables db k of None \<Rightarrow> [] | Some rows \<Rightarrow> rows)"

lemma log_of_log_at: "log_of a u d db = log_at (table_key (datasetTable a u d)) db"
  by (simp add: log_of_def log_at_def table_rows_def)

lemma log_at_env [simp]: "log_at k (db\<lparr>faults := fs, db_now := t\<rparr>) = log_at k db"
  by (simp add: log_at_def)

lemma log_same_QueryOps: "keeps (log_same a u d) (QueryOps a u d since)"
  using QueryOps_content log_of_same_content by (simp add: keeps_def log_same_def) (metis surjective_pairing)

lemma log_same_reads:
  "keeps (log_same a u d) (GetDelta a u d since)" "keeps (log_same a u d) (GetSnapshot rg a u d)"
  "keeps (log_same a u d) (OpCount a u d)"
  unfolding GetDelta_def GetSnapshot_def OpCount_def CountOps_def Let_def
  by (intro log_rel.keeps_bind_R keeps_wrapP log_same_EnsureDataset log_same_QueryOps log_rel.keeps_ret_R
      log_rel.keeps_sql_R log_rel.keeps_read_R)+

lemma voidP_log_same:
  "keeps (log_same a u d) m \<Longrightarrow> voidP m db = (r, db') \<Longrightarrow>
     log_at (table_key (datasetTable a u d)) db' = log_at (table_key (datasetTable a u d)) db"
  using keepsD' [OF keeps_voidP] by (metis log_of_log_at log_same_def)

lemma refines_call:
  assumes "backend_do c db = (r, db')" and P: "refines P (log_at k db)"
    and ok: "pushes_ok (P @ pushes k (c, \<not> isl r))" "\<not> failed_compaction k (c, \<not> isl r)"
  shows "refines (P @ pushes k (c, \<not> isl r)) (log_at k db')"
proof (cases "call_table c = Some k")
  case False
  then have "other_table k db db'" using keepsD' [OF backend_do_other assms(1)] by blast
  then have "log_at k db' = log_at k db" by (simp add: other_table_def log_at_def)
  then show ?thesis using P pushes_other [OF False] by simp
next
  case True
  show ?thesis
  proof (cases c)
    case (DoMerge a u d ops)
    have k: "k = table_key (datasetTable a u d)" using True DoMerge by simp
    show ?thesis
    proof (cases r)
      case (Inl e)
      then have "log_at k db' = log_at k db"
        using MergeOps_Inl [of a u d ops db] assms(1) DoMerge by (simp add: log_of_log_at k)
      then show ?thesis using P Inl by (simp add: DoMerge)
    next
      case (Inr x)
      then have "log_at k db' = apply_ops insert_ignore ops (log_at k db)"
        using MergeOps_Inr [of a u d ops db] assms(1) DoMerge by (simp add: log_of_log_at k)
      then show ?thesis using refines_push [OF P] ok(1) Inr by (simp add: DoMerge k)
    qed
  next
    case (DoCompact rg a u d)
    have k: "k = table_key (datasetTable a u d)" using True DoCompact by simp
    show ?thesis
    proof (cases r)
      case (Inl e)
      then show ?thesis using ok(2) by (simp add: DoCompact k)
    next
      case (Inr x)
      then have "log_at k db' = compact_rows (OpID ` winners (live_ops (log_at k db))) (log_at k db)"
        using Compact_log [of rg a u d db] assms(1) DoCompact by (simp add: log_of_log_at k)
      then show ?thesis using refines_compact [OF P] by (simp add: DoCompact)
    qed
  next
    case (DoDelta a u d since)
    have k: "k = table_key (datasetTable a u d)" using True DoDelta by simp
    have "log_at k db' = log_at k db"
      using voidP_log_same [OF log_same_reads(1)] assms(1) unfolding k DoDelta by simp
    then show ?thesis using P by (simp add: DoDelta)
  next
    case (DoSnapshot rg a u d)
    have k: "k = table_key (datasetTable a u d)" using True DoSnapshot by simp
    have "log_at k db' = log_at k db"
      using voidP_log_same [OF log_same_reads(2)] assms(1) unfolding k DoSnapshot by simp
    then show ?thesis using P by (simp add: DoSnapshot)
  next
    case (DoCount a u d)
    have k: "k = table_key (datasetTable a u d)" using True DoCount by simp
    have "log_at k db' = log_at k db"
      using voidP_log_same [OF log_same_reads(3)] assms(1) unfolding k DoCount by simp
    then show ?thesis using P by (simp add: DoCount)
  next
    case (DoVersion a d)
    then show ?thesis using True by simp
  qed
qed

lemma run_refines:
  assumes "backend_run db tr db'" "log_at k db = []" "pushes_ok (pushed k tr)"
    "\<not> (\<exists>e \<in> set tr. failed_compaction k e)"
  shows "refines (pushed k tr) (log_at k db')"
  using assms
proof (induction rule: backend_run.induct)
  case (run_call db tr db1 c r db2)
  have "refines (pushed k tr) (log_at k db1)"
    using run_call.IH run_call.prems pushes_ok_append by auto
  then show ?case
    using refines_call [OF run_call.hyps(2)] run_call.prems by simp
qed simp_all


definition push_then_compact :: trace where
  "push_then_compact = [(DoMerge ''app1'' ''user1'' ''ds1'' three_ops, True),
     (DoCompact no_shuffle ''app1'' ''user1'' ''ds1'', True)]"

lemma run_push_then_compact: "\<exists>db'. backend_run empty_db push_then_compact db'"
proof -
  have "\<exists>db1. MergeOps ''app1'' ''user1'' ''ds1'' three_ops empty_db = (Inr (), db1) \<and> faults db1 = []"
    by (rule MergeOps_total) (simp_all add: empty_db_def three_ops_def)
  then obtain db1 where m: "backend_do (DoMerge ''app1'' ''user1'' ''ds1'' three_ops) empty_db = (Inr (), db1)"
    and f: "faults db1 = []" by auto
  obtain db2 where "backend_do (DoCompact no_shuffle ''app1'' ''user1'' ''ds1'') db1 = (Inr (), db2)"
    using Compact_total [OF f] by (metis backend_do.simps(5))
  from run_call [OF run_call [OF run_start m] this] show ?thesis
    by (auto simp: push_then_compact_def)
qed

lemma pushed_three_ops:
  "pushed (table_key (datasetTable ''app1'' ''user1'' ''ds1'')) push_then_compact = three_ops"
  by (simp add: pushed_def push_then_compact_def)

lemma pushes_ok_three_ops: "pushes_ok three_ops"
  by (auto simp: pushes_ok_def three_ops_def field_stamps_unique_def op_at_def stored_op_def row_of_def
      op_to_row_def row_to_op_def inj_on_def)


section \<open>A compaction is not atomic\<close>

text \<open>
  \<open>Compact\<close> reads the log, and later archives and reactivates, in separate statements: other
  calls can run between.  \<open>Compact_read\<close> and \<open>Compact_write\<close> are its two halves.
\<close>

definition Compact_read :: "string \<Rightarrow> string \<Rightarrow> string \<Rightarrow> crdt_op list dbprog" where
  "Compact_read a u d =
     bindP (wrapP (Wrap ''Compact ensure dataset'') (EnsureDataset a u d)) (\<lambda>_.
     wrapP (Wrap ''Compact query'') (QueryOps a u d zero_hlc))"

definition Compact_write :: "ranges \<Rightarrow> string \<Rightarrow> string \<Rightarrow> string \<Rightarrow> crdt_op list \<Rightarrow> unit dbprog" where
  "Compact_write rg a u d ops =
     (let kept = kept_ops rg ops in
      bindP (write_snapshots d u (shuffle (rg_doc_states rg) (doc_map kept))) (\<lambda>_.
      bindP (wrapP (Wrap ''Compact archive'') (ArchiveOps a u d)) (\<lambda>_.
      if kept \<noteq> []
      then wrapP (Wrap ''Compact reactivate winners'') (ReactivateOps a u d kept)
      else retP ())))"

lemma Compact_halves: "Compact rg a u d = bindP (Compact_read a u d) (Compact_write rg a u d)"
  by (auto simp: fun_eq_iff Compact_def Compact_read_def Compact_write_def Let_def bindP_def
      split: prod.split sum.split)

lemma Compact_write_log:
  assumes "Compact_write rg a u d ops db = (Inr x, db')" "OpID ` winners ops \<subseteq> row_op_id ` set (log_of a u d db)"
  shows "log_of a u d db' = compact_rows (OpID ` winners ops) (log_of a u d db)"
proof -
  let ?rows = "log_of a u d db" and ?kept = "kept_ops rg ops"
  obtain db2 db3 where 2: "write_snapshots d u (shuffle (rg_doc_states rg) (doc_map ?kept)) db = (Inr (), db2)"
    and 3: "ArchiveOps a u d db2 = (Inr (), db3)"
    and 4: "?kept = [] \<and> db' = db3 \<or> ?kept \<noteq> [] \<and> ReactivateOps a u d ?kept db3 = (Inr (), db')"
    using assms(1) by (auto simp: Compact_write_def Let_def bindP_eq_Inr split: if_splits)
  show ?thesis using archive_reactivate_log [OF 2 3 4] assms(2) by simp
qed

text \<open>
  An operation pushed while a compaction of its dataset is between reading and archiving is
  lost: the compaction archives it unread, although push and compaction both succeed, so no
  delta, snapshot or later compaction sees it again.
\<close>

theorem Compact_loses_concurrent_push:
  assumes "Compact_read a u d db = (Inr ops, db1)"
    and "MergeOps a u d batch db1 = (Inr (), db2)"
    and "Compact_write rg a u d ops db2 = (Inr x, db3)"
    and "op \<in> set batch" "OpID op \<notin> row_op_id ` set (log_of a u d db)"
  shows "OpID op \<in> row_op_id ` set (log_of a u d db3)
    \<and> (\<forall>y \<in> set (live_ops (log_of a u d db3)). OpID y \<noteq> OpID op)"
proof -
  let ?rows = "log_of a u d db" and ?rows2 = "log_of a u d db2"
  have "bindP (wrapP (Wrap ''Compact ensure dataset'') (EnsureDataset a u d)) (\<lambda>_. QueryOps a u d zero_hlc) db
      = (Inr ops, db1)"
    using assms(1) by (auto simp: Compact_read_def bindP_eq_Inr)
  then have ops: "ops = live_ops ?rows" "log_of a u d db1 = ?rows"
    using ensured_query by (auto simp: live_ops_def)
  have rows2: "?rows2 = apply_ops insert_ignore batch ?rows" using MergeOps_Inr [OF assms(2)] ops(2) by simp
  have ids: "OpID ` winners ops \<subseteq> row_op_id ` set ?rows" unfolding ops(1) by (rule winner_ids_subset)
  then have log: "log_of a u d db3 = compact_rows (OpID ` winners ops) ?rows2"
    using Compact_write_log [OF assms(3)] by (simp add: rows2 row_op_ids_apply_insert le_supI1)
  have "row_op_id ` set (log_of a u d db3) = row_op_id ` set ?rows2"
    unfolding log set_map [symmetric] row_op_id_compact_rows ..
  then have "OpID op \<in> row_op_id ` set (log_of a u d db3)"
    using assms(4) by (simp add: rows2 row_op_ids_apply_insert)
  moreover have "OpID y \<noteq> OpID op" if y: "y \<in> set (live_ops (log_of a u d db3))" for y
  proof -
    obtain r where r: "r \<in> set ?rows2" "row_op_id r \<in> OpID ` winners ops" "OpID y = row_op_id r"
      using y archive_row_not_active unfolding log
      by (auto simp: set_live_ops compact_rows_def after_cursor_def split: if_splits)
    then show ?thesis using ids assms(5) by auto
  qed
  ultimately show ?thesis by blast
qed

definition racing_op :: crdt_op where
  "racing_op = op_at ''op4'' ''doc1'' ''name'' ''Bob'' 300"

definition race_read :: "(err + crdt_op list) \<times> database" where
  "race_read = Compact_read ''app1'' ''user1'' ''ds1'' three_ops_db"

definition race_push :: "(err + unit) \<times> database" where
  "race_push = MergeOps ''app1'' ''user1'' ''ds1'' [racing_op] (snd race_read)"

definition race_write :: "(err + unit) \<times> database" where
  "race_write = Compact_write no_shuffle ''app1'' ''user1'' ''ds1''
     (case fst race_read of Inl e \<Rightarrow> [] | Inr ops \<Rightarrow> ops) (snd race_push)"

theorem Compact_loses_concurrent_push_witness:
  "fst race_push = Inr () \<and> fst race_write = Inr ()
   \<and> OpID racing_op \<in> row_op_id ` set (log_of ''app1'' ''user1'' ''ds1'' (snd race_write))
   \<and> filter (\<lambda>y. OpID y = OpID racing_op) (live_ops (log_of ''app1'' ''user1'' ''ds1'' (snd race_write))) = []"
proof -
  have f: "isl (fst race_read) = False" "fst race_push = Inr ()" "fst race_write = Inr ()" by code_simp+
  then obtain ops where ops: "fst race_read = Inr ops" by (cases "fst race_read") auto
  have 1: "Compact_read ''app1'' ''user1'' ''ds1'' three_ops_db = (Inr ops, snd race_read)"
    using ops by (simp add: race_read_def prod_eq_iff)
  have 2: "MergeOps ''app1'' ''user1'' ''ds1'' [racing_op] (snd race_read) = (Inr (), snd race_push)"
    using f by (simp add: race_push_def prod_eq_iff)
  have 3: "Compact_write no_shuffle ''app1'' ''user1'' ''ds1'' ops (snd race_push) = (Inr (), snd race_write)"
    using f ops by (simp add: race_write_def prod_eq_iff)
  have 4: "racing_op \<in> set [racing_op]"
    "OpID racing_op \<notin> row_op_id ` set (log_of ''app1'' ''user1'' ''ds1'' three_ops_db)"
    by (simp_all add: log_of_three_ops_db three_ops_def racing_op_def)
  from Compact_loses_concurrent_push [OF 1 2 3 4] show ?thesis
    using f by (auto simp: filter_empty_conv)
qed

end
