(* ===== verification/Backend_Reads.thy ===== *)
theory Backend_Reads
  imports Backend_Runs
begin

text \<open>
  What the two reading methods of the backend return: the delta after a cursor and the flat
  snapshot.
\<close>

section \<open>Deltas\<close>





text \<open>
  Pushing again is idempotent: a second push of the same operations changes no row, whatever
  errors the driver reports.
\<close>

theorem MergeOps_idempotent:
  assumes "MergeOps a u d ops db = (Inr (), db1)" "MergeOps a u d ops db1 = (r, db2)"
  shows "log_of a u d db2 = log_of a u d db1"
proof (cases r)
  case (Inl e)
  then show ?thesis using MergeOps_Inl assms(2) by blast
next
  case (Inr x)
  then have "log_of a u d db2 = apply_ops insert_ignore ops (log_of a u d db1)"
    using MergeOps_Inr assms(2) by blast
  then show ?thesis using MergeOps_Inr [OF assms(1)] by simp
qed

theorem MergeOps_idempotent_witness:
  "\<exists>db1 r db2. MergeOps ''app1'' ''user1'' ''ds1'' three_ops empty_db = (Inr (), db1)
     \<and> MergeOps ''app1'' ''user1'' ''ds1'' three_ops db1 = (r, db2)
     \<and> log_of ''app1'' ''user1'' ''ds1'' db2 = log_of ''app1'' ''user1'' ''ds1'' db1"
proof -
  have "\<exists>db1. MergeOps ''app1'' ''user1'' ''ds1'' three_ops empty_db = (Inr (), db1) \<and> faults db1 = []"
    by (rule MergeOps_total) (simp_all add: empty_db_def three_ops_def)
  then obtain db1 where m: "MergeOps ''app1'' ''user1'' ''ds1'' three_ops empty_db = (Inr (), db1)" by blast
  obtain r db2 where m2: "MergeOps ''app1'' ''user1'' ''ds1'' three_ops db1 = (r, db2)"
    by (cases "MergeOps ''app1'' ''user1'' ''ds1'' three_ops db1")
  show ?thesis using MergeOps_idempotent [OF m m2] m m2 by blast
qed

section \<open>Snapshots\<close>

lemma gm_get_gm_of_list: "gm_get (gm_of_list kvs) k = map_of (rev kvs) k"
proof (induction kvs rule: rev_induct)
  case (snoc kv kvs)
  then show ?case by (cases kv) (simp add: gm_of_list_snoc)
qed simp

definition flat_key :: "string \<Rightarrow> string \<Rightarrow> string" where
  "flat_key d f = d @ ''.'' @ f"

text \<open>The assignments of the nested loop, in the order they happen.\<close>

definition flat_entries :: "ranges \<Rightarrow> goval docs \<Rightarrow> (string \<times> goval) list" where
  "flat_entries rg m =
     concat (map (\<lambda>(d, fm). map (\<lambda>(f, v). (flat_key d f, v)) (shuffle (rg_fields rg d) fm))
       (shuffle (rg_docs rg) m))"

lemma foldl_put_append:
  "foldl (\<lambda>m (k, v). gm_put k v m) (gm_of_list kvs) kvs' = gm_of_list (kvs @ kvs')"
  by (simp add: gm_of_list_def)

lemma flatten_fields_entries:
  "flatten_fields seed d fm (gm_of_list kvs)
     = gm_of_list (kvs @ map (\<lambda>(f, v). (flat_key d f, v)) (shuffle seed fm))"
proof -
  have "foldl (\<lambda>flat (field, val). gm_put (d @ ''.'' @ field) val flat) (gm_of_list kvs) es
      = gm_of_list (kvs @ map (\<lambda>(f, v). (flat_key d f, v)) es)" for es
    by (induction es rule: rev_induct)
      (auto simp: gm_of_list_snoc flat_key_def append_assoc [symmetric] simp del: append_assoc)
  then show ?thesis by (simp add: flatten_fields_def)
qed

lemma flatten_docs_entries: "flatten_docs rg m = gm_of_list (flat_entries rg m)"
proof -
  have "foldl (\<lambda>flat (d, fm). flatten_fields (rg_fields rg d) d fm flat) [] es
      = gm_of_list (concat (map (\<lambda>(d, fm). map (\<lambda>(f, v). (flat_key d f, v)) (shuffle (rg_fields rg d) fm)) es))" for es
    by (induction es rule: rev_induct) (auto simp: flatten_fields_entries)
  then show ?thesis by (simp add: flatten_docs_def flat_entries_def)
qed

lemma set_flat_entries:
  assumes "docs_ok m"
  shows "set (flat_entries rg m) = {(flat_key d f, v) |d f v. lookup2 m d f = Some v}"
proof (intro set_eqI)
  fix e
  have ok: "gm_ok m" and okf: "\<And>d fm. (d, fm) \<in> set m \<Longrightarrow> gm_ok fm"
    using assms by (force simp: docs_ok_def)+
  have "e \<in> set (flat_entries rg m) \<longleftrightarrow>
      (\<exists>d fm f v. (d, fm) \<in> set m \<and> (f, v) \<in> set fm \<and> e = (flat_key d f, v))"
    by (force simp: flat_entries_def)
  also have "\<dots> \<longleftrightarrow> (\<exists>d f v. lookup2 m d f = Some v \<and> e = (flat_key d f, v))"
  proof -
    have "(\<exists>fm. (d, fm) \<in> set m \<and> (f, v) \<in> set fm) \<longleftrightarrow> lookup2 m d f = Some v" for d f v
      using gm_mem_iff [OF ok] gm_mem_iff [OF okf]
      by (auto simp: lookup2_def gm_at_def split: option.split)
    then show ?thesis by blast
  qed
  finally show "e \<in> set (flat_entries rg m) \<longleftrightarrow> e \<in> {(flat_key d f, v) |d f v. lookup2 m d f = Some v}"
    by blast
qed

lemma map_of_unique_value:
  assumes "(k, v) \<in> set kvs" "\<And>v'. (k, v') \<in> set kvs \<Longrightarrow> v' = v"
  shows "map_of kvs k = Some v"
proof -
  obtain v' where v': "map_of kvs k = Some v'" using weak_map_of_SomeI [OF assms(1)] by blast
  then have "v' = v" using assms(2) map_of_SomeD by metis
  then show ?thesis using v' by simp
qed

lemma docs_ok_mergeOpsLocal: "docs_ok (mergeOpsLocal ops)"
  using docs_ok_wins [of beforeHLC ops]
  by (auto simp: mergeOpsLocal_def docs_ok_def wins_values_def comp_def split_def image_image)

lemma lookup2_mergeOpsLocal:
  "lookup2 (mergeOpsLocal ops) d f = map_option Value (winner beforeHLC Timestamp (ops_on d f ops))"
  by (simp add: mergeOpsLocal_def lookup2_wins_values lookup2_wins)



definition dotted_db :: database where
  "dotted_db =
     set_rows (datasetTable ''app1'' ''user1'' ''ds1'')
       (map row_of [op_at ''op1'' ''a.b'' ''c'' ''one'' 100, op_at ''op2'' ''a'' ''b.c'' ''two'' 200])
       (empty_db\<lparr>snapshots := Some []\<rparr>)"

definition snapshot_at :: "ranges \<Rightarrow> string \<Rightarrow> goval option" where
  "snapshot_at rg k =
     (case fst (GetSnapshot rg ''app1'' ''user1'' ''ds1'' dotted_db) of
        Inl e \<Rightarrow> None | Inr (flat, mx) \<Rightarrow> gm_get flat k)"

text \<open>
  Two fields can spell the same key: document \<open>a.b\<close> with field \<open>c\<close> and document \<open>a\<close> with field
  \<open>b.c\<close>.  The snapshot then keeps one of the two values, and which one depends on the order in
  which Go visits a map.
\<close>

theorem GetSnapshot_key_clash:
  "snapshot_at no_shuffle ''a.b.c'' = Some (GString ''two'')
   \<and> snapshot_at (no_shuffle\<lparr>rg_docs := [1]\<rparr>) ''a.b.c'' = Some (GString ''one'')"
  by code_simp

end
