(* ===== verification/Engine.thy ===== *)
theory Engine
  imports Interfaces Broadcaster Backend_Reads
begin

text \<open>
  \<open>core/sync/engine.go\<close>, \<open>core/crdt/compaction.go\<close> and \<open>core/crdt/schema.go\<close>: one sync
  request.  The engine is a value of its three collaborators, the storage backend, the
  notifier and the clock; \<open>world\<close> is their joint state.  \<open>Sync\<close> is the whole handler: the
  errors of \<open>Notify\<close> and \<open>MaybeCompact\<close> and of the last \<open>SchemaVersion\<close> are dropped there, as
  in the source.
\<close>

section \<open>Definitions\<close>

definition MaybeCompact :: "'s storage_backend \<Rightarrow> string \<Rightarrow> string \<Rightarrow> string \<Rightarrow> int \<Rightarrow> ('s, err, unit) prog" where
  "MaybeCompact store appID userID datasetID threshold =
     bindP (sb_OpCount store appID userID datasetID) (\<lambda>count.
     if count > threshold then sb_Compact store appID userID datasetID else retP ())"

definition NeedsSnapshot :: "'s storage_backend \<Rightarrow> string \<Rightarrow> string \<Rightarrow> int \<Rightarrow> ('s, err, bool) prog" where
  "NeedsSnapshot store appID datasetID clientVersion =
     bindP (sb_SchemaVersion store appID datasetID) (\<lambda>serverVersion.
     retP (serverVersion > clientVersion))"

record ('s, 'n) engine =
  eng_store :: "'s storage_backend"
  eng_notify :: "string \<Rightarrow> string \<Rightarrow> ('n, err, unit) prog"
  eng_threshold :: int

definition NewEngine :: "'s storage_backend \<Rightarrow> (string \<Rightarrow> string \<Rightarrow> ('n, err, unit) prog) \<Rightarrow> int
    \<Rightarrow> ('s, 'n) engine" where
  "NewEngine store notifier compactionThreshold =
     \<lparr>eng_store = store, eng_notify = notifier, eng_threshold = compactionThreshold\<rparr>"

record ('s, 'n) world =
  w_store :: 's
  w_notifier :: 'n
  w_clock :: clock

definition on_store :: "('s, err, 'a) prog \<Rightarrow> (('s, 'n) world, err, 'a) prog" where
  "on_store m w = (case m (w_store w) of (r, s) \<Rightarrow> (r, w\<lparr>w_store := s\<rparr>))"

definition on_notifier :: "('n, err, 'a) prog \<Rightarrow> (('s, 'n) world, err, 'a) prog" where
  "on_notifier m w = (case m (w_notifier w) of (r, n) \<Rightarrow> (r, w\<lparr>w_notifier := n\<rparr>))"

text \<open>\<open>x, _ := f()\<close>: the error is dropped and the value is Go's zero value then.\<close>

definition dropP :: "'a \<Rightarrow> ('w, err, 'a) prog \<Rightarrow> ('w, err, 'a) prog" where
  "dropP zero m w = (case m w of (Inl e, w') \<Rightarrow> (Inr zero, w') | (Inr x, w') \<Rightarrow> (Inr x, w'))"

definition Sync_push :: "('s, 'n) engine \<Rightarrow> sync_message \<Rightarrow> (('s, 'n) world, err, unit) prog" where
  "Sync_push e msg =
     (if msg_Ops msg \<noteq> [] then
        bindP (on_store (sb_MergeOps (eng_store e) (msg_AppID msg) (msg_UserID msg) (msg_DatasetID msg) (msg_Ops msg))) (\<lambda>_.
        bindP (dropP () (on_notifier (eng_notify e (msg_AppID msg) (msg_UserID msg)))) (\<lambda>_.
        dropP () (on_store (MaybeCompact (eng_store e) (msg_AppID msg) (msg_UserID msg) (msg_DatasetID msg)
          (eng_threshold e)))))
      else retP ())"

definition Sync_snapshot :: "('s, 'n) engine \<Rightarrow> sync_message
    \<Rightarrow> (('s, 'n) world, err, (string, goval) gomap option) prog" where
  "Sync_snapshot e msg =
     bindP (on_store (NeedsSnapshot (eng_store e) (msg_AppID msg) (msg_DatasetID msg) (msg_ClientSchemaVersion msg)))
       (\<lambda>needsSnap.
     if needsSnap then
       bindP (on_store (sb_GetSnapshot (eng_store e) (msg_AppID msg) (msg_UserID msg) (msg_DatasetID msg)))
         (\<lambda>(snap, _). retP (Some snap))
     else retP None)"

definition Sync_delta :: "('s, 'n) engine \<Rightarrow> sync_message \<Rightarrow> hlc \<Rightarrow> (string, goval) gomap option
    \<Rightarrow> (('s, 'n) world, err, sync_response) prog" where
  "Sync_delta e msg serverClock snapshot =
     bindP (on_store (sb_GetDelta (eng_store e) (msg_AppID msg) (msg_UserID msg) (msg_DatasetID msg) (msg_Clock msg)))
       (\<lambda>(delta, newClock).
     bindP (dropP 0 (on_store (sb_SchemaVersion (eng_store e) (msg_AppID msg) (msg_DatasetID msg)))) (\<lambda>schemaVer.
     retP \<lparr>resp_NewClock = (if WallTime newClock = 0 then serverClock else newClock),
           resp_Ops = delta, resp_Snapshot = snapshot, resp_SchemaVersion = schemaVer\<rparr>))"

text \<open>\<open>Sync\<close>; \<open>wall\<close> is the reading of the system clock in \<open>Receive\<close>.\<close>

definition Sync :: "('s, 'n) engine \<Rightarrow> 64 word \<Rightarrow> sync_message \<Rightarrow> (('s, 'n) world, err, sync_response) prog" where
  "Sync e wall msg w =
     (let (serverClock, clk) = Receive wall (msg_Clock msg) (w_clock w) in
      bindP (Sync_snapshot e msg) (\<lambda>snapshot.
      bindP (Sync_push e msg) (\<lambda>_.
      Sync_delta e msg serverClock snapshot)) (w\<lparr>w_clock := clk\<rparr>))"

text \<open>The backend of the storage package as a value of the interface.\<close>

definition crsqlite :: "ranges \<Rightarrow> database storage_backend" where
  "crsqlite rg =
     \<lparr>sb_MergeOps = MergeOps, sb_GetDelta = GetDelta, sb_GetSnapshot = GetSnapshot rg,
      sb_SchemaVersion = SchemaVersion, sb_OpCount = OpCount, sb_Compact = Compact rg\<rparr>"

section \<open>Lifted programs\<close>

lemma on_store_Inr: "on_store m w = (Inr x, w') \<longleftrightarrow> (\<exists>s. m (w_store w) = (Inr x, s) \<and> w' = w\<lparr>w_store := s\<rparr>)"
  by (auto simp: on_store_def split: prod.splits)

lemma on_store_Inl: "on_store m w = (Inl e, w') \<longleftrightarrow> (\<exists>s. m (w_store w) = (Inl e, s) \<and> w' = w\<lparr>w_store := s\<rparr>)"
  by (auto simp: on_store_def split: prod.splits)

lemma on_notifier_Inr:
  "on_notifier m w = (Inr x, w') \<longleftrightarrow> (\<exists>n. m (w_notifier w) = (Inr x, n) \<and> w' = w\<lparr>w_notifier := n\<rparr>)"
  by (auto simp: on_notifier_def split: prod.splits)

lemma on_notifier_Inl:
  "on_notifier m w = (Inl e, w') \<longleftrightarrow> (\<exists>n. m (w_notifier w) = (Inl e, n) \<and> w' = w\<lparr>w_notifier := n\<rparr>)"
  by (auto simp: on_notifier_def split: prod.splits)

lemma dropP_Inl [simp]: "dropP z m w = (Inl e, w') \<longleftrightarrow> False"
  by (auto simp: dropP_def split: prod.splits sum.splits)

lemma dropP_Inr: "dropP z m w = (Inr x, w') \<longleftrightarrow> m w = (Inr x, w') \<or> x = z \<and> (\<exists>e. m w = (Inl e, w'))"
  by (auto simp: dropP_def split: prod.splits sum.splits)

lemma snd_dropP [simp]: "snd (dropP z m w) = snd (m w)"
  by (auto simp: dropP_def split: prod.splits sum.splits)

lemma keeps_dropP: "keeps R m \<Longrightarrow> keeps R (dropP z m)"
  by (simp add: keeps_def)

text \<open>A relation of store states, lifted to worlds.\<close>

definition store_rel :: "('s \<Rightarrow> 's \<Rightarrow> bool) \<Rightarrow> ('s, 'n) world \<Rightarrow> ('s, 'n) world \<Rightarrow> bool" where
  "store_rel R w w' \<longleftrightarrow> R (w_store w) (w_store w')"

lemma keeps_on_store: "keeps R m \<Longrightarrow> keeps (store_rel R) (on_store m)"
  by (simp add: keeps_def store_rel_def on_store_def split: prod.split) (metis snd_conv)

lemma keeps_on_notifier: "reflp R \<Longrightarrow> keeps (store_rel R) (on_notifier m)"
  by (simp add: keeps_def store_rel_def on_notifier_def reflp_def split: prod.split)

lemma transp_store_rel: "transp R \<Longrightarrow> transp (store_rel R)"
  by (auto simp: transp_def store_rel_def)

lemma keeps_retP: "reflp R \<Longrightarrow> keeps (store_rel R) (retP x)"
  by (simp add: keeps_def store_rel_def reflp_def)

section \<open>The stages of a request\<close>

lemma Sync_delta_Inr:
  assumes "Sync_delta e msg sc snap w = (Inr resp, w')"
  obtains delta mx s1 where
    "sb_GetDelta (eng_store e) (msg_AppID msg) (msg_UserID msg) (msg_DatasetID msg) (msg_Clock msg) (w_store w)
       = (Inr (delta, mx), s1)"
    "resp_Ops resp = delta" "resp_NewClock resp = (if WallTime mx = 0 then sc else mx)"
    "resp_Snapshot resp = snap"
    "w_store w' = snd (sb_SchemaVersion (eng_store e) (msg_AppID msg) (msg_DatasetID msg) s1)"
    "w_notifier w' = w_notifier w" "w_clock w' = w_clock w"
  using assms
  by (auto simp: Sync_delta_def bindP_eq_Inr on_store_Inr dropP_Inr on_store_Inl)

lemma Sync_Inr:
  assumes "Sync e wall msg w = (Inr resp, w')"
  obtains sc clk snap w1 w2 where
    "Receive wall (msg_Clock msg) (w_clock w) = (sc, clk)"
    "Sync_snapshot e msg (w\<lparr>w_clock := clk\<rparr>) = (Inr snap, w1)"
    "Sync_push e msg w1 = (Inr (), w2)" "Sync_delta e msg sc snap w2 = (Inr resp, w')"
  using assms by (auto simp: Sync_def bindP_eq_Inr split: prod.splits)

lemma Sync_push_Inr:
  assumes "Sync_push e msg w = (Inr x, w')" "msg_Ops msg \<noteq> []"
  obtains s1 where
    "sb_MergeOps (eng_store e) (msg_AppID msg) (msg_UserID msg) (msg_DatasetID msg) (msg_Ops msg) (w_store w) = (Inr (), s1)"
    "w_notifier w' = snd (eng_notify e (msg_AppID msg) (msg_UserID msg) (w_notifier w))"
    "w_store w' = snd (MaybeCompact (eng_store e) (msg_AppID msg) (msg_UserID msg) (msg_DatasetID msg)
       (eng_threshold e) s1)"
proof -
  obtain w1 where 1: "on_store (sb_MergeOps (eng_store e) (msg_AppID msg) (msg_UserID msg) (msg_DatasetID msg)
      (msg_Ops msg)) w = (Inr (), w1)"
    and 2: "bindP (dropP () (on_notifier (eng_notify e (msg_AppID msg) (msg_UserID msg)))) (\<lambda>_.
        dropP () (on_store (MaybeCompact (eng_store e) (msg_AppID msg) (msg_UserID msg) (msg_DatasetID msg)
          (eng_threshold e)))) w1 = (Inr x, w')"
    using assms by (auto simp: Sync_push_def bindP_eq_Inr)
  obtain s1 where s1: "sb_MergeOps (eng_store e) (msg_AppID msg) (msg_UserID msg) (msg_DatasetID msg) (msg_Ops msg)
      (w_store w) = (Inr (), s1)" "w1 = w\<lparr>w_store := s1\<rparr>"
    using 1 by (auto simp: on_store_Inr)
  show thesis
    using 2 s1 by (intro that [OF s1(1)]) (auto simp: bindP_eq_Inr dropP_Inr on_notifier_Inr on_notifier_Inl
        on_store_Inr on_store_Inl)
qed

lemma Sync_push_Nil: "msg_Ops msg = [] \<Longrightarrow> Sync_push e msg w = (Inr (), w)"
  by (simp add: Sync_push_def)

lemma Sync_snapshot_notifier:
  assumes "Sync_snapshot e msg w = (r, w')"
  shows "w_notifier w' = w_notifier w \<and> w_clock w' = w_clock w"
  using assms
  by (cases r) (auto simp: Sync_snapshot_def bindP_eq_Inr bindP_eq_Inl on_store_Inr on_store_Inl split: if_splits)

section \<open>What the engine keeps of its backend\<close>

text \<open>A relation that every method of the backend keeps on the ids of the message.\<close>

lemma Sync_keeps_store:
  assumes R: "reflp R" "transp R"
    and m: "\<And>ops. keeps R (sb_MergeOps (eng_store e) (msg_AppID msg) (msg_UserID msg) (msg_DatasetID msg) ops)"
      "\<And>h. keeps R (sb_GetDelta (eng_store e) (msg_AppID msg) (msg_UserID msg) (msg_DatasetID msg) h)"
      "keeps R (sb_GetSnapshot (eng_store e) (msg_AppID msg) (msg_UserID msg) (msg_DatasetID msg))"
      "keeps R (sb_SchemaVersion (eng_store e) (msg_AppID msg) (msg_DatasetID msg))"
      "keeps R (sb_OpCount (eng_store e) (msg_AppID msg) (msg_UserID msg) (msg_DatasetID msg))"
      "keeps R (sb_Compact (eng_store e) (msg_AppID msg) (msg_UserID msg) (msg_DatasetID msg))"
  shows "R (w_store w) (w_store (snd (Sync e wall msg w)))"
proof -
  note T = transp_store_rel [OF R(2)]
  have ret: "keeps R (retP x)" for x :: 'x
    using R(1) by (simp add: keeps_def reflp_def)
  have need: "keeps R (NeedsSnapshot (eng_store e) (msg_AppID msg) (msg_DatasetID msg) v)" for v
    unfolding NeedsSnapshot_def by (intro keeps_bindP R(2) m ret)
  have comp: "keeps R (MaybeCompact (eng_store e) (msg_AppID msg) (msg_UserID msg) (msg_DatasetID msg) t)" for t
    unfolding MaybeCompact_def by (intro keeps_bindP R(2) m) (simp add: m ret)
  have 1: "keeps (store_rel R) (Sync_snapshot e msg)"
    unfolding Sync_snapshot_def
    by (intro keeps_bindP T keeps_on_store need) (auto intro!: keeps_bindP T keeps_on_store m keeps_retP R)
  have 2: "keeps (store_rel R) (Sync_push e msg)"
    unfolding Sync_push_def
    by (auto intro!: keeps_bindP T keeps_dropP keeps_on_store keeps_on_notifier m comp keeps_retP R)
  have 3: "keeps (store_rel R) (Sync_delta e msg sc snap)" for sc snap
    unfolding Sync_delta_def
    by (auto intro!: keeps_bindP T keeps_dropP keeps_on_store m keeps_retP R split: prod.split)
  obtain sc clk where rc: "Receive wall (msg_Clock msg) (w_clock w) = (sc, clk)"
    by (cases "Receive wall (msg_Clock msg) (w_clock w)")
  have "keeps (store_rel R) (bindP (Sync_snapshot e msg) (\<lambda>snapshot. bindP (Sync_push e msg) (\<lambda>_.
      Sync_delta e msg sc snapshot)))"
    by (intro keeps_bindP T 1 2 3)
  then have "store_rel R (w\<lparr>w_clock := clk\<rparr>) (snd (Sync e wall msg w))"
    unfolding Sync_def rc Let_def split by (rule keepsD)
  then show ?thesis by (simp add: store_rel_def)
qed

context storage_backend_laws
begin

lemma Sync_cursor:
  assumes S: "Sync (NewEngine sb nt th) wall msg w = (Inr resp, w')"
    and ns: "\<not> saturated (clk_last (w_clock w))" "\<not> saturated (msg_Clock msg)" and wall: "0 < sint wall"
  shows "msg_Clock msg < resp_NewClock resp
    \<and> (\<forall>op \<in> set (resp_Ops resp). msg_Clock msg < Timestamp op \<and> Timestamp op \<le> resp_NewClock resp)"
proof -
  obtain sc clk snap w1 w2 where rc: "Receive wall (msg_Clock msg) (w_clock w) = (sc, clk)"
    and d: "Sync_delta (NewEngine sb nt th) msg sc snap w2 = (Inr resp, w')"
    using S by (rule Sync_Inr)
  obtain delta mx s1 where g: "sb_GetDelta sb (msg_AppID msg) (msg_UserID msg) (msg_DatasetID msg) (msg_Clock msg) (w_store w2)
       = (Inr (delta, mx), s1)"
    and r: "resp_Ops resp = delta" "resp_NewClock resp = (if WallTime mx = 0 then sc else mx)"
    using d by (rule Sync_delta_Inr) (simp add: NewEngine_def)
  have sc: "msg_Clock msg < sc" "sint wall \<le> sint (WallTime sc)"
    using Receive_advances [OF ns rc] by (auto intro: hlc_time_less_imp)
  show ?thesis
  proof (cases "WallTime mx = 0")
    case True
    have "mx < sc" using True sc(2) wall by (simp add: hlc_less_iff)
    then show ?thesis
      using True r sc(1) delta_after [OF g] delta_clock_ge [OF g] by (fastforce intro: order_trans less_imp_le)
  next
    case False
    then have "mx \<in> Timestamp ` set delta" using delta_clock_in [OF g] by auto
    then show ?thesis
      using False r delta_after [OF g] delta_clock_ge [OF g] by auto
  qed
qed

end

context durable_backend
begin

lemma Sync_accepts:
  assumes S: "Sync (NewEngine sb nt th) wall msg w = (Inr resp, w')" and op: "op \<in> set (msg_Ops msg)"
  shows "holds (msg_AppID msg) (msg_UserID msg) (msg_DatasetID msg) op (w_store w')"
proof -
  let ?e = "NewEngine sb nt th"
  let ?h = "holds (msg_AppID msg) (msg_UserID msg) (msg_DatasetID msg) op"
  obtain sc clk snap w1 w2 where p: "Sync_push ?e msg w1 = (Inr (), w2)"
    and d: "Sync_delta ?e msg sc snap w2 = (Inr resp, w')"
    using S by (rule Sync_Inr)
  have ne: "msg_Ops msg \<noteq> []" using op by auto
  obtain s1 where m: "sb_MergeOps sb (msg_AppID msg) (msg_UserID msg) (msg_DatasetID msg) (msg_Ops msg) (w_store w1) = (Inr (), s1)"
    and s2: "w_store w2 = snd (MaybeCompact sb (msg_AppID msg) (msg_UserID msg) (msg_DatasetID msg) th s1)"
    using p ne by (rule Sync_push_Inr) (simp add: NewEngine_def)
  have "keeps (\<lambda>s s'. ?h s \<longrightarrow> ?h s') (MaybeCompact sb (msg_AppID msg) (msg_UserID msg) (msg_DatasetID msg) th)"
    unfolding MaybeCompact_def
    by (intro keeps_bindP count_keeps) (auto simp: transp_def compact_keeps keeps_def [of _ "retP ()"])
  then have "?h (w_store w2)"
    using merge_accepts [OF m op] s2 by (simp add: keeps_def)
  moreover obtain delta mx s3 where
    "sb_GetDelta sb (msg_AppID msg) (msg_UserID msg) (msg_DatasetID msg) (msg_Clock msg) (w_store w2) = (Inr (delta, mx), s3)"
    "w_store w' = snd (sb_SchemaVersion sb (msg_AppID msg) (msg_DatasetID msg) s3)"
    using d by (rule Sync_delta_Inr) (simp add: NewEngine_def)
  ultimately show ?thesis
    using keepsD' [OF delta_keeps] keepsD [OF version_keeps] by metis
qed

lemma Sync_forgets_nothing:
  assumes "holds a u d op (w_store w)"
  shows "holds a u d op (w_store (snd (Sync (NewEngine sb nt th) wall msg w)))"
proof -
  have "holds a u d op (w_store w) \<longrightarrow> holds a u d op (w_store (snd (Sync (NewEngine sb nt th) wall msg w)))"
    by (rule Sync_keeps_store [where R = "\<lambda>s s'. holds a u d op s \<longrightarrow> holds a u d op s'"])
      (simp_all add: NewEngine_def merge_keeps delta_keeps snapshot_keeps version_keeps count_keeps compact_keeps
        reflp_def transp_def)
  then show ?thesis using assms by blast
qed

end

section \<open>The storage package provides the contract\<close>

definition accepted :: "string \<Rightarrow> string \<Rightarrow> string \<Rightarrow> crdt_op \<Rightarrow> database \<Rightarrow> bool" where
  "accepted a u d op db \<longleftrightarrow> OpID op \<in> row_op_id ` set (log_of a u d db)"

lemma durable_accepted:
  assumes "durable db db'" "accepted a u d op db"
  shows "accepted a u d op db'"
proof (cases "tables db (table_key (datasetTable a u d))")
  case None
  then show ?thesis using assms(2) by (simp add: accepted_def log_of_def table_rows_def)
next
  case (Some rows)
  then obtain rows' where rows': "tables db' (table_key (datasetTable a u d)) = Some rows'" "log_le rows rows'"
    using assms(1) by (auto simp: durable_def)
  have "row_op_id ` payload ` set rows \<subseteq> row_op_id ` payload ` set rows'"
    using rows'(2) unfolding log_le_def by (rule image_mono)
  then have "row_op_id ` set rows \<subseteq> row_op_id ` set rows'" by (simp add: image_image)
  then show ?thesis
    using assms(2) Some rows'(1) by (auto simp: accepted_def log_of_def table_rows_def)
qed

lemma keeps_accepted: "keeps durable m \<Longrightarrow> keeps (\<lambda>s s'. accepted a u d op s \<longrightarrow> accepted a u d op s') m"
  unfolding keeps_def using durable_accepted by blast

interpretation crsqlite: durable_backend "crsqlite rg" accepted
proof unfold_locales
  fix a u d since s ops mx s' op
  assume g: "sb_GetDelta (crsqlite rg) a u d since s = (Inr (ops, mx), s')"
  then have G: "GetDelta a u d since s = (Inr (ops, mx), s')" by (simp add: crsqlite_def)
  show "since < Timestamp op" if "op \<in> set ops"
    using that GetDelta_Inr [OF G] after_cursor_less by auto
  show "Timestamp op \<le> mx" if "op \<in> set ops" using that GetDelta_Inr [OF G] max_hlc_ge by simp
  show "mx = zero_hlc \<or> mx \<in> Timestamp ` set ops" using GetDelta_Inr [OF G] max_hlc_in [of ops] by (metis image_eqI)
next
  fix a u d ops s x s' op
  assume "sb_MergeOps (crsqlite rg) a u d ops s = (Inr x, s')" "op \<in> set ops"
  then show "accepted a u d op s'"
    using MergeOps_Inr [of a u d ops s x s'] by (simp add: crsqlite_def accepted_def row_op_ids_apply_insert)
qed (simp_all add: crsqlite_def keeps_accepted durable_inv.MergeOps_keeps durable_inv.GetDelta_keeps
      durable_inv.GetSnapshot_keeps durable_inv.OpCount_keeps durable_inv.Compact_keeps
      keeps_weaken [OF SchemaVersion_content] same_content_durable)

section \<open>A request when the driver reports no error\<close>

text \<open>What a request does to the log of its dataset.\<close>

definition push_log :: "int \<Rightarrow> crdt_op list \<Rightarrow> op_row list \<Rightarrow> op_row list" where
  "push_log th ops rows =
     (if ops = [] then rows
      else let rows1 = apply_ops insert_ignore ops rows
           in if int (length (filter (\<lambda>r. row_status r = ''active'') rows1)) > th
              then compact_rows (OpID ` winners (live_ops rows1)) rows1 else rows1)"

definition steady :: "database \<Rightarrow> bool" where
  "steady db \<longleftrightarrow> faults db = [] \<and> has_meta db"

lemma steady_keep:
  assumes "keeps quiet m" "keeps (frame_other t) m" "m db = (r, db')" "steady db"
  shows "steady db'"
  using keepsD' [OF assms(1,3)] keepsD' [OF assms(2,3)] assms(4)
  by (simp add: steady_def quiet_def frame_other_def)

lemma steady_version: "steady db \<Longrightarrow> \<exists>v. SchemaVersion a d db = (Inr v, db)"
  by (simp add: steady_def SchemaVersion_def GetSchemaVersion_total)

lemma steady_merge:
  assumes "steady db" "\<forall>op \<in> set ops. marshalable (Value op)"
  shows "\<exists>db'. MergeOps a u d ops db = (Inr (), db') \<and> steady db'
    \<and> log_of a u d db' = apply_ops insert_ignore ops (log_of a u d db)"
proof -
  obtain db' where m: "MergeOps a u d ops db = (Inr (), db')"
    using MergeOps_total assms unfolding steady_def by blast
  then show ?thesis
    using steady_keep [OF quiet_inv.MergeOps_keeps frame_inv.MergeOps_keeps m assms(1)] MergeOps_Inr [OF m] by blast
qed

lemma steady_delta:
  assumes "steady db"
  shows "\<exists>ops mx db'. GetDelta a u d since db = (Inr (ops, mx), db') \<and> steady db'
    \<and> log_of a u d db' = log_of a u d db \<and> ops = map row_to_op (select_ops since (log_of a u d db))"
proof -
  obtain ops mx db' where g: "GetDelta a u d since db = (Inr (ops, mx), db')"
    using GetDelta_total assms unfolding steady_def by blast
  then show ?thesis
    using steady_keep [OF quiet_inv.GetDelta_keeps frame_inv.GetDelta_keeps g assms] GetDelta_Inr [OF g] by blast
qed

lemma steady_snapshot:
  assumes "steady db"
  shows "\<exists>flat mx db'. GetSnapshot rg a u d db = (Inr (flat, mx), db') \<and> steady db'
    \<and> log_of a u d db' = log_of a u d db"
proof -
  obtain flat mx db' where g: "GetSnapshot rg a u d db = (Inr (flat, mx), db')"
    using GetSnapshot_total assms unfolding steady_def by blast
  then show ?thesis
    using steady_keep [OF quiet_inv.GetSnapshot_keeps frame_inv.GetSnapshot_keeps g assms] GetSnapshot_Inr [OF g] by blast
qed

lemma steady_count:
  assumes "steady db"
  shows "\<exists>db'. OpCount a u d db = (Inr (int (length (filter (\<lambda>r. row_status r = ''active'') (log_of a u d db)))), db')
    \<and> steady db' \<and> log_of a u d db' = log_of a u d db"
proof -
  obtain n db' where c: "OpCount a u d db = (Inr n, db')"
    using OpCount_total assms unfolding steady_def by blast
  then show ?thesis
    using steady_keep [OF quiet_inv.OpCount_keeps frame_inv.OpCount_keeps c assms] OpCount_Inr [OF c] by blast
qed

lemma steady_compact:
  assumes "steady db"
  shows "\<exists>db'. Compact rg a u d db = (Inr (), db') \<and> steady db'
    \<and> log_of a u d db' = compact_rows (OpID ` winners (live_ops (log_of a u d db))) (log_of a u d db)"
proof -
  obtain db' where c: "Compact rg a u d db = (Inr (), db')"
    using Compact_total assms unfolding steady_def by blast
  then show ?thesis
    using steady_keep [OF quiet_inv.Compact_keeps frame_inv.Compact_keeps c assms] Compact_log [OF c] by blast
qed

lemma steady_maybe_compact:
  assumes "steady db"
  shows "\<exists>db'. MaybeCompact (crsqlite rg) a u d th db = (Inr (), db') \<and> steady db'
    \<and> log_of a u d db' = (if int (length (filter (\<lambda>r. row_status r = ''active'') (log_of a u d db))) > th
        then compact_rows (OpID ` winners (live_ops (log_of a u d db))) (log_of a u d db) else log_of a u d db)"
proof -
  let ?n = "int (length (filter (\<lambda>r. row_status r = ''active'') (log_of a u d db)))"
  obtain db1 where c: "OpCount a u d db = (Inr ?n, db1)" "steady db1" "log_of a u d db1 = log_of a u d db"
    using steady_count [OF assms] by blast
  obtain db2 where "Compact rg a u d db1 = (Inr (), db2)" "steady db2"
      "log_of a u d db2 = compact_rows (OpID ` winners (live_ops (log_of a u d db))) (log_of a u d db)"
    using steady_compact [OF c(2)] c(3) by metis
  then show ?thesis using c by (simp add: MaybeCompact_def crsqlite_def)
qed

lemma on_store_eq: "m (w_store w) = (r, s) \<Longrightarrow> on_store m w = (r, w\<lparr>w_store := s\<rparr>)"
  by (simp add: on_store_def)

lemma steady_Sync_snapshot:
  assumes "steady (w_store w)"
  shows "\<exists>snap db. Sync_snapshot (NewEngine (crsqlite rg) nt th) msg w = (Inr snap, w\<lparr>w_store := db\<rparr>)
    \<and> steady db \<and> log_of (msg_AppID msg) (msg_UserID msg) (msg_DatasetID msg) db
        = log_of (msg_AppID msg) (msg_UserID msg) (msg_DatasetID msg) (w_store w)"
proof -
  let ?a = "msg_AppID msg" and ?u = "msg_UserID msg" and ?d = "msg_DatasetID msg"
  let ?e = "NewEngine (crsqlite rg) nt th"
  obtain v where v: "SchemaVersion ?a ?d (w_store w) = (Inr v, w_store w)" using steady_version [OF assms] by blast
  have need: "on_store (NeedsSnapshot (eng_store ?e) ?a ?d (msg_ClientSchemaVersion msg)) w
      = (Inr (v > msg_ClientSchemaVersion msg), w)"
    using v by (simp add: on_store_def NeedsSnapshot_def NewEngine_def crsqlite_def)
  show ?thesis
  proof (cases "v > msg_ClientSchemaVersion msg")
    case True
    obtain flat mx db where g: "GetSnapshot rg ?a ?u ?d (w_store w) = (Inr (flat, mx), db)" "steady db"
        "log_of ?a ?u ?d db = log_of ?a ?u ?d (w_store w)"
      using steady_snapshot [OF assms] by blast
    then have "on_store (sb_GetSnapshot (eng_store ?e) ?a ?u ?d) w = (Inr (flat, mx), w\<lparr>w_store := db\<rparr>)"
      by (simp add: on_store_def NewEngine_def crsqlite_def)
    then have "Sync_snapshot ?e msg w = (Inr (Some flat), w\<lparr>w_store := db\<rparr>)"
      using True need by (simp add: Sync_snapshot_def)
    then show ?thesis using g(2,3) by blast
  next
    case False
    then have "Sync_snapshot ?e msg w = (Inr None, w\<lparr>w_store := w_store w\<rparr>)"
      using need by (simp add: Sync_snapshot_def)
    then show ?thesis using assms by blast
  qed
qed

lemma steady_Sync_push:
  assumes "steady (w_store w)" "\<forall>op \<in> set (msg_Ops msg). marshalable (Value op)"
  shows "\<exists>db n. Sync_push (NewEngine (crsqlite rg) nt th) msg w = (Inr (), w\<lparr>w_store := db, w_notifier := n\<rparr>)
    \<and> steady db \<and> log_of (msg_AppID msg) (msg_UserID msg) (msg_DatasetID msg) db
        = push_log th (msg_Ops msg) (log_of (msg_AppID msg) (msg_UserID msg) (msg_DatasetID msg) (w_store w))"
proof (cases "msg_Ops msg = []")
  case True
  then have "Sync_push (NewEngine (crsqlite rg) nt th) msg w = (Inr (), w\<lparr>w_store := w_store w, w_notifier := w_notifier w\<rparr>)"
    by (simp add: Sync_push_def)
  then show ?thesis using assms(1) True by (fastforce simp: push_log_def)
next
  case False
  let ?a = "msg_AppID msg" and ?u = "msg_UserID msg" and ?d = "msg_DatasetID msg"
  obtain db1 where 1: "MergeOps ?a ?u ?d (msg_Ops msg) (w_store w) = (Inr (), db1)" "steady db1"
      "log_of ?a ?u ?d db1 = apply_ops insert_ignore (msg_Ops msg) (log_of ?a ?u ?d (w_store w))"
    using steady_merge [OF assms] by blast
  obtain r n where 2: "nt ?a ?u (w_notifier w) = (r, n)" by (cases "nt ?a ?u (w_notifier w)")
  obtain db2 where 3: "MaybeCompact (crsqlite rg) ?a ?u ?d th db1 = (Inr (), db2)" "steady db2"
      "log_of ?a ?u ?d db2 = (if int (length (filter (\<lambda>r. row_status r = ''active'') (log_of ?a ?u ?d db1))) > th
        then compact_rows (OpID ` winners (live_ops (log_of ?a ?u ?d db1))) (log_of ?a ?u ?d db1)
        else log_of ?a ?u ?d db1)"
    using steady_maybe_compact [OF 1(2)] by blast
  have "Sync_push (NewEngine (crsqlite rg) nt th) msg w = (Inr (), w\<lparr>w_store := db2, w_notifier := n\<rparr>)"
    using False 1(1) 2 3(1)
    by (cases r) (simp_all add: Sync_push_def NewEngine_def crsqlite_def on_store_def on_notifier_def dropP_def bindP_def)
  moreover have "log_of ?a ?u ?d db2 = push_log th (msg_Ops msg) (log_of ?a ?u ?d (w_store w))"
    using 1(3) 3(3) False by (simp add: push_log_def Let_def)
  ultimately show ?thesis using 3(2) by blast
qed

text \<open>The whole request.\<close>

lemma Sync_steady:
  assumes "steady (w_store w)" "\<forall>op \<in> set (msg_Ops msg). marshalable (Value op)"
  shows "\<exists>resp w'. Sync (NewEngine (crsqlite rg) nt th) wall msg w = (Inr resp, w') \<and> steady (w_store w')
    \<and> log_of (msg_AppID msg) (msg_UserID msg) (msg_DatasetID msg) (w_store w')
        = push_log th (msg_Ops msg) (log_of (msg_AppID msg) (msg_UserID msg) (msg_DatasetID msg) (w_store w))
    \<and> resp_Ops resp = map row_to_op (select_ops (msg_Clock msg)
        (log_of (msg_AppID msg) (msg_UserID msg) (msg_DatasetID msg) (w_store w')))"
proof -
  let ?a = "msg_AppID msg" and ?u = "msg_UserID msg" and ?d = "msg_DatasetID msg"
  let ?e = "NewEngine (crsqlite rg) nt th"
  obtain sc clk where rc: "Receive wall (msg_Clock msg) (w_clock w) = (sc, clk)"
    by (cases "Receive wall (msg_Clock msg) (w_clock w)")
  let ?w = "w\<lparr>w_clock := clk\<rparr>"
  obtain snap db1 where 1: "Sync_snapshot ?e msg ?w = (Inr snap, ?w\<lparr>w_store := db1\<rparr>)" "steady db1"
      "log_of ?a ?u ?d db1 = log_of ?a ?u ?d (w_store w)"
    using steady_Sync_snapshot [where w = ?w and msg = msg and rg = rg and nt = nt and th = th] assms(1) by auto
  let ?w1 = "?w\<lparr>w_store := db1\<rparr>"
  obtain db2 n where 2: "Sync_push ?e msg ?w1 = (Inr (), ?w1\<lparr>w_store := db2, w_notifier := n\<rparr>)" "steady db2"
      "log_of ?a ?u ?d db2 = push_log th (msg_Ops msg) (log_of ?a ?u ?d (w_store w))"
    using steady_Sync_push [where w = ?w1 and msg = msg and rg = rg and nt = nt and th = th] 1(2,3) assms(2) by auto
  obtain ops mx db3 where 3: "GetDelta ?a ?u ?d (msg_Clock msg) db2 = (Inr (ops, mx), db3)" "steady db3"
      "log_of ?a ?u ?d db3 = log_of ?a ?u ?d db2" "ops = map row_to_op (select_ops (msg_Clock msg) (log_of ?a ?u ?d db2))"
    using steady_delta [OF 2(2)] by blast
  obtain v where 4: "SchemaVersion ?a ?d db3 = (Inr v, db3)" using steady_version [OF 3(2)] by blast
  have "Sync ?e wall msg w = (Inr \<lparr>resp_NewClock = (if WallTime mx = 0 then sc else mx), resp_Ops = ops,
      resp_Snapshot = snap, resp_SchemaVersion = v\<rparr>, ?w1\<lparr>w_store := db3, w_notifier := n\<rparr>)"
    using rc 1(1) 2(1) 3(1) 4
    by (simp add: Sync_def Sync_delta_def bindP_def on_store_def dropP_def NewEngine_def crsqlite_def)
  then show ?thesis using 3 2(3) by simp
qed

section \<open>Properties\<close>

text \<open>
  A successful request moves the client's cursor strictly forward, and every operation it
  returns lies after the old cursor and not after the new one, as long as neither clock is
  at its end and the machine's time is positive.
\<close>

theorem Sync_advances_cursor:
  assumes "Sync (NewEngine (crsqlite rg) nt th) wall msg w = (Inr resp, w')"
    and "\<not> saturated (clk_last (w_clock w))" "\<not> saturated (msg_Clock msg)" "0 < sint wall"
  shows "msg_Clock msg < resp_NewClock resp
    \<and> (\<forall>op \<in> set (resp_Ops resp). msg_Clock msg < Timestamp op \<and> Timestamp op \<le> resp_NewClock resp)"
  using assms by (rule crsqlite.Sync_cursor)

definition fresh_world :: "(database, broadcaster) world" where
  "fresh_world = \<lparr>w_store = empty_db\<lparr>has_meta := True\<rparr>, w_notifier = NewBroadcaster, w_clock = NewClock ''server''\<rparr>"

definition message :: "string \<Rightarrow> hlc \<Rightarrow> crdt_op list \<Rightarrow> sync_message" where
  "message user cursor ops =
     \<lparr>msg_AppID = ''app1'', msg_UserID = user, msg_DatasetID = ''ds1'', msg_Clock = cursor, msg_Ops = ops,
      msg_ClientSchemaVersion = 1\<rparr>"

definition server :: "int \<Rightarrow> (database, broadcaster) engine" where
  "server th = NewEngine (crsqlite no_shuffle) Notify th"

lemma steady_fresh_world [simp]: "steady (w_store fresh_world)"
  by (simp add: steady_def fresh_world_def empty_db_def)

lemma log_fresh_world [simp]: "log_of a u d (w_store fresh_world) = []"
  by (simp add: fresh_world_def log_of_def table_rows_def empty_db_def)

lemma message_sel [simp]:
  "msg_AppID (message u c ops) = ''app1''" "msg_UserID (message u c ops) = u"
  "msg_DatasetID (message u c ops) = ''ds1''" "msg_Clock (message u c ops) = c" "msg_Ops (message u c ops) = ops"
  by (simp_all add: message_def)

lemma three_ops_marshalable: "\<forall>op \<in> set three_ops. marshalable (Value op)"
  by (simp add: three_ops_def)

lemma push_three_ops:
  obtains resp w' where
    "Sync (NewEngine (crsqlite no_shuffle) Notify th) wall (message ''user1'' zero_hlc three_ops) fresh_world = (Inr resp, w')"
    "steady (w_store w')"
    "log_of ''app1'' ''user1'' ''ds1'' (w_store w') = push_log th three_ops []"
  using Sync_steady [OF steady_fresh_world, of "message ''user1'' zero_hlc three_ops" no_shuffle Notify th wall]
    three_ops_marshalable by auto

theorem Sync_advances_cursor_witness:
  "\<exists>resp w'. Sync (NewEngine (crsqlite no_shuffle) Notify 1000) 5 (message ''user1'' zero_hlc three_ops) fresh_world
       = (Inr resp, w') \<and> zero_hlc < resp_NewClock resp"
proof -
  obtain resp w' where S: "Sync (NewEngine (crsqlite no_shuffle) Notify 1000) 5 (message ''user1'' zero_hlc three_ops)
      fresh_world = (Inr resp, w')"
    by (rule push_three_ops)
  have "\<not> saturated (clk_last (w_clock fresh_world))" "\<not> saturated (msg_Clock (message ''user1'' zero_hlc three_ops))"
    "0 < sint (5 :: 64 word)"
    by (simp_all add: saturated_def fresh_world_def NewClock_def)
  from Sync_advances_cursor [OF S this] show ?thesis using S by auto
qed









section \<open>Notifications\<close>

lemma Sync_push_Inl:
  assumes "Sync_push e msg w = (Inl err, w')"
  shows "w_notifier w' = w_notifier w"
  using assms by (auto simp: Sync_push_def bindP_eq_Inl bindP_eq_Inr on_store_Inl split: if_splits)

lemma Sync_delta_notifier:
  assumes "Sync_delta e msg sc snap w = (r, w')"
  shows "w_notifier w' = w_notifier w"
  using assms
  by (cases r) (auto simp: Sync_delta_def bindP_eq_Inl bindP_eq_Inr on_store_Inl on_store_Inr dropP_Inr
      split: prod.splits)

text \<open>
  Notifications follow merges.  A request that pushed and succeeded leaves an event for
  every channel subscribed to its user; one that pushed nothing, or whose merge failed,
  notifies nobody.
\<close>

theorem Sync_notifies:
  assumes "Sync (NewEngine sb Notify th) wall msg w = (r, w')"
  shows "(if msg_Ops msg = [] then w_notifier w' = w_notifier w
      else case r of
          Inr resp \<Rightarrow> \<forall>ch \<in> set (subs_at (w_notifier w) (subKey (msg_AppID msg) (msg_UserID msg))). chans (w_notifier w') ch \<noteq> []
        | Inl e \<Rightarrow> w_notifier w' = w_notifier w
            \<or> (\<exists>s s'. sb_MergeOps sb (msg_AppID msg) (msg_UserID msg) (msg_DatasetID msg) (msg_Ops msg) s = (Inr (), s')))"
proof -
  let ?e = "NewEngine sb Notify th"
  let ?n = "snd (Notify (msg_AppID msg) (msg_UserID msg) (w_notifier w))"
  obtain sc clk where rc: "Receive wall (msg_Clock msg) (w_clock w) = (sc, clk)"
    by (cases "Receive wall (msg_Clock msg) (w_clock w)")
  let ?w = "w\<lparr>w_clock := clk\<rparr>"
  have S: "bindP (Sync_snapshot ?e msg) (\<lambda>snapshot. bindP (Sync_push ?e msg) (\<lambda>_. Sync_delta ?e msg sc snapshot)) ?w = (r, w')"
    using assms by (simp add: Sync_def rc)
  consider (snapshot) err where "Sync_snapshot ?e msg ?w = (Inl err, w')" "r = Inl err"
    | (push) snap w1 err where "Sync_snapshot ?e msg ?w = (Inr snap, w1)" "Sync_push ?e msg w1 = (Inl err, w')" "r = Inl err"
    | (delta) snap w1 w2 where "Sync_snapshot ?e msg ?w = (Inr snap, w1)" "Sync_push ?e msg w1 = (Inr (), w2)"
        "Sync_delta ?e msg sc snap w2 = (r, w')"
    using S by (cases r) (auto simp: bindP_eq_Inl bindP_eq_Inr)
  then show ?thesis
  proof cases
    case snapshot
    then show ?thesis using Sync_snapshot_notifier [OF snapshot(1)] by simp
  next
    case push
    then show ?thesis using Sync_snapshot_notifier [OF push(1)] Sync_push_Inl [OF push(2)] by simp
  next
    case delta
    have 1: "w_notifier w1 = w_notifier w" using Sync_snapshot_notifier [OF delta(1)] by simp
    have 3: "w_notifier w' = w_notifier w2" using Sync_delta_notifier [OF delta(3)] .
    show ?thesis
    proof (cases "msg_Ops msg = []")
      case True
      then show ?thesis using 1 3 delta(2) by (simp add: Sync_push_Nil)
    next
      case False
      obtain s1 where "sb_MergeOps sb (msg_AppID msg) (msg_UserID msg) (msg_DatasetID msg) (msg_Ops msg) (w_store w1)
          = (Inr (), s1)" "w_notifier w2 = ?n"
        using delta(2) False by (rule Sync_push_Inr) (simp add: NewEngine_def 1)
      then show ?thesis using False 3 by (cases r) (auto simp: Notify_chans)
    qed
  qed
qed

theorem Sync_notifies_witness:
  "\<exists>resp w'. Sync (NewEngine (crsqlite no_shuffle) Notify 2) 5 (message ''user1'' zero_hlc three_ops)
       (fresh_world\<lparr>w_notifier := snd (Subscribe ''app1'' ''user1'' NewBroadcaster)\<rparr>) = (Inr resp, w')
     \<and> chans (w_notifier w') 0 \<noteq> []"
proof -
  let ?w = "fresh_world\<lparr>w_notifier := snd (Subscribe ''app1'' ''user1'' NewBroadcaster)\<rparr>"
  have "steady (w_store ?w)" using steady_fresh_world by simp
  then obtain resp w' where S: "Sync (NewEngine (crsqlite no_shuffle) Notify 2) 5 (message ''user1'' zero_hlc three_ops) ?w
      = (Inr resp, w')"
    using Sync_steady [of ?w "message ''user1'' zero_hlc three_ops" no_shuffle Notify 2 5] three_ops_marshalable by auto
  have "0 \<in> set (subs_at (w_notifier ?w) (subKey ''app1'' ''user1''))"
    by (simp add: subs_at_Subscribe) (simp add: NewBroadcaster_def)
  then show ?thesis using Sync_notifies [OF S] S by (auto simp: three_ops_def)
qed

section \<open>Operations that arrive late\<close>

definition at_time :: "int \<Rightarrow> string \<Rightarrow> hlc" where
  "at_time t dev = \<lparr>WallTime = word_of_int t, Logical = 0, DeviceID = dev\<rparr>"

text \<open>
  Device A syncs at time 1000 and has nothing to push; device B, which was offline, then pushes
  an operation it made at time 500; device A syncs again with the cursor it was given.
\<close>

definition idle_sync :: "(err + sync_response) \<times> (database, broadcaster) world" where
  "idle_sync = Sync (server 1000) 1000 (message ''user1'' zero_hlc []) fresh_world"

definition cursor_A :: hlc where
  "cursor_A = (case fst idle_sync of Inl e \<Rightarrow> zero_hlc | Inr resp \<Rightarrow> resp_NewClock resp)"

definition offline_push :: "(err + sync_response) \<times> (database, broadcaster) world" where
  "offline_push = Sync (server 1000) 2000
     (message ''user1'' zero_hlc [op_at ''op1'' ''doc1'' ''name'' ''Alice'' 500]) (snd idle_sync)"

definition late_sync :: "(err + sync_response) \<times> (database, broadcaster) world" where
  "late_sync = Sync (server 1000) 3000 (message ''user1'' cursor_A []) (snd offline_push)"


end
