(* ===== verification/Auth_Store.thy ===== *)
theory Auth_Store
  imports Meta_Store
begin

text \<open>
  \<open>server/auth/store.go\<close> and \<open>storage/crsqlite/authstore.go\<close>: the store of device keys, as an
  interface and on the metadata tables.  The locale \<open>auth_store\<close> is what the device service
  relies on; the tables provide it.
\<close>

section \<open>The interface\<close>

record 's auth_store =
  CreateDeviceKey :: "device_key \<Rightarrow> ('s, err, unit) prog"
  GetDeviceKey :: "string \<Rightarrow> ('s, err, device_key) prog"
  UpdateDeviceKey :: "device_key \<Rightarrow> ('s, err, unit) prog"

text \<open>
  \<open>lookup\<close> is the store's content.  A call that fails leaves it as it was; a key that exists
  is never created again; an update changes the hash and the status of its key and the time
  it was last seen, and nothing else.
\<close>

locale auth_store =
  fixes store :: "'s auth_store" and lookup :: "string \<Rightarrow> 's \<Rightarrow> device_key option"
  assumes get_Inr: "GetDeviceKey store k s = (Inr dk, s') \<Longrightarrow> lookup k s = Some dk"
    and get_keeps: "keeps (\<lambda>s s'. \<forall>k. lookup k s' = lookup k s) (GetDeviceKey store k)"
    and create_Inr: "CreateDeviceKey store dk s = (Inr x, s') \<Longrightarrow>
        lookup (dk_DeviceKeyID dk) s = None
        \<and> (\<forall>k. lookup k s' = (if k = dk_DeviceKeyID dk then Some (dk\<lparr>dk_LastSeenAt := None\<rparr>) else lookup k s))"
    and create_Inl: "CreateDeviceKey store dk s = (Inl e, s') \<Longrightarrow> lookup k s' = lookup k s"
    and update_Inr: "UpdateDeviceKey store dk s = (Inr x, s') \<Longrightarrow>
        \<exists>now. \<forall>k. lookup k s' = (if k = dk_DeviceKeyID dk
          then map_option (\<lambda>r. r\<lparr>dk_KeyHash := dk_KeyHash dk, dk_Status := dk_Status dk, dk_LastSeenAt := Some now\<rparr>)
            (lookup k s)
          else lookup k s)"
    and update_Inl: "UpdateDeviceKey store dk s = (Inl e, s') \<Longrightarrow> lookup k s' = lookup k s"
    and lookup_id: "lookup k s = Some dk \<Longrightarrow> dk_DeviceKeyID dk = k"

section \<open>The store on the metadata tables\<close>

definition insert_key :: "device_key \<Rightarrow> unit dbprog" where
  "insert_key dk db =
     (if dk_DeviceKeyID dk \<in> dk_DeviceKeyID ` set (device_keys db)
      then (Inl (ErrConstraint ''device_keys.device_key_id''), db)
      else (Inr (), db\<lparr>device_keys := device_keys db @ [dk\<lparr>dk_LastSeenAt := None\<rparr>]\<rparr>))"

definition find_key :: "string \<Rightarrow> database \<Rightarrow> device_key option" where
  "find_key k db = find (\<lambda>r. dk_DeviceKeyID r = k) (device_keys db)"

definition select_key :: "string \<Rightarrow> device_key dbprog" where
  "select_key k db = (case find_key k db of None \<Rightarrow> (Inl ErrNoRows, db) | Some r \<Rightarrow> (Inr r, db))"

definition update_key :: "int \<Rightarrow> device_key \<Rightarrow> unit dbprog" where
  "update_key now dk db =
     (Inr (), db\<lparr>device_keys := map (\<lambda>r. if dk_DeviceKeyID r = dk_DeviceKeyID dk
        then r\<lparr>dk_KeyHash := dk_KeyHash dk, dk_Status := dk_Status dk, dk_LastSeenAt := Some now\<rparr> else r)
        (device_keys db)\<rparr>)"

definition db_CreateDeviceKey :: "device_key \<Rightarrow> unit dbprog" where
  "db_CreateDeviceKey dk = sql (on_meta (insert_key dk))"

definition db_GetDeviceKey :: "string \<Rightarrow> device_key dbprog" where
  "db_GetDeviceKey deviceKeyID db =
     (case sql (on_meta (select_key deviceKeyID)) db of
        (Inl e, db') \<Rightarrow> (Inl (if e = ErrNoRows then ErrDeviceNotFound else e), db')
      | (Inr dk, db') \<Rightarrow> (Inr dk, db'))"

text \<open>\<open>now\<close> is the reading of \<open>time.Now()\<close> in the call.\<close>

definition db_UpdateDeviceKey :: "int \<Rightarrow> device_key \<Rightarrow> unit dbprog" where
  "db_UpdateDeviceKey now dk = sql (on_meta (update_key now dk))"

definition NewAuthStore :: "int \<Rightarrow> database auth_store" where
  "NewAuthStore now =
     \<lparr>CreateDeviceKey = db_CreateDeviceKey, GetDeviceKey = db_GetDeviceKey,
      UpdateDeviceKey = db_UpdateDeviceKey now\<rparr>"

section \<open>The tables provide the interface\<close>

lemma find_key_same_content: "same_content db db' \<Longrightarrow> find_key k db' = find_key k db"
  by (simp add: find_key_def same_contentD)

lemma find_key_Some: "find_key k db = Some r \<Longrightarrow> dk_DeviceKeyID r = k"
  by (auto simp: find_key_def find_Some_iff)

lemma find_key_insert:
  "find_key k (db\<lparr>device_keys := device_keys db @ [r]\<rparr>) =
     (case find_key k db of None \<Rightarrow> (if dk_DeviceKeyID r = k then Some r else None) | Some x \<Rightarrow> Some x)"
  by (simp add: find_key_def find_append split: option.split)

lemma find_key_None: "find_key k db = None \<longleftrightarrow> k \<notin> dk_DeviceKeyID ` set (device_keys db)"
  by (auto simp: find_key_def find_None_iff)

lemma find_map_update:
  "(\<And>r. dk_DeviceKeyID (f r) = dk_DeviceKeyID r) \<Longrightarrow>
     find (\<lambda>r. dk_DeviceKeyID r = k) (map (\<lambda>r. if dk_DeviceKeyID r = k' then f r else r) rs)
       = (if k = k' then map_option f else id) (find (\<lambda>r. dk_DeviceKeyID r = k) rs)"
  by (induction rs) auto

lemma find_key_update:
  "find_key k (snd (update_key now dk db)) =
     (if k = dk_DeviceKeyID dk
      then map_option (\<lambda>r. r\<lparr>dk_KeyHash := dk_KeyHash dk, dk_Status := dk_Status dk, dk_LastSeenAt := Some now\<rparr>)
        (find_key k db)
      else find_key k db)"
  by (simp add: find_key_def update_key_def find_map_update)

lemma sql_on_meta_Inr:
  assumes "sql (on_meta f) db = (Inr x, db')"
  obtains db1 where "same_content db db1" "f db1 = (Inr x, db')"
  using assms by (rule sql_Inr) (auto simp: on_meta_def split: if_splits)

lemma sql_on_meta_Inl:
  assumes "sql (on_meta f) db = (Inl e, db')" "\<And>db e db'. f db = (Inl e, db') \<Longrightarrow> db' = db"
  shows "same_content db db'"
  using assms(1)
  by (cases rule: sql_cases [of "on_meta f" db]) (auto simp: on_meta_def dest: assms(2) split: if_splits)

interpretation crsqlite_auth: auth_store "NewAuthStore now" find_key
proof unfold_locales
  fix k s dk s'
  assume "GetDeviceKey (NewAuthStore now) k s = (Inr dk, s')"
  then have "sql (on_meta (select_key k)) s = (Inr dk, s')"
    by (auto simp: NewAuthStore_def db_GetDeviceKey_def split: prod.splits sum.splits)
  then show "find_key k s = Some dk"
    by (rule sql_on_meta_Inr) (auto simp: select_key_def find_key_same_content split: option.splits)
next
  fix k
  have "same_content s (snd (db_GetDeviceKey k s))" for s
  proof -
    have "same_content s (snd (sql (on_meta (select_key k)) s))"
      by (cases rule: sql_cases [of "on_meta (select_key k)" s])
        (auto simp: on_meta_def select_key_def split: option.split)
    then show ?thesis by (auto simp: db_GetDeviceKey_def split: prod.split sum.split)
  qed
  then show "keeps (\<lambda>s s'. \<forall>k. find_key k s' = find_key k s) (GetDeviceKey (NewAuthStore now) k)"
    by (simp add: keeps_def NewAuthStore_def find_key_same_content)
next
  fix dk s x s'
  assume "CreateDeviceKey (NewAuthStore now) dk s = (Inr x, s')"
  then have "sql (on_meta (insert_key dk)) s = (Inr x, s')" by (simp add: NewAuthStore_def db_CreateDeviceKey_def)
  then obtain s1 where s1: "same_content s s1" "insert_key dk s1 = (Inr x, s')" by (rule sql_on_meta_Inr)
  have new: "find_key (dk_DeviceKeyID dk) s1 = None"
    using s1(2) by (auto simp: insert_key_def find_key_None split: if_splits)
  moreover have "s' = s1\<lparr>device_keys := device_keys s1 @ [dk\<lparr>dk_LastSeenAt := None\<rparr>]\<rparr>"
    using s1(2) by (auto simp: insert_key_def split: if_splits)
  ultimately show "find_key (dk_DeviceKeyID dk) s = None
      \<and> (\<forall>k. find_key k s' = (if k = dk_DeviceKeyID dk then Some (dk\<lparr>dk_LastSeenAt := None\<rparr>) else find_key k s))"
    by (auto simp: find_key_insert find_key_same_content [OF s1(1)] split: option.split)
next
  fix dk s e s' k
  assume "CreateDeviceKey (NewAuthStore now) dk s = (Inl e, s')"
  then show "find_key k s' = find_key k s"
    by (intro find_key_same_content sql_on_meta_Inl [of "insert_key dk"])
      (auto simp: NewAuthStore_def db_CreateDeviceKey_def insert_key_def split: if_splits)
next
  fix dk s x s'
  assume "UpdateDeviceKey (NewAuthStore now) dk s = (Inr x, s')"
  then have "sql (on_meta (update_key now dk)) s = (Inr x, s')" by (simp add: NewAuthStore_def db_UpdateDeviceKey_def)
  then obtain s1 where s1: "same_content s s1" "update_key now dk s1 = (Inr x, s')" by (rule sql_on_meta_Inr)
  then have "s' = snd (update_key now dk s1)" by simp
  then show "\<exists>now. \<forall>k. find_key k s' = (if k = dk_DeviceKeyID dk
      then map_option (\<lambda>r. r\<lparr>dk_KeyHash := dk_KeyHash dk, dk_Status := dk_Status dk, dk_LastSeenAt := Some now\<rparr>)
        (find_key k s) else find_key k s)"
    by (auto simp: find_key_update find_key_same_content [OF s1(1)])
next
  fix dk s e s' k
  assume "UpdateDeviceKey (NewAuthStore now) dk s = (Inl e, s')"
  then show "find_key k s' = find_key k s"
    by (intro find_key_same_content sql_on_meta_Inl [of "update_key now dk"])
      (auto simp: NewAuthStore_def db_UpdateDeviceKey_def update_key_def)
qed (rule find_key_Some)

end
