(* ===== verification/Device.thy ===== *)
theory Device
  imports Auth_Store
begin

text \<open>
  \<open>server/auth/device.go\<close>: registration, verification, rotation and revocation of device keys,
  over any store that provides \<open>auth_store\<close>.  The random bytes, the new UUID, the reading
  of the clock and bcrypt are not code of the repository: \<open>rand\<close>, \<open>uuid\<close> and \<open>now\<close> are the
  outcomes of their calls, \<open>gen\<close> is \<open>GenerateFromPassword\<close> with the salt it draws in the call,
  and \<open>cmp\<close> says when \<open>CompareHashAndPassword\<close> returns nil.
\<close>

section \<open>Secrets\<close>

definition hex_digit :: "nat \<Rightarrow> char" where
  "hex_digit n = ''0123456789abcdef'' ! (n mod 16)"

definition hex_encode :: "string \<Rightarrow> string" where
  "hex_encode bs = concat (map (\<lambda>b. [hex_digit (of_char b div 16), hex_digit (of_char b)]) bs)"

text \<open>\<open>rand\<close> is what \<open>rand.Read\<close> put into the buffer, or its error.\<close>

definition randomHex :: "err + string \<Rightarrow> err + string" where
  "randomHex rand = map_sum id hex_encode rand"

section \<open>The device service\<close>

definition Register :: "'s auth_store \<Rightarrow> (string \<Rightarrow> err + string) \<Rightarrow> err + string \<Rightarrow> string \<Rightarrow> int
    \<Rightarrow> string \<Rightarrow> string \<Rightarrow> ('s, err, string \<times> string) prog" where
  "Register store gen rand uuid now appID deviceID =
     (case randomHex rand of
        Inl e \<Rightarrow> failP (Wrap ''generate secret'' e)
      | Inr secret \<Rightarrow>
          (case gen secret of
             Inl e \<Rightarrow> failP (Wrap ''hash secret'' e)
           | Inr hash \<Rightarrow>
               bindP (CreateDeviceKey store
                 \<lparr>dk_DeviceKeyID = uuid, dk_DeviceID = deviceID, dk_AppID = appID, dk_KeyHash = hash,
                  dk_Status = ''active'', dk_RegisteredAt = now, dk_LastSeenAt = None\<rparr>)
                 (\<lambda>_. retP (uuid, secret))))"

text \<open>Any error of the store, also one of the driver, is reported as \<open>ErrDeviceNotFound\<close>.\<close>

definition Verify :: "'s auth_store \<Rightarrow> (string \<Rightarrow> string \<Rightarrow> bool) \<Rightarrow> string \<Rightarrow> string \<Rightarrow> ('s, err, unit) prog" where
  "Verify store cmp deviceKeyID secret =
     bindP (wrapP (\<lambda>_. ErrDeviceNotFound) (GetDeviceKey store deviceKeyID)) (\<lambda>dk.
     if dk_Status dk \<noteq> ''active'' then failP ErrDeviceRevoked
     else if \<not> cmp (dk_KeyHash dk) secret then failP ErrInvalidSecret
     else retP ())"

definition RotateKey :: "'s auth_store \<Rightarrow> (string \<Rightarrow> string \<Rightarrow> bool) \<Rightarrow> (string \<Rightarrow> err + string)
    \<Rightarrow> string \<Rightarrow> string \<Rightarrow> string \<Rightarrow> ('s, err, unit) prog" where
  "RotateKey store cmp gen deviceKeyID oldSecret newSecret =
     bindP (wrapP (\<lambda>_. ErrDeviceNotFound) (GetDeviceKey store deviceKeyID)) (\<lambda>dk.
     if dk_Status dk \<noteq> ''active'' then failP ErrDeviceRevoked
     else if \<not> cmp (dk_KeyHash dk) oldSecret then failP ErrInvalidSecret
     else (case gen newSecret of
             Inl e \<Rightarrow> failP e
           | Inr hash \<Rightarrow> UpdateDeviceKey store (dk\<lparr>dk_KeyHash := hash\<rparr>)))"

definition Revoke :: "'s auth_store \<Rightarrow> string \<Rightarrow> ('s, err, unit) prog" where
  "Revoke store deviceKeyID =
     bindP (wrapP (\<lambda>_. ErrDeviceNotFound) (GetDeviceKey store deviceKeyID)) (\<lambda>dk.
     UpdateDeviceKey store (dk\<lparr>dk_Status := ''revoked''\<rparr>))"

text \<open>What is used of bcrypt: a password matches the hash generated from it.\<close>

definition bcrypt_ok :: "(string \<Rightarrow> err + string) \<Rightarrow> (string \<Rightarrow> string \<Rightarrow> bool) \<Rightarrow> bool" where
  "bcrypt_ok gen cmp \<longleftrightarrow> (\<forall>p h. gen p = Inr h \<longrightarrow> cmp h p)"

lemma length_hex_encode: "length (hex_encode bs) = 2 * length bs"
  by (induction bs) (simp_all add: hex_encode_def)

lemma hex_digit_inj: "m < 16 \<Longrightarrow> n < 16 \<Longrightarrow> hex_digit m = hex_digit n \<Longrightarrow> m = n"
proof -
  assume a: "m < 16" "n < 16" "hex_digit m = hex_digit n"
  have d: "distinct ''0123456789abcdef''" by simp
  show ?thesis
    using a nth_eq_iff_index_eq [OF d, of m n] by (simp add: hex_digit_def)
qed

lemma hex_encode_inj: "hex_encode xs = hex_encode ys \<Longrightarrow> xs = ys"
proof (induction xs arbitrary: ys)
  case Nil
  then show ?case by (cases ys) (simp_all add: hex_encode_def)
next
  case (Cons x xs)
  then obtain y ys' where ys: "ys = y # ys'" by (cases ys) (simp_all add: hex_encode_def)
  have c: "(of_char c :: nat) < 256" for c :: char using of_char_mod_256 [of c] by (metis mod_less_divisor zero_less_numeral)
  have h: "hex_digit (of_char x div 16) = hex_digit (of_char y div 16)" "hex_digit (of_char x) = hex_digit (of_char y)"
    "hex_encode xs = hex_encode ys'"
    using Cons.prems by (simp_all add: ys hex_encode_def)
  have "hex_digit n = hex_digit (n mod 16)" for n by (simp add: hex_digit_def)
  then have "(of_char x :: nat) mod 16 = of_char y mod 16"
    using h(2) hex_digit_inj [of "of_char x mod 16" "of_char y mod 16"] by simp
  moreover have "(of_char x :: nat) div 16 = of_char y div 16"
    using h(1) c [of x] c [of y] by (intro hex_digit_inj) (auto simp: less_mult_imp_div_less)
  ultimately have "(of_char x :: nat) = of_char y" by (metis div_mod_decomp)
  then show ?case using Cons.IH [OF h(3)] ys by simp
qed

section \<open>What the service does over any store\<close>

context auth_store
begin

lemma Verify_Inr:
  assumes "Verify store cmp k secret s = (Inr x, s')"
  shows "\<exists>dk. lookup k s = Some dk \<and> dk_Status dk = ''active'' \<and> cmp (dk_KeyHash dk) secret"
  using assms by (auto simp: Verify_def bindP_eq_Inr dest!: get_Inr split: if_splits)

lemma Verify_Inl:
  assumes "Verify store cmp k secret s = (Inl e, s')"
  shows "e = ErrDeviceNotFound
    \<or> (\<exists>dk. lookup k s = Some dk \<and> (dk_Status dk \<noteq> ''active'' \<and> e = ErrDeviceRevoked
        \<or> dk_Status dk = ''active'' \<and> \<not> cmp (dk_KeyHash dk) secret \<and> e = ErrInvalidSecret))"
  using assms by (auto simp: Verify_def bindP_eq_Inl wrapP_eq_Inl dest!: get_Inr split: if_splits)

lemma Register_Inr:
  assumes "Register store gen rand uuid now app dev s = (Inr (k, secret), s')"
  shows "k = uuid \<and> lookup k s = None \<and> randomHex rand = Inr secret
    \<and> (\<exists>hash. gen secret = Inr hash
        \<and> lookup k s' = Some \<lparr>dk_DeviceKeyID = uuid, dk_DeviceID = dev, dk_AppID = app, dk_KeyHash = hash,
            dk_Status = ''active'', dk_RegisteredAt = now, dk_LastSeenAt = None\<rparr>)"
  using assms by (auto simp: Register_def bindP_eq_Inr dest!: create_Inr split: sum.splits)

lemma Revoke_Inr:
  assumes "Revoke store k s = (Inr x, s')"
  shows "\<exists>dk. lookup k s' = Some dk \<and> dk_Status dk = ''revoked''"
proof -
  obtain dk s1 where g: "GetDeviceKey store k s = (Inr dk, s1)"
    and u: "UpdateDeviceKey store (dk\<lparr>dk_Status := ''revoked''\<rparr>) s1 = (Inr x, s')"
    using assms by (auto simp: Revoke_def bindP_eq_Inr)
  have l: "lookup k s1 = Some dk" using get_Inr [OF g] keepsD' [OF get_keeps g] by simp
  have "dk_DeviceKeyID (dk\<lparr>dk_Status := ''revoked''\<rparr>) = k" using lookup_id [OF l] by simp
  then show ?thesis using update_Inr [OF u] l by fastforce
qed

lemma RotateKey_Inr:
  assumes "RotateKey store cmp gen k old new s = (Inr x, s')"
  shows "\<exists>dk hash dk'. lookup k s = Some dk \<and> dk_Status dk = ''active'' \<and> cmp (dk_KeyHash dk) old
    \<and> gen new = Inr hash \<and> lookup k s' = Some dk' \<and> dk_Status dk' = ''active'' \<and> dk_KeyHash dk' = hash"
proof -
  obtain dk s1 hash where g: "GetDeviceKey store k s = (Inr dk, s1)" and c: "dk_Status dk = ''active''"
      "cmp (dk_KeyHash dk) old" "gen new = Inr hash"
    and u: "UpdateDeviceKey store (dk\<lparr>dk_KeyHash := hash\<rparr>) s1 = (Inr x, s')"
    using assms by (auto simp: RotateKey_def bindP_eq_Inr split: if_splits sum.splits)
  have l: "lookup k s1 = Some dk" using get_Inr [OF g] keepsD' [OF get_keeps g] by simp
  have "dk_DeviceKeyID (dk\<lparr>dk_KeyHash := hash\<rparr>) = k" using lookup_id [OF l] by simp
  then obtain now where "lookup k s' = Some (dk\<lparr>dk_KeyHash := hash, dk_LastSeenAt := Some now\<rparr>)"
    using update_Inr [OF u] l by fastforce
  then show ?thesis using get_Inr [OF g] c by fastforce
qed

text \<open>A revoked key stays revoked through every call that runs as a whole.\<close>

definition revoked :: "string \<Rightarrow> 's \<Rightarrow> bool" where
  "revoked k s \<longleftrightarrow> (\<exists>dk. lookup k s = Some dk \<and> dk_Status dk = ''revoked'')"

lemma revoked_get: "GetDeviceKey store k' s = (r, s') \<Longrightarrow> revoked k s' = revoked k s"
  using keepsD' [OF get_keeps] by (simp add: revoked_def)

lemma revoked_update:
  assumes "UpdateDeviceKey store dk s = (r, s')" "revoked k s" "dk_DeviceKeyID dk = k \<Longrightarrow> dk_Status dk = ''revoked''"
  shows "revoked k s'"
proof (cases r)
  case (Inl e)
  then show ?thesis using assms(1,2) update_Inl by (simp add: revoked_def)
next
  case (Inr x)
  then obtain now where l: "lookup k s' = (if k = dk_DeviceKeyID dk
      then map_option (\<lambda>r. r\<lparr>dk_KeyHash := dk_KeyHash dk, dk_Status := dk_Status dk, dk_LastSeenAt := Some now\<rparr>)
        (lookup k s) else lookup k s)"
    using update_Inr assms(1) by blast
  show ?thesis
  proof (cases "dk_DeviceKeyID dk = k")
    case True
    then show ?thesis using l assms(2) assms(3) [OF True] by (auto simp: revoked_def)
  next
    case False
    then show ?thesis using l assms(2) by (simp add: revoked_def)
  qed
qed

lemma revoked_Register:
  assumes "Register store gen rand uuid now app dev s = (r, s')" "revoked k s"
  shows "revoked k s'"
proof -
  have create: "revoked k s'" if "CreateDeviceKey store dk s = (r', s')" for dk r'
    using that assms(2) create_Inr create_Inl by (cases r') (auto simp: revoked_def)
  show ?thesis
    using assms create
    by (auto simp: Register_def bindP_def split: sum.splits prod.splits)
qed

lemma revoked_Verify: "Verify store cmp k' sec s = (r, s') \<Longrightarrow> revoked k s \<Longrightarrow> revoked k s'"
  by (auto simp: Verify_def bindP_def wrapP_def revoked_get split: sum.splits prod.splits if_splits)

lemma revoked_Revoke:
  assumes "Revoke store k' s = (r, s')" "revoked k s"
  shows "revoked k s'"
proof (cases "GetDeviceKey store k' s")
  case (Pair g s1)
  have 1: "revoked k s1" using revoked_get [OF Pair] assms(2) by simp
  show ?thesis
  proof (cases g)
    case (Inl e)
    then show ?thesis using assms(1) Pair 1 by (simp add: Revoke_def wrapP_def)
  next
    case (Inr dk)
    then have "UpdateDeviceKey store (dk\<lparr>dk_Status := ''revoked''\<rparr>) s1 = (r, s')"
      using assms(1) Pair by (simp add: Revoke_def wrapP_def)
    then show ?thesis using 1 by (rule revoked_update) simp
  qed
qed

lemma revoked_RotateKey:
  assumes "RotateKey store cmp gen k' old new s = (r, s')" "revoked k s"
  shows "revoked k s'"
proof (cases "GetDeviceKey store k' s")
  case (Pair g s1)
  have 1: "revoked k s1" using revoked_get [OF Pair] assms(2) by simp
  show ?thesis
  proof (cases g)
    case (Inl e)
    then show ?thesis using assms(1) Pair 1 by (simp add: RotateKey_def wrapP_def)
  next
    case (Inr dk)
    have "dk_DeviceKeyID dk = k'" "lookup k' s = Some dk"
      using get_Inr Pair Inr lookup_id by blast+
    then have upd: "revoked k s'" if "UpdateDeviceKey store (dk\<lparr>dk_KeyHash := h\<rparr>) s1 = (r, s')" "dk_Status dk = ''active''" for h
      using that 1 assms(2) by (intro revoked_update [OF that(1)]) (auto simp: revoked_def)
    then show ?thesis
      using assms(1) Pair Inr 1 by (auto simp: RotateKey_def wrapP_def split: if_splits sum.splits)
  qed
qed

end

end
