(* ===== verification/Http.thy ===== *)
theory Http
  imports Sqlite
begin

text \<open>
  What the handlers use of package \<open>net/http\<close>.  A handler takes a request and the state of the
  server and returns one response and the new state.  A request carries, beside what the
  client sent, the values that middleware put into its context and \<open>env\<close>, the outcomes of the
  calls to the outside made while it is served: readings of the clock, random bytes, the new
  UUID, bcrypt's salted hash, the answer of the token issuer's key endpoint.

  \<^item> Headers and query parameters are functions: \<open>Get\<close> returns the empty string for a missing
    one.  A path has no escaped characters.
  \<^item> \<open>rq_json\<close> is the first JSON value of the body, \<open>None\<close> when the body cannot be read or does
    not start with one: what \<open>json.NewDecoder(r.Body).Decode\<close> works on.
  \<^item> An error text \<open>prefix + err.Error()\<close> is kept as the pair of the prefix and the error.
  \<^item> The note in HTML that goes with a redirect is left out.
  \<^item> \<open>rs_log_app\<close> is what the handler wrote through the pointer to the request's log metadata.
\<close>

section \<open>Requests and responses\<close>

record jwks_reply =
  jr_status :: int
  jr_json :: "json option"

record env =
  env_start :: int
  env_end :: int
  env_now :: "nat \<Rightarrow> int"
  env_wall :: "64 word"
  env_rand :: "err + string"
  env_uuid :: string
  env_gen :: "string \<Rightarrow> err + string"
  env_fetch :: "nat \<Rightarrow> err + jwks_reply"

record request =
  rq_method :: string
  rq_path :: string
  rq_query :: "string \<Rightarrow> string"
  rq_header :: "string \<Rightarrow> string"
  rq_basic :: "(string \<times> string) option"
  rq_remote :: string
  rq_body :: "err + string"
  rq_json :: "json option"
  rq_flusher :: bool
  rq_env :: env
  ctx_device_key_id :: "string option"
  ctx_app_id :: "string option"
  ctx_user_id :: "string option"

datatype body =
    BEmpty
  | BError string "err option"
  | BJson json
  | BBytes string
  | BStream string string

fun is_stream :: "body \<Rightarrow> bool" where
  "is_stream (BStream a u) = True"
| "is_stream _ = False"

record response =
  rs_status :: int
  rs_headers :: "(string, string) gomap"
  rs_body :: body
  rs_log_app :: "string option"

type_synonym 'w handler = "request \<Rightarrow> 'w \<Rightarrow> response \<times> 'w"

definition reply :: "int \<Rightarrow> (string, string) gomap \<Rightarrow> body \<Rightarrow> response" where
  "reply code hs b = \<lparr>rs_status = code, rs_headers = hs, rs_body = b, rs_log_app = None\<rparr>"

text \<open>\<open>http.Error\<close>: the message as plain text.\<close>

definition error_headers :: "(string, string) gomap" where
  "error_headers = [(''Content-Type'', ''text/plain; charset=utf-8''), (''X-Content-Type-Options'', ''nosniff'')]"

definition http_error :: "string \<Rightarrow> int \<Rightarrow> response" where
  "http_error msg code = reply code error_headers (BError msg None)"

definition http_error_of :: "string \<Rightarrow> err \<Rightarrow> int \<Rightarrow> response" where
  "http_error_of msg e code = reply code error_headers (BError msg (Some e))"

lemma reply_sel [simp]:
  "rs_status (reply c hs b) = c" "rs_headers (reply c hs b) = hs" "rs_body (reply c hs b) = b"
  "rs_log_app (reply c hs b) = None"
  by (simp_all add: reply_def)

lemma http_error_status [simp]: "rs_status (http_error m c) = c" "rs_status (http_error_of m e c) = c"
  by (simp_all add: http_error_def http_error_of_def)

lemma http_error_body [simp]: "\<not> is_stream (rs_body (http_error m c))" "\<not> is_stream (rs_body (http_error_of m e c))"
  by (simp_all add: http_error_def http_error_of_def)

lemma http_error_log [simp]: "rs_log_app (http_error m c) = None" "rs_log_app (http_error_of m e c) = None"
  by (simp_all add: http_error_def http_error_of_def)

text \<open>The contexts of the request middleware extends.\<close>

definition ctx_value :: "string option \<Rightarrow> string" where
  "ctx_value v = (case v of None \<Rightarrow> [] | Some s \<Rightarrow> s)"

section \<open>Decoding a JSON object into a struct of strings\<close>

text \<open>
  \<open>encoding/json\<close> matches the keys of an object with the names of the fields without regard to
  case (the Kelvin sign and the long s count as \<open>k\<close> and \<open>s\<close>), prefers an exact match, keeps
  the last of several, skips unknown keys, leaves a field alone on \<open>null\<close> and reports every
  other value as an error.  \<open>null\<close> in place of the object changes nothing.
\<close>

fun fold_name :: "string \<Rightarrow> string" where
  "fold_name [] = []"
| "fold_name (c # cs) =
     (if c = CHR 0xC5 \<and> take 1 cs = [CHR 0xBF] then CHR ''s'' # fold_name (drop 1 cs)
      else if c = CHR 0xE2 \<and> take 2 cs = [CHR 0x84, CHR 0xAA] then CHR ''k'' # fold_name (drop 2 cs)
      else ascii_lower c # fold_name cs)"

definition field_of :: "string list \<Rightarrow> string \<Rightarrow> string option" where
  "field_of names key =
     (if key \<in> set names then Some key else find (\<lambda>f. fold_name f = fold_name key) names)"

definition set_field :: "string list \<Rightarrow> (string \<Rightarrow> string) option \<Rightarrow> string \<times> json \<Rightarrow> (string \<Rightarrow> string) option" where
  "set_field names acc kv =
     (case acc of None \<Rightarrow> None
      | Some f \<Rightarrow>
          (case field_of names (fst kv) of
             None \<Rightarrow> Some f
           | Some name \<Rightarrow>
               (case snd kv of
                  JString s \<Rightarrow> Some (f(name := s))
                | JNull \<Rightarrow> Some f
                | _ \<Rightarrow> None)))"

definition decode_strings :: "string list \<Rightarrow> json \<Rightarrow> (string \<Rightarrow> string) option" where
  "decode_strings names j =
     (case j of
        JNull \<Rightarrow> Some (\<lambda>_. [])
      | JObj kvs \<Rightarrow> foldl (set_field names) (Some (\<lambda>_. [])) kvs
      | _ \<Rightarrow> None)"

definition decode_body :: "string list \<Rightarrow> request \<Rightarrow> (string \<Rightarrow> string) option" where
  "decode_body names r = (case rq_json r of None \<Rightarrow> None | Some j \<Rightarrow> decode_strings names j)"

section \<open>ServeMux\<close>

text \<open>
  A pattern is a method (empty: any) and a path; a path that ends in a slash stands for the
  subtree.  A request whose path is not clean is redirected to the clean one, a request for a
  registered subtree without its last slash to the subtree.  Otherwise the most specific
  pattern serves it; when only the method does not fit the answer is 405, else 404.
\<close>

type_synonym 'h mux = "((string \<times> string) \<times> 'h) list"

fun clean_segments :: "string list \<Rightarrow> string list \<Rightarrow> string list" where
  "clean_segments acc [] = rev acc"
| "clean_segments acc (s # ss) =
     (if s = [] \<or> s = ''.'' then clean_segments acc ss
      else if s = ''..'' then clean_segments (drop 1 acc) ss
      else clean_segments (s # acc) ss)"

definition ends_slash :: "string \<Rightarrow> bool" where
  "ends_slash p \<longleftrightarrow> p \<noteq> [] \<and> last p = CHR ''/''"

definition cleanPath :: "string \<Rightarrow> string" where
  "cleanPath p =
     (let np = ''/'' @ Join (clean_segments [] (Split (CHR ''/'') p)) ''/''
      in if ends_slash p \<and> np \<noteq> ''/'' then np @ ''/'' else np)"

definition path_matches :: "string \<Rightarrow> string \<Rightarrow> bool" where
  "path_matches pat path \<longleftrightarrow> (if ends_slash pat then HasPrefix path pat else path = pat)"

definition method_matches :: "string \<Rightarrow> string \<Rightarrow> bool" where
  "method_matches pm m \<longleftrightarrow> pm = m \<or> pm = ''GET'' \<and> m = ''HEAD''"

definition longest :: "'h mux \<Rightarrow> ((string \<times> string) \<times> 'h) option" where
  "longest es = fold (\<lambda>e best. case best of None \<Rightarrow> Some e
     | Some b \<Rightarrow> if length (snd (fst b)) < length (snd (fst e)) then Some e else Some b) es None"

definition mux_find :: "'h mux \<Rightarrow> string \<Rightarrow> string \<Rightarrow> ((string \<times> string) \<times> 'h) option" where
  "mux_find es m path =
     (let on_path = filter (\<lambda>e. path_matches (snd (fst e)) path) es in
      case longest (filter (\<lambda>e. fst (fst e) \<noteq> [] \<and> method_matches (fst (fst e)) m) on_path) of
        Some e \<Rightarrow> Some e
      | None \<Rightarrow> longest (filter (\<lambda>e. fst (fst e) = []) on_path))"

definition exact_match :: "((string \<times> string) \<times> 'h) option \<Rightarrow> string \<Rightarrow> bool" where
  "exact_match n path = (case n of None \<Rightarrow> False | Some e \<Rightarrow> snd (fst e) = path)"

definition redirect :: "string \<Rightarrow> int \<Rightarrow> response" where
  "redirect url code = reply code [(''Location'', url)] BEmpty"

definition allowed_methods :: "'h mux \<Rightarrow> string \<Rightarrow> string list" where
  "allowed_methods es path =
     (let ms = filter (\<lambda>m. m \<noteq> []) (map (fst \<circ> fst) (filter (\<lambda>e. path_matches (snd (fst e)) path) es))
      in sort (remdups (ms @ (if ''GET'' \<in> set ms then [''HEAD''] else []))))"

definition mux_serve :: "'w handler mux \<Rightarrow> 'w handler" where
  "mux_serve es r w =
     (let path = (if rq_method r = ''CONNECT'' then rq_path r else cleanPath (rq_path r));
          n = mux_find es (rq_method r) path in
      if \<not> exact_match n path \<and> \<not> ends_slash path \<and> rq_path r \<noteq> []
         \<and> exact_match (mux_find es (rq_method r) (path @ ''/'')) (path @ ''/'')
      then (redirect (cleanPath (rq_path r) @ ''/'') 301, w)
      else if path \<noteq> rq_path r then (redirect path 301, w)
      else (case n of
              Some e \<Rightarrow> snd e r w
            | None \<Rightarrow>
                if allowed_methods es path \<noteq> []
                then ((http_error ''Method Not Allowed'' 405)
                        \<lparr>rs_headers := gm_put ''Allow'' (Join (allowed_methods es path) '', '') error_headers\<rparr>, w)
                else (http_error ''404 page not found'' 404, w)))"

section \<open>Facts\<close>

lemma longest_in: "longest es = Some e \<Longrightarrow> e \<in> set es"
proof -
  have "fold (\<lambda>e best. case best of None \<Rightarrow> Some e
     | Some b \<Rightarrow> if length (snd (fst b)) < length (snd (fst e)) then Some e else Some b) es acc = Some e
     \<Longrightarrow> e \<in> set es \<or> acc = Some e" for acc
    by (induction es arbitrary: acc) (fastforce split: option.splits if_splits)+
  from this [of None] show "longest es = Some e \<Longrightarrow> e \<in> set es" by (simp add: longest_def)
qed

lemma mux_find_in:
  assumes "mux_find es m path = Some e"
  shows "e \<in> set es \<and> path_matches (snd (fst e)) path \<and> (fst (fst e) = [] \<or> method_matches (fst (fst e)) m)"
  using assms by (auto simp: mux_find_def Let_def dest!: longest_in split: option.splits)

text \<open>A request is answered by the multiplexer itself or served by one of its handlers.\<close>

lemma mux_serve_cases:
  obtains (own) resp where "mux_serve es r w = (resp, w)" "rs_status resp \<in> {301, 404, 405}" "rs_log_app resp = None" "\<not> is_stream (rs_body resp)"
    | (handler) m p h where "((m, p), h) \<in> set es" "path_matches p (rq_path r)"
        "m = [] \<or> method_matches m (rq_method r)" "mux_serve es r w = h r w"
proof (cases "\<exists>resp. mux_serve es r w = (resp, w) \<and> rs_status resp \<in> {301, 404, 405} \<and> rs_log_app resp = None
    \<and> \<not> is_stream (rs_body resp)")
  case True
  then show thesis using own by blast
next
  case False
  let ?path = "if rq_method r = ''CONNECT'' then rq_path r else cleanPath (rq_path r)"
  obtain e where e: "mux_find es (rq_method r) ?path = Some e" "?path = rq_path r" "mux_serve es r w = snd e r w"
    using False
    by (auto simp: mux_serve_def Let_def redirect_def http_error_def simp del: not_None_eq split: if_splits option.splits)
  from mux_find_in [OF e(1)] e(2,3) show thesis
    using handler [of "fst (fst e)" "snd (fst e)" "snd e"] by simp
qed

end
