(* ===== verification/Oidc.thy ===== *)
theory Oidc
  imports Http
begin

text \<open>
  \<open>server/auth/jwt.go\<close>: the validation of access tokens against the issuer's published keys.
  The JWT library is a parameter: \<open>lib_parse\<close> decodes a token without trusting it and
  \<open>lib_verify\<close> checks its signature under a key and its times; \<open>ParseWithClaims\<close> calls the key
  function between the two, as the library documents.  The answer of the key endpoint comes
  from \<open>env_fetch\<close>.  Times are in nanoseconds.  Calls run one at a time; the single-flight
  group then runs its function.
\<close>

unbundle bit_operations_syntax

section \<open>Data\<close>

record oidc_claims =
  cl_AppID :: string
  cl_Issuer :: string
  cl_Subject :: string
  cl_Audience :: "string list"

record jwkKey =
  jwk_Kid :: string
  jwk_Kty :: string
  jwk_N :: string
  jwk_E :: string
  jwk_Crv :: string
  jwk_X :: string
  jwk_Y :: string

datatype public_key =
    RsaKey nat "64 word"
  | EcKey string nat nat

record oidc_validator =
  oi_issuer :: string
  oi_jwksURL :: string
  oi_clientID :: string
  oi_keys :: "(string, public_key) gomap"
  oi_fetchedAt :: int

datatype signing_method = MethodRSA | MethodECDSA | MethodOther string

record jwt_token =
  tok_method :: signing_method
  tok_kid :: "string option"
  tok_claims :: oidc_claims

record jwt_library =
  lib_parse :: "string \<Rightarrow> err + jwt_token"
  lib_verify :: "int \<Rightarrow> string \<Rightarrow> public_key \<Rightarrow> err + unit"

text \<open>Go's zero \<open>time.Time\<close>, and the constants.\<close>

definition zero_time :: int where
  "zero_time = - 62135596800000000000"

definition jwksCacheTTL :: int where
  "jwksCacheTTL = 600000000000"

definition refetch_pause :: int where
  "refetch_pause = 5000000000"

definition NewOIDCValidator :: "string \<Rightarrow> string \<Rightarrow> string \<Rightarrow> oidc_validator" where
  "NewOIDCValidator keycloakURL realm clientID =
     (let base = TrimRight keycloakURL (CHR ''/'') in
      \<lparr>oi_issuer = base @ ''/realms/'' @ realm,
       oi_jwksURL = base @ ''/realms/'' @ realm @ ''/protocol/openid-connect/certs'',
       oi_clientID = clientID, oi_keys = [], oi_fetchedAt = zero_time\<rparr>)"

section \<open>Keys\<close>

text \<open>\<open>base64.RawURLEncoding.DecodeString\<close>: line breaks are skipped, padding is an error.\<close>

definition b64_url :: string where
  "b64_url = ''ABCDEFGHIJKLMNOPQRSTUVWXYZabcdefghijklmnopqrstuvwxyz0123456789-_''"

fun index_of :: "'a \<Rightarrow> 'a list \<Rightarrow> nat option" where
  "index_of x [] = None"
| "index_of x (y # ys) = (if x = y then Some 0 else map_option Suc (index_of x ys))"

fun sextets :: "string \<Rightarrow> nat list option" where
  "sextets [] = Some []"
| "sextets (c # cs) =
     (case index_of c b64_url of None \<Rightarrow> None
      | Some i \<Rightarrow> (case sextets cs of None \<Rightarrow> None | Some is \<Rightarrow> Some (i # is)))"

definition byte :: "nat \<Rightarrow> char" where
  "byte n = char_of n"

lemma byte_code [code]:
  "byte n = Char (odd n) (odd (n div 2)) (odd (n div 4)) (odd (n div 8)) (odd (n div 16)) (odd (n div 32))
     (odd (n div 64)) (odd (n div 128))"
  by (simp add: byte_def char_of_def bit_iff_odd)

fun quanta :: "nat list \<Rightarrow> string option" where
  "quanta [] = Some []"
| "quanta [a] = None"
| "quanta [a, b] = Some [byte (a * 4 + b div 16)]"
| "quanta [a, b, c] = Some [byte (a * 4 + b div 16), byte (b * 16 + c div 4)]"
| "quanta (a # b # c # d # rest) =
     (case quanta rest of None \<Rightarrow> None
      | Some bs \<Rightarrow> Some (byte (a * 4 + b div 16) # byte (b * 16 + c div 4) # byte (c * 64 + d) # bs))"

definition raw_url_decode :: "string \<Rightarrow> string option" where
  "raw_url_decode s =
     (case sextets (filter (\<lambda>c. c \<noteq> CHR 0x0A \<and> c \<noteq> CHR 0x0D) s) of
        None \<Rightarrow> None
      | Some is \<Rightarrow> quanta is)"

text \<open>\<open>new(big.Int).SetBytes\<close>.\<close>

definition set_bytes :: "string \<Rightarrow> nat" where
  "set_bytes bs = foldl (\<lambda>n b. n * 256 + of_char b) 0 bs"

text \<open>The exponent is an \<open>int\<close> of 64 bits: the shift drops what does not fit.\<close>

definition exponent :: "string \<Rightarrow> 64 word" where
  "exponent bs = foldl (\<lambda>e b. push_bit 8 e OR word_of_nat (of_char b)) 0 bs"

definition jwkToRSA :: "jwkKey \<Rightarrow> err + public_key" where
  "jwkToRSA k =
     (case raw_url_decode (jwk_N k) of
        None \<Rightarrow> Inl (ErrMsg ''decode n'')
      | Some nBytes \<Rightarrow>
          (case raw_url_decode (jwk_E k) of
             None \<Rightarrow> Inl (ErrMsg ''decode e'')
           | Some eBytes \<Rightarrow> Inr (RsaKey (set_bytes nBytes) (exponent eBytes))))"

definition jwkToEC :: "jwkKey \<Rightarrow> err + public_key" where
  "jwkToEC k =
     (case raw_url_decode (jwk_X k) of
        None \<Rightarrow> Inl (ErrMsg ''decode x'')
      | Some xBytes \<Rightarrow>
          (case raw_url_decode (jwk_Y k) of
             None \<Rightarrow> Inl (ErrMsg ''decode y'')
           | Some yBytes \<Rightarrow>
               if jwk_Crv k \<in> {''P-256'', ''P-384'', ''P-521''}
               then Inr (EcKey (jwk_Crv k) (set_bytes xBytes) (set_bytes yBytes))
               else Inl (ErrMsg (''unsupported EC curve '' @ jwk_Crv k))))"

section \<open>Fetching the keys\<close>

definition decode_jwk :: "json \<Rightarrow> jwkKey option" where
  "decode_jwk j =
     (case decode_strings [''kid'', ''kty'', ''n'', ''e'', ''crv'', ''x'', ''y''] j of
        None \<Rightarrow> None
      | Some f \<Rightarrow> Some \<lparr>jwk_Kid = f ''kid'', jwk_Kty = f ''kty'', jwk_N = f ''n'', jwk_E = f ''e'',
                        jwk_Crv = f ''crv'', jwk_X = f ''x'', jwk_Y = f ''y''\<rparr>)"

fun decode_all :: "json list \<Rightarrow> jwkKey list option" where
  "decode_all [] = Some []"
| "decode_all (j # js) =
     (case decode_jwk j of None \<Rightarrow> None
      | Some k \<Rightarrow> (case decode_all js of None \<Rightarrow> None | Some ks \<Rightarrow> Some (k # ks)))"

definition jwks_field :: "jwkKey list option \<Rightarrow> string \<times> json \<Rightarrow> jwkKey list option" where
  "jwks_field acc kv =
     (case acc of None \<Rightarrow> None
      | Some ks \<Rightarrow>
          if field_of [''keys''] (fst kv) = None then Some ks
          else (case snd kv of JArr js \<Rightarrow> decode_all js | JNull \<Rightarrow> Some [] | _ \<Rightarrow> None))"

definition decode_jwks :: "json \<Rightarrow> jwkKey list option" where
  "decode_jwks j =
     (case j of JNull \<Rightarrow> Some [] | JObj kvs \<Rightarrow> foldl jwks_field (Some []) kvs | _ \<Rightarrow> None)"

text \<open>Keys without an id, of another type or that do not decode are skipped.\<close>

definition add_key :: "(string, public_key) gomap \<Rightarrow> jwkKey \<Rightarrow> (string, public_key) gomap" where
  "add_key keys k =
     (if jwk_Kid k = [] then keys
      else if jwk_Kty k = ''RSA''
        then (case jwkToRSA k of Inl _ \<Rightarrow> keys | Inr pub \<Rightarrow> gm_put (jwk_Kid k) pub keys)
      else if jwk_Kty k = ''EC''
        then (case jwkToEC k of Inl _ \<Rightarrow> keys | Inr pub \<Rightarrow> gm_put (jwk_Kid k) pub keys)
      else keys)"

definition usable_keys :: "jwkKey list \<Rightarrow> (string, public_key) gomap" where
  "usable_keys ks = foldl add_key [] ks"

definition fetchJWKS :: "err + jwks_reply \<Rightarrow> int \<Rightarrow> (oidc_validator, err, unit) prog" where
  "fetchJWKS answer now v =
     (case answer of
        Inl e \<Rightarrow> (Inl e, v)
      | Inr resp \<Rightarrow>
          if jr_status resp \<noteq> 200 then (Inl (ErrMsg ''jwks endpoint returned HTTP''), v)
          else (case jr_json resp of
                  None \<Rightarrow> (Inl (ErrMsg ''decode jwks''), v)
                | Some j \<Rightarrow>
                    (case decode_jwks j of
                       None \<Rightarrow> (Inl (ErrMsg ''decode jwks''), v)
                     | Some doc \<Rightarrow>
                         let keys = usable_keys doc in
                         if keys = [] then (Inl (ErrMsg ''jwks: zero usable keys in response''), v)
                         else (Inr (), v\<lparr>oi_keys := keys, oi_fetchedAt := now\<rparr>))))"

definition refreshIfStale :: "env \<Rightarrow> (oidc_validator, err, unit) prog" where
  "refreshIfStale en v =
     (if env_now en 0 - oi_fetchedAt v > jwksCacheTTL
      then fetchJWKS (env_fetch en 0) (env_now en 1) v
      else (Inr (), v))"

definition lookup_kid :: "string \<Rightarrow> (oidc_validator, err, public_key) prog" where
  "lookup_kid kid v =
     (case gm_get (oi_keys v) kid of
        None \<Rightarrow> (Inl (ErrMsg (''unknown kid '' @ kid)), v)
      | Some key \<Rightarrow> (Inr key, v))"

definition keyFunc :: "env \<Rightarrow> jwt_token \<Rightarrow> (oidc_validator, err, public_key) prog" where
  "keyFunc en t v =
     (case tok_method t of
        MethodOther alg \<Rightarrow> (Inl (ErrMsg (''unexpected signing method '' @ alg)), v)
      | _ \<Rightarrow>
          (let kid = (case tok_kid t of None \<Rightarrow> [] | Some k \<Rightarrow> k) in
           case gm_get (oi_keys v) kid of
             Some key \<Rightarrow> (Inr key, v)
           | None \<Rightarrow>
               if env_now en 2 - oi_fetchedAt v < refetch_pause
               then (Inl (ErrMsg (''unknown kid '' @ kid)), v)
               else bindP (wrapP (Wrap ''jwks refresh'') (fetchJWKS (env_fetch en 1) (env_now en 3)))
                      (\<lambda>_. lookup_kid kid) v))"

definition ParseWithClaims :: "jwt_library \<Rightarrow> env \<Rightarrow> string \<Rightarrow> (oidc_validator, err, oidc_claims) prog" where
  "ParseWithClaims lib en tokenStr v =
     (case lib_parse lib tokenStr of
        Inl e \<Rightarrow> (Inl e, v)
      | Inr t \<Rightarrow>
          bindP (keyFunc en t) (\<lambda>key.
            case lib_verify lib (env_now en 4) tokenStr key of
              Inl e \<Rightarrow> failP e
            | Inr _ \<Rightarrow> retP (tok_claims t)) v)"

definition Validate :: "jwt_library \<Rightarrow> env \<Rightarrow> string \<Rightarrow> (oidc_validator, err, oidc_claims) prog" where
  "Validate lib en tokenStr =
     bindP (wrapP (Wrap ''jwks'') (refreshIfStale en)) (\<lambda>_.
     bindP (ParseWithClaims lib en tokenStr) (\<lambda>claims v.
     if cl_Issuer claims \<noteq> oi_issuer v
       then (Inl (ErrMsg (''unexpected issuer '' @ cl_Issuer claims)), v)
     else if oi_clientID v \<noteq> [] \<and> oi_clientID v \<notin> set (cl_Audience claims)
       then (Inl (ErrMsg (''token audience does not include '' @ oi_clientID v)), v)
     else if oi_clientID v \<noteq> [] \<and> cl_AppID claims \<noteq> oi_clientID v
       then (Inl (ErrMsg (''token not issued for client '' @ oi_clientID v)), v)
     else (Inr claims, v)))"

section \<open>Decoding what an issuer encodes\<close>

text \<open>The encoding the issuer uses: \<open>base64url\<close> without padding of the big-endian bytes.\<close>

definition b64_url_char :: "nat \<Rightarrow> char" where
  "b64_url_char n = b64_url ! (n mod 64)"

fun raw_url_encode :: "string \<Rightarrow> string" where
  "raw_url_encode [] = []"
| "raw_url_encode [x] = (let a = of_char x :: nat in [b64_url_char (a div 4), b64_url_char (a * 16)])"
| "raw_url_encode [x, y] =
     (let a = of_char x :: nat; b = of_char y :: nat
      in [b64_url_char (a div 4), b64_url_char (a * 16 + b div 16), b64_url_char (b * 4)])"
| "raw_url_encode (x # y # z # rest) =
     (let a = of_char x :: nat; b = of_char y :: nat; c = of_char z :: nat
      in b64_url_char (a div 4) # b64_url_char (a * 16 + b div 16) # b64_url_char (b * 4 + c div 64)
         # b64_url_char c # raw_url_encode rest)"

fun be_bytes :: "nat \<Rightarrow> string" where
  "be_bytes n = (if n = 0 then [] else be_bytes (n div 256) @ [byte n])"

declare be_bytes.simps [simp del]

lemma of_char_less: "(of_char c :: nat) < 256"
  using of_char_mod_256 [of c] by (metis mod_less_divisor zero_less_numeral)

lemma of_char_div: "(of_char c :: nat) div 4 < 64" "(of_char c :: nat) div 16 < 16" "(of_char c :: nat) div 64 < 4"
  by (rule less_mult_imp_div_less, use of_char_less [of c] in simp)+

lemma index_of_nth: "distinct xs \<Longrightarrow> i < length xs \<Longrightarrow> index_of (xs ! i) xs = Some i"
proof (induction xs arbitrary: i)
  case (Cons x xs)
  then show ?case by (cases i) (auto simp: in_set_conv_nth)
qed simp

lemma distinct_b64_url: "distinct b64_url" and length_b64_url: "length b64_url = 64"
  by (simp_all add: b64_url_def)

lemma index_of_char [simp]: "index_of (b64_url_char n) b64_url = Some (n mod 64)"
  by (simp add: b64_url_char_def index_of_nth distinct_b64_url length_b64_url)

lemma b64_url_char_no_break: "b64_url_char n \<noteq> CHR 0x0A \<and> b64_url_char n \<noteq> CHR 0x0D"
proof -
  have "b64_url_char n \<in> set b64_url"
    by (simp add: b64_url_char_def length_b64_url)
  then show ?thesis by (auto simp: b64_url_def)
qed

lemma filter_encode: "filter (\<lambda>c. c \<noteq> CHR 0x0A \<and> c \<noteq> CHR 0x0D) (raw_url_encode bs) = raw_url_encode bs"
  by (induction bs rule: raw_url_encode.induct) (simp_all add: Let_def b64_url_char_no_break)

lemma mod_64_16: "r < 16 \<Longrightarrow> (a * 16 + r) mod 64 = 16 * (a mod 4) + (r :: nat)"
  using mod_mult2_eq [of "a * 16 + r" 16 4] by simp

lemma mod_64_4: "r < 4 \<Longrightarrow> (b * 4 + r) mod 64 = 4 * (b mod 16) + (r :: nat)"
  using mod_mult2_eq [of "b * 4 + r" 4 16] by simp

lemma byte_first: "byte (of_char x div 4 mod 64 * 4 + (of_char x * 16 + b div 16) mod 64 div 16) = x"
  if "b < 256"
proof -
  have "b div 16 < 16" "(of_char x :: nat) div 4 < 64" using that of_char_div by auto
  then have "of_char x div 4 mod 64 * 4 + (of_char x * 16 + b div 16) mod 64 div 16 = (of_char x :: nat)"
    by (simp add: mod_64_16)
  then show ?thesis by (simp only: byte_def char_of_char)
qed

lemma byte_mod: "n mod 256 = of_char c \<Longrightarrow> byte n = c"
  by (metis byte_def char_of_mod_256 char_of_char)

lemma byte_second: "byte ((a * 16 + of_char y div 16) mod 64 * 16 + (of_char y * 4 + c div 64) mod 64 div 4) = y"
  if "c < 256"
proof (rule byte_mod)
  have l: "c div 64 < 4" "(of_char y :: nat) div 16 < 16" using that of_char_div by auto
  have "(a * 16 + of_char y div 16) mod 64 * 16 + (of_char y * 4 + c div 64) mod 64 div 4
      = 256 * (a mod 4) + (of_char y div 16 * 16 + of_char y mod 16 :: nat)"
    using l by (simp add: mod_64_16 mod_64_4)
  also have "\<dots> = 256 * (a mod 4) + of_char y" by (simp only: div_mult_mod_eq)
  finally show "((a * 16 + of_char y div 16) mod 64 * 16 + (of_char y * 4 + c div 64) mod 64 div 4) mod 256 = (of_char y :: nat)"
    using of_char_less [of y] by simp
qed

lemma byte_third: "byte ((b * 4 + of_char z div 64) mod 64 * 64 + of_char z mod 64) = z"
proof (rule byte_mod)
  have l: "(of_char z :: nat) div 64 < 4" by (rule of_char_div)
  have "(b * 4 + of_char z div 64) mod 64 * 64 + of_char z mod 64
      = 256 * (b mod 16) + (of_char z div 64 * 64 + of_char z mod 64 :: nat)"
    using l by (simp add: mod_64_4)
  also have "\<dots> = 256 * (b mod 16) + of_char z" by (simp only: div_mult_mod_eq)
  finally show "((b * 4 + of_char z div 64) mod 64 * 64 + of_char z mod 64) mod 256 = (of_char z :: nat)"
    using of_char_less [of z] by simp
qed

lemmas byte_groups = byte_first byte_first [of 0, simplified] byte_second byte_second [of 0, simplified] byte_third

lemma sextets_encode: "\<exists>is. sextets (raw_url_encode bs) = Some is \<and> quanta is = Some bs"
proof (induction bs rule: raw_url_encode.induct)
  case (4 x y z rest)
  then obtain ns where "sextets (raw_url_encode rest) = Some ns" "quanta ns = Some rest" by blast
  then show ?case by (simp add: Let_def byte_groups of_char_less)
qed (simp_all add: Let_def byte_groups of_char_less)

lemma raw_url_decode_encode [simp]: "raw_url_decode (raw_url_encode bs) = Some bs"
  using sextets_encode [of bs] by (auto simp: raw_url_decode_def filter_encode)

lemma of_char_byte [simp]: "(of_char (byte n) :: nat) = n mod 256"
  by (simp add: byte_def)

lemma set_bytes_snoc: "set_bytes (bs @ [b]) = set_bytes bs * 256 + of_char b"
  by (simp add: set_bytes_def)

lemma set_bytes_be [simp]: "set_bytes (be_bytes n) = n"
proof (induction n rule: be_bytes.induct)
  case (1 n)
  show ?case
  proof (cases "n = 0")
    case True
    then show ?thesis by (simp add: be_bytes.simps set_bytes_def)
  next
    case False
    then show ?thesis using 1 by (subst be_bytes.simps) (simp add: set_bytes_snoc)
  qed
qed

lemma exponent_snoc: "exponent (bs @ [b]) = exponent bs * 256 + word_of_nat (of_char b)"
proof -
  let ?b = "word_of_nat (of_char b) :: 64 word"
  have "\<not> bit ?b n" if "8 \<le> n" for n
  proof -
    have "(of_char b :: nat) < 2 ^ n"
      using order.strict_trans2 [OF of_char_less, of "2 ^ n" b] power_increasing [OF that, of "2::nat"] by simp
    then have "\<not> bit (of_char b :: nat) n" by (simp add: bit_iff_odd)
    then show ?thesis by (simp add: bit_of_nat_iff)
  qed
  then have "push_bit 8 (exponent bs) + ?b = push_bit 8 (exponent bs) OR ?b"
    by (intro disjunctive_add_eq_or) (auto simp: bit_eq_iff bit_simps not_le)
  then show ?thesis by (simp add: exponent_def push_bit_eq_mult)
qed

lemma exponent_be [simp]: "exponent (be_bytes n) = word_of_nat n"
proof (induction n rule: be_bytes.induct)
  case (1 n)
  show ?case
  proof (cases "n = 0")
    case True
    then show ?thesis by (simp add: be_bytes.simps exponent_def)
  next
    case False
    then have "exponent (be_bytes n) = word_of_nat (n div 256) * word_of_nat 256 + word_of_nat (n mod 256)"
      using 1 by (subst be_bytes.simps) (simp add: exponent_snoc)
    also have "\<dots> = word_of_nat (n div 256 * 256 + n mod 256)" by (simp only: of_nat_add of_nat_mult)
    finally show ?thesis by (simp only: div_mult_mod_eq)
  qed
qed

end
