(* ===== verification/Middleware.thy ===== *)
theory Middleware
  imports Oidc
begin

text \<open>
  \<open>server/middleware/\<close>: the checks in front of the handlers and the request log.  Middleware
  takes the next handler to a handler.  The locale \<open>guard\<close> is what the router relies on: a
  request is either admitted, with the context the check adds, and answered by the next
  handler, or refused with a client error, and then the next handler is not run.

  \<^item> \<open>auth.go\<close>: \<open>RequireDeviceKey\<close> and \<open>RequireJWT\<close> over any verifier and validator.
  \<^item> \<open>admin.go\<close>: \<open>RequireAdminAuth\<close>; the package's table of failed attempts is the first
    component of the state.  \<open>cmp\<close> is bcrypt's comparison.
  \<^item> \<open>logging.go\<close>: \<open>RequestLogger\<close>; the log is the first component of the state.
\<close>

section \<open>auth.go\<close>

definition RequireDeviceKey :: "(string \<Rightarrow> string \<Rightarrow> ('w, err, unit) prog) \<Rightarrow> 'w handler \<Rightarrow> 'w handler" where
  "RequireDeviceKey verify nxt r w =
     (let header = rq_header r ''X-Device-Key'' in
      if header = [] then (http_error ''missing X-Device-Key'' 401, w)
      else (case SplitN2 header (CHR '':'') of
              [k, secret] \<Rightarrow>
                (case verify k secret w of
                   (Inl e, w') \<Rightarrow> (http_error ''invalid device key'' 401, w')
                 | (Inr _, w') \<Rightarrow> nxt (r\<lparr>ctx_device_key_id := Some k\<rparr>) w')
            | _ \<Rightarrow> (http_error ''malformed X-Device-Key'' 401, w)))"

text \<open>\<open>m.appID = claims.AppID\<close>: a later write, by the next handler, stays.\<close>

definition log_app :: "string \<Rightarrow> response \<Rightarrow> response" where
  "log_app appID resp = resp\<lparr>rs_log_app := Some (case rs_log_app resp of None \<Rightarrow> appID | Some a \<Rightarrow> a)\<rparr>"

definition RequireJWT :: "(env \<Rightarrow> string \<Rightarrow> ('w, err, oidc_claims) prog) \<Rightarrow> 'w handler \<Rightarrow> 'w handler" where
  "RequireJWT validate nxt r w =
     (let header = rq_header r ''Authorization'' in
      if \<not> HasPrefix header ''Bearer '' then (http_error ''missing Authorization header'' 401, w)
      else (case validate (rq_env r) (TrimPrefix header ''Bearer '') w of
              (Inl e, w') \<Rightarrow> (http_error ''invalid token'' 401, w')
            | (Inr claims, w') \<Rightarrow>
                if cl_AppID claims = [] then (http_error ''token missing azp claim'' 401, w')
                else (case nxt (r\<lparr>ctx_app_id := Some (cl_AppID claims), ctx_user_id := Some (cl_Subject claims)\<rparr>) w' of
                        (resp, w'') \<Rightarrow> (log_app (cl_AppID claims) resp, w''))))"

section \<open>admin.go\<close>

record rate_bucket =
  rb_count :: int
  rb_resetAt :: int

type_synonym rates = "(string, rate_bucket) gomap"

definition maxAdminAttempts :: int where
  "maxAdminAttempts = 5"

definition rateLimitWindow :: int where
  "rateLimitWindow = 900000000000"

definition ipAllowed :: "string \<Rightarrow> string list \<Rightarrow> bool" where
  "ipAllowed ip allowed \<longleftrightarrow> list_ex (\<lambda>a. TrimSpace a = ip) allowed"

text \<open>\<open>time.Now().After(b.resetAt)\<close> is \<open>now > resetAt\<close>.\<close>

definition rateLimited :: "int \<Rightarrow> string \<Rightarrow> rates \<Rightarrow> bool \<times> rates" where
  "rateLimited now ip bs =
     (case gm_get bs ip of
        None \<Rightarrow> (False, bs)
      | Some b \<Rightarrow>
          if now > rb_resetAt b then (False, gm_delete ip bs)
          else (rb_count b \<ge> maxAdminAttempts, bs))"

text \<open>Both readings of the clock: the test and the start of the window.\<close>

definition recordAttempt :: "int \<Rightarrow> int \<Rightarrow> string \<Rightarrow> rates \<Rightarrow> rates" where
  "recordAttempt now now' ip bs =
     (let new = gm_put ip \<lparr>rb_count = 1, rb_resetAt = now' + rateLimitWindow\<rparr> bs in
      case gm_get bs ip of
        None \<Rightarrow> new
      | Some b \<Rightarrow> if now > rb_resetAt b then new else gm_put ip (b\<lparr>rb_count := rb_count b + 1\<rparr>) bs)"

text \<open>
  \<open>net.SplitHostPort\<close>: \<open>host:port\<close> or \<open>[host]:port\<close>; \<open>None\<close> is its error.
\<close>

definition SplitHostPort :: "string \<Rightarrow> (string \<times> string) option" where
  "SplitHostPort s =
     (if CHR '':'' \<notin> set s then None
      else let port = after_last (CHR '':'') s; front = take (length s - length port - 1) s in
        if HasPrefix s ''['' then
          (case split_at (CHR '']'') (drop 1 s) of
             (host, None) \<Rightarrow> None
           | (host, Some rest) \<Rightarrow>
               if rest = CHR '':'' # port \<and> CHR ''['' \<notin> set (host @ rest) \<and> CHR '']'' \<notin> set rest
               then Some (host, port) else None)
        else if CHR '':'' \<in> set front \<or> CHR ''['' \<in> set s \<or> CHR '']'' \<in> set s then None
        else Some (front, port))"

definition client_ip :: "request \<Rightarrow> string" where
  "client_ip r = (case SplitHostPort (rq_remote r) of None \<Rightarrow> rq_remote r | Some (ip, _) \<Rightarrow> ip)"

definition unauthorized :: response where
  "unauthorized = (http_error ''unauthorized'' 401)
     \<lparr>rs_headers := gm_put ''WWW-Authenticate'' ''Basic realm=\"mobile-db admin\"'' error_headers\<rparr>"

definition password_ok :: "(string \<Rightarrow> string \<Rightarrow> bool) \<Rightarrow> string \<Rightarrow> request \<Rightarrow> bool" where
  "password_ok cmp passwordHash r =
     (case rq_basic r of None \<Rightarrow> False | Some (_, password) \<Rightarrow> cmp passwordHash password)"

definition RequireAdminAuth :: "(string \<Rightarrow> string \<Rightarrow> bool) \<Rightarrow> string \<Rightarrow> string list
    \<Rightarrow> (rates \<times> 'w) handler \<Rightarrow> (rates \<times> 'w) handler" where
  "RequireAdminAuth cmp passwordHash allowedIPs nxt r s =
     (let ip = client_ip r; now = env_now (rq_env r) in
      if allowedIPs \<noteq> [] \<and> \<not> ipAllowed ip allowedIPs then (http_error ''forbidden'' 403, s)
      else (case rateLimited (now 0) ip (fst s) of
              (True, bs) \<Rightarrow> (http_error ''too many attempts'' 429, (bs, snd s))
            | (False, bs) \<Rightarrow>
                if \<not> password_ok cmp passwordHash r
                then (unauthorized, (recordAttempt (now 1) (now 2) ip bs, snd s))
                else nxt r (bs, snd s)))"

section \<open>logging.go\<close>

record log_entry =
  log_method :: string
  log_path :: string
  log_status :: int
  log_duration_ms :: int
  log_remote_addr :: string
  log_app_id :: string

text \<open>
  The writer the next handler gets.  The status it records is the response's; it has a \<open>Flush\<close>
  whether the writer it wraps has one or not, so a handler behind the log always finds a flusher.
\<close>

definition responseWriter :: "request \<Rightarrow> request" where
  "responseWriter r = r\<lparr>rq_flusher := True\<rparr>"

declare responseWriter_def [simp]

definition RequestLogger :: "'w handler \<Rightarrow> (log_entry list \<times> 'w) handler" where
  "RequestLogger nxt r s =
     (case nxt (responseWriter r) (snd s) of (resp, w') \<Rightarrow>
        (resp,
         (fst s @ [\<lparr>log_method = rq_method r, log_path = rq_path r, log_status = rs_status resp,
                    log_duration_ms = (env_end (rq_env r) - env_start (rq_env r)) div 1000000,
                    log_remote_addr = rq_remote r,
                    log_app_id = (case rs_log_app resp of None \<Rightarrow> [] | Some a \<Rightarrow> a)\<rparr>], w')))"

section \<open>What a guard is\<close>

text \<open>
  \<open>admit r w\<close> is the request and the state the next handler gets, \<open>None\<close> when the request is
  refused; \<open>finish\<close> is what is done to the response of an admitted one.  \<open>keep\<close> is what the
  check keeps of the state.
\<close>

locale guard =
  fixes mw :: "'w handler \<Rightarrow> 'w handler"
    and admit :: "request \<Rightarrow> 'w \<Rightarrow> (request \<times> 'w) option"
    and finish :: "request \<Rightarrow> 'w \<Rightarrow> response \<Rightarrow> response"
    and keep :: "'w \<Rightarrow> 'w \<Rightarrow> bool"
  assumes admitted: "admit r w = Some (r', w') \<Longrightarrow>
        mw nxt r w = (case nxt r' w' of (resp, w'') \<Rightarrow> (finish r w resp, w''))"
    and refused: "admit r w = None \<Longrightarrow> mw nxt r w = mw other r w"
    and refused_status: "admit r w = None \<Longrightarrow> 400 \<le> rs_status (fst (mw nxt r w)) \<and> rs_status (fst (mw nxt r w)) < 500"
    and refused_keep: "admit r w = None \<Longrightarrow> keep w (snd (mw nxt r w))"
    and admitted_keep: "admit r w = Some (r', w') \<Longrightarrow> keep w w'"
    and finish_status: "rs_status (finish r w resp) = rs_status resp"
begin

text \<open>A guarded handler keeps what the guard and the handler keep.\<close>

lemma guarded_keep:
  assumes "transp keep" "\<And>r w. keep w (snd (nxt r w))"
  shows "keep w (snd (mw nxt r w))"
proof (cases "admit r w")
  case None
  then show ?thesis by (rule refused_keep)
next
  case (Some rw)
  then obtain r' w' where rw: "admit r w = Some (r', w')" by (cases rw) auto
  have "keep w w'" "keep w' (snd (nxt r' w'))" using admitted_keep [OF rw] assms(2) by auto
  then show ?thesis using assms(1) by (auto simp: admitted [OF rw] split: prod.split dest: transpD)
qed

text \<open>A request that succeeds was admitted.\<close>

lemma success_admitted:
  assumes "rs_status (fst (mw nxt r w)) < 400"
  obtains r' w' where "admit r w = Some (r', w')"
  using assms refused_status [of r w nxt] by (cases "admit r w") auto

end

text \<open>Two guards in a row are a guard.\<close>

locale guard_pair = outer: guard mw1 admit1 finish1 keep + inner: guard mw2 admit2 finish2 keep
  for mw1 mw2 :: "'w handler \<Rightarrow> 'w handler" and admit1 admit2 finish1 finish2 keep +
  assumes keep_trans: "transp keep"
begin

definition admit_both :: "request \<Rightarrow> 'w \<Rightarrow> (request \<times> 'w) option" where
  "admit_both r w = (case admit1 r w of None \<Rightarrow> None | Some (r', w') \<Rightarrow> admit2 r' w')"

definition finish_both :: "request \<Rightarrow> 'w \<Rightarrow> response \<Rightarrow> response" where
  "finish_both r w resp =
     (case admit1 r w of None \<Rightarrow> resp | Some (r', w') \<Rightarrow> finish1 r w (finish2 r' w' resp))"

end

sublocale guard_pair \<subseteq> both: guard "\<lambda>nxt. mw1 (mw2 nxt)" admit_both finish_both keep
proof unfold_locales
  fix r w r' w' nxt
  assume "admit_both r w = Some (r', w')"
  then obtain r1 w1 where 1: "admit1 r w = Some (r1, w1)" "admit2 r1 w1 = Some (r', w')"
    by (auto simp: admit_both_def split: option.splits prod.splits)
  show "mw1 (mw2 nxt) r w = (case nxt r' w' of (resp, w'') \<Rightarrow> (finish_both r w resp, w''))"
    by (simp add: outer.admitted [OF 1(1)] inner.admitted [OF 1(2)] finish_both_def 1(1) split: prod.split)
  show "keep w w'"
    using outer.admitted_keep [OF 1(1)] inner.admitted_keep [OF 1(2)] keep_trans by (rule transpD [rotated])
next
  fix r w nxt other
  assume n: "admit_both r w = None"
  show "mw1 (mw2 nxt) r w = mw1 (mw2 other) r w"
  proof (cases "admit1 r w")
    case None
    then show ?thesis by (rule outer.refused)
  next
    case (Some rw)
    then obtain r1 w1 where 1: "admit1 r w = Some (r1, w1)" by (cases rw) auto
    then have "admit2 r1 w1 = None" using n by (simp add: admit_both_def)
    then show ?thesis using inner.refused [of r1 w1 nxt other] by (simp add: outer.admitted [OF 1])
  qed
next
  fix r w nxt
  assume n: "admit_both r w = None"
  show "400 \<le> rs_status (fst (mw1 (mw2 nxt) r w)) \<and> rs_status (fst (mw1 (mw2 nxt) r w)) < 500"
  proof (cases "admit1 r w")
    case None
    then show ?thesis by (rule outer.refused_status)
  next
    case (Some rw)
    then obtain r1 w1 where 1: "admit1 r w = Some (r1, w1)" by (cases rw) auto
    then have "admit2 r1 w1 = None" using n by (simp add: admit_both_def)
    then have "400 \<le> rs_status (fst (mw2 nxt r1 w1)) \<and> rs_status (fst (mw2 nxt r1 w1)) < 500"
      by (rule inner.refused_status)
    then show ?thesis by (cases "mw2 nxt r1 w1") (simp add: outer.admitted [OF 1] outer.finish_status)
  qed
next
  fix r w nxt
  assume n: "admit_both r w = None"
  show "keep w (snd (mw1 (mw2 nxt) r w))"
  proof (cases "admit1 r w")
    case None
    then show ?thesis by (rule outer.refused_keep)
  next
    case (Some rw)
    then obtain r1 w1 where 1: "admit1 r w = Some (r1, w1)" by (cases rw) auto
    then have "admit2 r1 w1 = None" using n by (simp add: admit_both_def)
    then have "keep w w1" "keep w1 (snd (mw2 nxt r1 w1))"
      using outer.admitted_keep [OF 1] inner.refused_keep by auto
    then have "keep w (snd (mw2 nxt r1 w1))" using keep_trans by (blast dest: transpD)
    then show ?thesis by (cases "mw2 nxt r1 w1") (simp add: outer.admitted [OF 1])
  qed
next
  fix r w resp
  show "rs_status (finish_both r w resp) = rs_status resp"
    by (simp add: finish_both_def outer.finish_status inner.finish_status split: option.split prod.split)
qed

section \<open>The checks are guards\<close>

definition admit_device :: "(string \<Rightarrow> string \<Rightarrow> ('w, err, unit) prog) \<Rightarrow> request \<Rightarrow> 'w \<Rightarrow> (request \<times> 'w) option" where
  "admit_device verify r w =
     (case SplitN2 (rq_header r ''X-Device-Key'') (CHR '':'') of
        [k, secret] \<Rightarrow>
          (case verify k secret w of
             (Inl e, w') \<Rightarrow> None
           | (Inr _, w') \<Rightarrow> Some (r\<lparr>ctx_device_key_id := Some k\<rparr>, w'))
      | _ \<Rightarrow> None)"

definition admit_jwt :: "(env \<Rightarrow> string \<Rightarrow> ('w, err, oidc_claims) prog) \<Rightarrow> request \<Rightarrow> 'w \<Rightarrow> (request \<times> 'w) option" where
  "admit_jwt validate r w =
     (let header = rq_header r ''Authorization'' in
      if \<not> HasPrefix header ''Bearer '' then None
      else (case validate (rq_env r) (TrimPrefix header ''Bearer '') w of
              (Inl e, w') \<Rightarrow> None
            | (Inr claims, w') \<Rightarrow>
                if cl_AppID claims = [] then None
                else Some (r\<lparr>ctx_app_id := Some (cl_AppID claims), ctx_user_id := Some (cl_Subject claims)\<rparr>, w')))"

definition finish_jwt :: "(env \<Rightarrow> string \<Rightarrow> ('w, err, oidc_claims) prog) \<Rightarrow> request \<Rightarrow> 'w \<Rightarrow> response \<Rightarrow> response" where
  "finish_jwt validate r w resp =
     (case admit_jwt validate r w of None \<Rightarrow> resp | Some (r', w') \<Rightarrow> log_app (ctx_value (ctx_app_id r')) resp)"

definition admit_admin :: "(string \<Rightarrow> string \<Rightarrow> bool) \<Rightarrow> string \<Rightarrow> string list \<Rightarrow> request \<Rightarrow> rates \<times> 'w
    \<Rightarrow> (request \<times> (rates \<times> 'w)) option" where
  "admit_admin cmp passwordHash allowedIPs r s =
     (if allowedIPs \<noteq> [] \<and> \<not> ipAllowed (client_ip r) allowedIPs then None
      else (case rateLimited (env_now (rq_env r) 0) (client_ip r) (fst s) of
              (True, bs) \<Rightarrow> None
            | (False, bs) \<Rightarrow> if password_ok cmp passwordHash r then Some (r, (bs, snd s)) else None))"

lemma rs_status_log_app [simp]: "rs_status (log_app a resp) = rs_status resp"
  by (simp add: log_app_def)

lemma SplitN2_cases:
  obtains (one) a where "SplitN2 s c = [a]" | (two) a b where "SplitN2 s c = [a, b]"
  by (cases "split_at c s"; cases "snd (split_at c s)") (auto simp: SplitN2_def)

lemma SplitN2_Nil: "SplitN2 [] c = [[]]"
  by (simp add: SplitN2_def)

lemma device_refused:
  assumes "admit_device verify r w = None" "\<And>k s. keeps R (verify k s)" "reflp R"
  shows "RequireDeviceKey verify nxt r w = RequireDeviceKey verify other r w
    \<and> rs_status (fst (RequireDeviceKey verify nxt r w)) = 401 \<and> R w (snd (RequireDeviceKey verify nxt r w))"
  using assms(1) reflpD [OF assms(3)] assms(2) [THEN keepsD']
  by (cases "rq_header r ''X-Device-Key''" "CHR '':''" rule: SplitN2_cases)
    (auto simp: RequireDeviceKey_def admit_device_def Let_def split: prod.splits sum.splits)

lemma device_guard:
  assumes "\<And>k s. keeps R (verify k s)" "reflp R"
  shows "guard (RequireDeviceKey verify) (admit_device verify) (\<lambda>r w resp. resp) R"
proof
  fix r w r' w' nxt
  assume a: "admit_device verify r w = Some (r', w')"
  show "RequireDeviceKey verify nxt r w = (case nxt r' w' of (resp, w'') \<Rightarrow> (resp, w''))"
    using a by (auto simp: RequireDeviceKey_def admit_device_def Let_def SplitN2_Nil
        split: list.splits prod.splits sum.splits)
  show "R w w'"
    using a assms by (auto simp: admit_device_def dest: keepsD' split: list.splits prod.splits sum.splits)
qed (use device_refused [OF _ assms] in auto)

lemma jwt_refused:
  assumes "admit_jwt validate r w = None" "\<And>en t. keeps R (validate en t)" "reflp R"
  shows "RequireJWT validate nxt r w = RequireJWT validate other r w
    \<and> rs_status (fst (RequireJWT validate nxt r w)) = 401 \<and> R w (snd (RequireJWT validate nxt r w))"
  using assms(1) reflpD [OF assms(3)] assms(2) [THEN keepsD']
  by (auto simp: RequireJWT_def admit_jwt_def Let_def split: prod.splits sum.splits if_splits)

lemma jwt_guard:
  assumes "\<And>en t. keeps R (validate en t)" "reflp R"
  shows "guard (RequireJWT validate) (admit_jwt validate) (finish_jwt validate) R"
proof
  fix r w r' w' nxt
  assume a: "admit_jwt validate r w = Some (r', w')"
  then have "finish_jwt validate r w resp = log_app (ctx_value (ctx_app_id r')) resp" for resp
    by (simp add: finish_jwt_def)
  then show "RequireJWT validate nxt r w = (case nxt r' w' of (resp, w'') \<Rightarrow> (finish_jwt validate r w resp, w''))"
    using a by (auto simp: RequireJWT_def admit_jwt_def Let_def ctx_value_def split: prod.splits sum.splits if_splits)
  show "R w w'"
    using a assms by (auto simp: admit_jwt_def Let_def dest: keepsD' split: prod.splits sum.splits if_splits)
next
  fix r w resp
  show "rs_status (finish_jwt validate r w resp) = rs_status resp"
    by (simp add: finish_jwt_def split: option.split prod.split)
qed (use jwt_refused [OF _ assms] in auto)

lemma admin_guard:
  "guard (RequireAdminAuth cmp h ips) (admit_admin cmp h ips) (\<lambda>r w resp. resp) (\<lambda>s s'. snd s' = snd s)"
proof
  fix r w r' w' nxt
  assume a: "admit_admin cmp h ips r w = Some (r', w' :: rates \<times> 'w)"
  then show "RequireAdminAuth cmp h ips nxt r w = (case nxt r' w' of (resp, w'') \<Rightarrow> (resp, w''))"
    by (auto simp: RequireAdminAuth_def admit_admin_def Let_def split: if_splits prod.splits bool.splits)
  show "snd w' = snd w"
    using a by (auto simp: admit_admin_def split: if_splits prod.splits bool.splits)
qed (auto simp: RequireAdminAuth_def admit_admin_def Let_def unauthorized_def split: if_splits prod.splits bool.splits)

end
