(* ===== verification/Admin_Store.thy ===== *)
theory Admin_Store
  imports Auth_Store Backend
begin

text \<open>
  \<open>storage/crsqlite/adminstore.go\<close>: the queries behind the admin pages and the log of sync
  events.  Times the database writes (\<open>datetime('now')\<close>) are seconds.
\<close>

section \<open>AdminDeviceStore\<close>

definition ListDevices :: "string \<Rightarrow> device_key list dbprog" where
  "ListDevices status =
     sql (on_meta (\<lambda>db. (Inr (map (\<lambda>r. r\<lparr>dk_LastSeenAt := None\<rparr>)
       (sort_key (\<lambda>r. - dk_RegisteredAt r) (filter (\<lambda>r. status = [] \<or> dk_Status r = status) (device_keys db)))), db)))"

text \<open>One row per status; the loop adds up all of them and remembers two.\<close>

definition status_groups :: "device_key list \<Rightarrow> (string \<times> int) list" where
  "status_groups rs =
     map (\<lambda>st. (st, int (length (filter (\<lambda>r. dk_Status r = st) rs)))) (remdups (map dk_Status rs))"

definition count_step :: "int \<times> int \<times> int \<Rightarrow> string \<times> int \<Rightarrow> int \<times> int \<times> int" where
  "count_step acc row =
     (case acc of (all, active, revoked) \<Rightarrow> case row of (status, n) \<Rightarrow>
       (all + n,
        if status = ''active'' then n else active,
        if status = ''revoked'' then n else revoked))"

definition DeviceCounts :: "(int \<times> int \<times> int) dbprog" where
  "DeviceCounts =
     sql (on_meta (\<lambda>db. (Inr (foldl count_step (0, 0, 0) (status_groups (device_keys db))), db)))"

definition revoke_row :: "string \<Rightarrow> int dbprog" where
  "revoke_row deviceKeyID db =
     (Inr (int (length (filter (\<lambda>r. dk_DeviceKeyID r = deviceKeyID) (device_keys db)))),
      db\<lparr>device_keys := map (\<lambda>r. if dk_DeviceKeyID r = deviceKeyID then r\<lparr>dk_Status := ''revoked''\<rparr> else r)
           (device_keys db)\<rparr>)"

definition RevokeDevice :: "string \<Rightarrow> unit dbprog" where
  "RevokeDevice deviceKeyID =
     bindP (sql (on_meta (revoke_row deviceKeyID))) (\<lambda>n. if n = 0 then failP ErrDeviceNotFound else retP ())"

section \<open>AdminDataStore\<close>

record admin_doc =
  doc_id :: string
  doc_user_id :: string
  doc_data :: json
  doc_device_id :: string
  doc_created_at :: int
  doc_wall_time :: "64 word"

definition doc_view :: "snapshot_row \<Rightarrow> admin_doc" where
  "doc_view r =
     \<lparr>doc_id = sn_doc_id r, doc_user_id = sn_user_id r, doc_data = sn_data r, doc_device_id = sn_device_id r,
      doc_created_at = sn_created_at r, doc_wall_time = sn_wall_time r\<rparr>"

definition on_snapshots :: "(snapshot_row list \<Rightarrow> (err + 'a) \<times> snapshot_row list) \<Rightarrow> 'a dbprog" where
  "on_snapshots f db =
     (case snapshots db of
        None \<Rightarrow> (Inl (ErrNoTable ''snapshots''), db)
      | Some rs \<Rightarrow> (case f rs of (r, rs') \<Rightarrow> (r, db\<lparr>snapshots := Some rs'\<rparr>)))"

definition ListDatasets :: "string \<Rightarrow> string list dbprog" where
  "ListDatasets appID =
     sql (on_meta (\<lambda>db. (Inr (map ds_dataset_id (filter (\<lambda>r. ds_app_id r = appID) (datasets db))), db)))"

text \<open>The app is an argument that the query does not use.\<close>

definition ListDocs :: "string \<Rightarrow> string \<Rightarrow> string \<Rightarrow> admin_doc list dbprog" where
  "ListDocs appID datasetID userID =
     sql (on_snapshots (\<lambda>rs. (Inr (map doc_view (sort_key (\<lambda>r. - sn_created_at r)
       (filter (\<lambda>r. sn_dataset_id r = datasetID \<and> (userID = [] \<or> sn_user_id r = userID)) rs))), rs)))"

definition is_doc :: "string \<Rightarrow> string \<Rightarrow> string \<Rightarrow> snapshot_row \<Rightarrow> bool" where
  "is_doc datasetID userID docID r \<longleftrightarrow> sn_dataset_id r = datasetID \<and> sn_user_id r = userID \<and> sn_doc_id r = docID"

definition GetDoc :: "string \<Rightarrow> string \<Rightarrow> string \<Rightarrow> admin_doc dbprog" where
  "GetDoc datasetID userID docID =
     sql (on_snapshots (\<lambda>rs. (case find (is_doc datasetID userID docID) rs of
        None \<Rightarrow> Inl ErrNoRows | Some r \<Rightarrow> Inr (doc_view r), rs)))"

definition DeleteDoc :: "string \<Rightarrow> string \<Rightarrow> string \<Rightarrow> unit dbprog" where
  "DeleteDoc datasetID userID docID =
     sql (on_snapshots (\<lambda>rs. (Inr (), filter (\<lambda>r. \<not> is_doc datasetID userID docID r) rs)))"

section \<open>AdminEventStore\<close>

definition WriteSyncEvent :: "string \<Rightarrow> string \<Rightarrow> string \<Rightarrow> string \<Rightarrow> int \<Rightarrow> unit dbprog" where
  "WriteSyncEvent appID datasetID userID deviceKeyID opCount =
     sql (on_meta (\<lambda>db. (Inr (), db\<lparr>sync_events := sync_events db @
       [\<lparr>ev_id = next_event_id db, ev_app_id = appID, ev_dataset_id = datasetID, ev_user_id = userID,
         ev_device_key_id = deviceKeyID, ev_op_count = opCount, ev_synced_at = db_now db\<rparr>],
       next_event_id := next_event_id db + 1\<rparr>)))"

definition app_events :: "string \<Rightarrow> database \<Rightarrow> event_row list" where
  "app_events appID db = filter (\<lambda>e. appID = [] \<or> ev_app_id e = appID) (sync_events db)"

text \<open>
  \<open>ORDER BY synced_at DESC LIMIT ? OFFSET ?\<close>; a negative limit is no limit in SQLite, a
  negative offset is zero.
\<close>

definition page_of :: "int \<Rightarrow> int \<Rightarrow> event_row list \<Rightarrow> event_row list" where
  "page_of limit offset es =
     (let rest = drop (nat offset) (sort_key (\<lambda>e. - ev_synced_at e) es)
      in if limit < 0 then rest else take (nat limit) rest)"

definition ListSyncEvents :: "string \<Rightarrow> int \<Rightarrow> int \<Rightarrow> (event_row list \<times> int) dbprog" where
  "ListSyncEvents appID page pageSize =
     (let page = (if page < 1 then 1 else page); offset = wrap64 ((page - 1) * pageSize) in
      bindP (sql (on_meta (\<lambda>db. (Inr (int (length (app_events appID db))), db)))) (\<lambda>total.
      bindP (sql (on_meta (\<lambda>db. (Inr (page_of pageSize offset (app_events appID db)), db)))) (\<lambda>events.
      bindP (sql (retP ())) (\<lambda>_. retP (events, total)))))"

record sync_aggregate =
  agg_app_id :: string
  agg_dataset_id :: string
  agg_total_ops :: int
  agg_syncs_24h :: int
  agg_last_sync :: int

definition event_key :: "event_row \<Rightarrow> string \<times> string" where
  "event_key e = (ev_app_id e, ev_dataset_id e)"

definition aggregate :: "int \<Rightarrow> event_row list \<Rightarrow> string \<times> string \<Rightarrow> sync_aggregate" where
  "aggregate now es k =
     (let g = filter (\<lambda>e. event_key e = k) es in
      \<lparr>agg_app_id = fst k, agg_dataset_id = snd k,
       agg_total_ops = sum_list (map ev_op_count g),
       agg_syncs_24h = int (length (filter (\<lambda>e. now - 86400 \<le> ev_synced_at e) g)),
       agg_last_sync = foldl max 0 (map ev_synced_at g)\<rparr>)"

definition ListSyncAggregates :: "sync_aggregate list dbprog" where
  "ListSyncAggregates =
     bindP (sql (on_meta (\<lambda>db. (Inr (sort_key (\<lambda>a. - agg_last_sync a)
       (map (aggregate (db_now db) (sync_events db)) (remdups (map event_key (sync_events db))))), db)))) (\<lambda>aggs.
     bindP (sql (retP ())) (\<lambda>_. retP aggs))"

section \<open>Facts\<close>

lemma find_key_revoke:
  "find_key k (snd (revoke_row k' db)) =
     (if k = k' then map_option (\<lambda>r. r\<lparr>dk_Status := ''revoked''\<rparr>) (find_key k db) else find_key k db)"
  by (simp add: find_key_def revoke_row_def find_map_update)

lemma RevokeDevice_find:
  assumes "RevokeDevice k' db = (r, db')"
  shows "find_key k db' = find_key k db
    \<or> k = k' \<and> find_key k db' = map_option (\<lambda>r. r\<lparr>dk_Status := ''revoked''\<rparr>) (find_key k db)"
proof -
  consider e where "sql (on_meta (revoke_row k')) db = (Inl e, db')"
    | n where "sql (on_meta (revoke_row k')) db = (Inr n, db')"
    using assms
    by (auto simp: RevokeDevice_def bindP_def split: prod.splits sum.splits if_splits)
  then show ?thesis
  proof cases
    case 1
    then have "same_content db db'" by (rule sql_on_meta_Inl) (simp add: revoke_row_def)
    then show ?thesis by (simp add: find_key_same_content)
  next
    case 2
    then obtain db1 where db1: "same_content db db1" "revoke_row k' db1 = (Inr n, db')" by (rule sql_on_meta_Inr)
    then have "db' = snd (revoke_row k' db1)" by simp
    then show ?thesis using find_key_revoke [of k k' db1] find_key_same_content [OF db1(1)] by auto
  qed
qed

lemma count_step_all: "fst (foldl count_step acc rows) = fst acc + sum_list (map snd rows)"
  by (induction rows arbitrary: acc) (auto simp: count_step_def split: prod.splits)

lemma count_step_status:
  assumes "distinct (map fst rows)"
  shows "fst (snd (foldl count_step acc rows)) = (case map_of rows ''active'' of None \<Rightarrow> fst (snd acc) | Some n \<Rightarrow> n)
    \<and> snd (snd (foldl count_step acc rows)) = (case map_of rows ''revoked'' of None \<Rightarrow> snd (snd acc) | Some n \<Rightarrow> n)"
  using assms
proof (induction rows arbitrary: acc)
  case (Cons row rows)
  obtain status n where row: "row = (status, n)" by (cases row)
  have new: "status \<notin> fst ` set rows" "distinct (map fst rows)" using Cons.prems row by auto
  have no: "map_of rows status = None" using new by (simp add: map_of_eq_None_iff)
  show ?case
    using Cons.IH [OF new(2), of "count_step acc row"] no
    by (auto simp: row count_step_def split: prod.splits option.splits)
qed simp

lemma sum_groups:
  "sum_list (map (\<lambda>st. int (length (filter (\<lambda>r. dk_Status r = st) rs))) (remdups (map dk_Status rs))) = int (length rs)"
proof -
  have "length (filter (\<lambda>r. dk_Status r = st) rs) = count_list (map dk_Status rs) st" for st
    by (induction rs) auto
  then have "sum_list (map (\<lambda>st. int (length (filter (\<lambda>r. dk_Status r = st) rs))) (remdups (map dk_Status rs)))
      = (\<Sum>st \<in> set (map dk_Status rs). int (count_list (map dk_Status rs) st))"
    by (simp add: sum_list_distinct_conv_sum_set)
  also have "\<dots> = int (\<Sum>st \<in> set (map dk_Status rs). count_list (map dk_Status rs) st)" by simp
  also have "\<dots> = int (length rs)" by (metis length_map sum_count_set finite_set subset_refl)
  finally show ?thesis .
qed

lemma map_of_groups:
  "map_of (status_groups rs) st =
     (if st \<in> dk_Status ` set rs then Some (int (length (filter (\<lambda>r. dk_Status r = st) rs))) else None)"
  unfolding status_groups_def by (simp add: map_of_map_restrict restrict_map_def)

lemma group_count:
  "(case map_of (status_groups rs) st of None \<Rightarrow> 0 | Some n \<Rightarrow> n) = int (length (filter (\<lambda>r. dk_Status r = st) rs))"
proof (cases "st \<in> dk_Status ` set rs")
  case False
  then have "filter (\<lambda>r. dk_Status r = st) rs = []" by (auto simp: filter_empty_conv)
  then show ?thesis using False by (simp add: map_of_groups)
qed (simp add: map_of_groups)

lemma fst_groups: "map fst (status_groups rs) = remdups (map dk_Status rs)"
  by (simp add: status_groups_def comp_def)

section \<open>Properties\<close>

text \<open>
  The device counts are exact: the number of keys, of active keys and of revoked keys, whatever
  other statuses the table holds.
\<close>

theorem DeviceCounts_exact:
  assumes "DeviceCounts db = (Inr (all, active, revoked), db')"
  shows "all = int (length (device_keys db))
    \<and> active = int (length (filter (\<lambda>r. dk_Status r = ''active'') (device_keys db)))
    \<and> revoked = int (length (filter (\<lambda>r. dk_Status r = ''revoked'') (device_keys db)))"
proof -
  obtain db1 where "same_content db db1" "(all, active, revoked) = foldl count_step (0, 0, 0) (status_groups (device_keys db1))"
    using assms unfolding DeviceCounts_def by (rule sql_on_meta_Inr) simp
  then have c: "foldl count_step (0, 0, 0) (status_groups (device_keys db)) = (all, active, revoked)"
    by (simp add: same_contentD)
  have "distinct (map fst (status_groups (device_keys db)))" by (simp add: fst_groups)
  from count_step_status [OF this, of "(0, 0, 0)"] count_step_all [of "(0, 0, 0)" "status_groups (device_keys db)"]
  have "all = sum_list (map snd (status_groups (device_keys db)))"
    "active = (case map_of (status_groups (device_keys db)) ''active'' of None \<Rightarrow> 0 | Some n \<Rightarrow> n)"
    "revoked = (case map_of (status_groups (device_keys db)) ''revoked'' of None \<Rightarrow> 0 | Some n \<Rightarrow> n)"
    by (simp_all add: c cong: option.case_cong)
  moreover have "map snd (status_groups (device_keys db))
      = map (\<lambda>st. int (length (filter (\<lambda>r. dk_Status r = st) (device_keys db)))) (remdups (map dk_Status (device_keys db)))"
    by (simp add: status_groups_def)
  ultimately show ?thesis
    using sum_groups by (simp add: group_count)
qed

definition sample_key :: "string \<Rightarrow> string \<Rightarrow> device_key" where
  "sample_key k st = \<lparr>dk_DeviceKeyID = k, dk_DeviceID = ''dev1'', dk_AppID = ''app1'', dk_KeyHash = ''h'',
     dk_Status = st, dk_RegisteredAt = 1, dk_LastSeenAt = None\<rparr>"

definition key_db :: database where
  "key_db = empty_db\<lparr>has_meta := True,
     device_keys := [sample_key ''k1'' ''active'', sample_key ''k2'' ''revoked'', sample_key ''k3'' ''active'']\<rparr>"

theorem DeviceCounts_exact_witness:
  "fst (DeviceCounts key_db) = Inr (3, 2, 1)"
proof -
  obtain r db' where D: "DeviceCounts key_db = (r, db')" by (cases "DeviceCounts key_db")
  have "faults key_db = []" "has_meta key_db" by (simp_all add: key_db_def empty_db_def)
  then obtain all active revoked where r: "r = Inr (all, active, revoked)"
    using D by (auto simp: DeviceCounts_def on_meta_def prod_eq_iff)
  show ?thesis
    using DeviceCounts_exact [OF D [unfolded r]] D r by (simp add: key_db_def sample_key_def)
qed

text \<open>
  The pages of the event log tile it: reading pages \<open>1\<close> to \<open>n\<close> of positive size gives the first
  \<open>n * pageSize\<close> events of the app, newest first, each once, as long as that number fits into an \<open>int\<close>,
  and the total is the number of them all.
\<close>

theorem ListSyncEvents_pages:
  assumes "faults db = []" "has_meta db" "0 < pageSize" "int n * pageSize < 2 ^ 63"
  shows "concat (map (\<lambda>p. case fst (ListSyncEvents appID (int p) pageSize db) of Inl e \<Rightarrow> [] | Inr (es, tot) \<Rightarrow> es) [1..<Suc n])
      = take (n * nat pageSize) (sort_key (\<lambda>e. - ev_synced_at e) (app_events appID db))
    \<and> (\<exists>es. fst (ListSyncEvents appID page pageSize db) = Inr (es, int (length (app_events appID db))))"
proof -
  let ?es = "sort_key (\<lambda>e. - ev_synced_at e) (app_events appID db)"
  have L: "fst (ListSyncEvents appID page pageSize db) =
      Inr (page_of pageSize (wrap64 ((if page < 1 then 0 else page - 1) * pageSize)) (app_events appID db),
        int (length (app_events appID db)))" for page
    using assms by (simp add: ListSyncEvents_def Let_def on_meta_def)
  have "concat (map (\<lambda>p. case fst (ListSyncEvents appID (int p) pageSize db) of Inl e \<Rightarrow> [] | Inr (es, tot) \<Rightarrow> es) [1..<Suc n])
      = take (n * nat pageSize) ?es"
    using assms(4)
  proof (induction n)
    case (Suc n)
    have b: "0 \<le> int n * pageSize" "int n * pageSize < 2 ^ 63"
      using Suc.prems assms(3) by (simp_all add: algebra_simps)
    then have w: "wrap64 (int n * pageSize) = int n * pageSize" by (intro wrap64_id) simp_all
    have "nat (int n * pageSize) = n * nat pageSize" using assms(3) by (simp add: nat_mult_distrib)
    then have "page_of pageSize (int n * pageSize) (app_events appID db) = take (nat pageSize) (drop (n * nat pageSize) ?es)"
      using assms(3) by (simp add: page_of_def Let_def)
    then show ?case
      using Suc b by (simp add: L w take_add [symmetric] add.commute)
  qed simp
  then show ?thesis by (simp add: L)
qed

definition event_db :: database where
  "event_db = snd (WriteSyncEvent ''app1'' ''ds1'' ''u'' ''k'' 3
     ((snd (WriteSyncEvent ''app1'' ''ds1'' ''u'' ''k'' 2 (empty_db\<lparr>has_meta := True\<rparr>)))\<lparr>db_now := 60\<rparr>))"

theorem ListSyncEvents_pages_witness:
  "map (\<lambda>p. case fst (ListSyncEvents ''app1'' p 1 event_db) of Inl e \<Rightarrow> [] | Inr (es, tot) \<Rightarrow> map ev_op_count es) [1, 2]
     = [[3], [2]]
   \<and> concat (map (\<lambda>p. case fst (ListSyncEvents ''app1'' (int p) 1 event_db) of Inl e \<Rightarrow> [] | Inr (es, tot) \<Rightarrow> es) [1..<Suc 2])
     = take 2 (sort_key (\<lambda>e. - ev_synced_at e) (app_events ''app1'' event_db))"
proof
  have "faults event_db = []" "has_meta event_db"
    by (simp_all add: event_db_def WriteSyncEvent_def on_meta_def empty_db_def)
  from ListSyncEvents_pages [OF this, of 1 2 "''app1''"] show "concat (map (\<lambda>p. case fst (ListSyncEvents ''app1'' (int p) 1 event_db) of
      Inl e \<Rightarrow> [] | Inr (es, tot) \<Rightarrow> es) [1..<Suc 2]) = take 2 (sort_key (\<lambda>e. - ev_synced_at e) (app_events ''app1'' event_db))"
    by simp
  show "map (\<lambda>p. case fst (ListSyncEvents ''app1'' p 1 event_db) of Inl e \<Rightarrow> [] | Inr (es, tot) \<Rightarrow> map ev_op_count es) [1, 2]
     = [[3], [2]]"
    by code_simp
qed

end
