(* ===== verification/Handlers.thy ===== *)
theory Handlers
  imports Engine Device Middleware Admin_Store
begin

text \<open>
  The handlers behind the middleware: \<open>server/handlers/sync.go\<close>, \<open>server/handlers/health.go\<close> and
  \<open>server/auth/handlers.go\<close>.  The sync handler works on the engine's world; codec, compressor
  and event writer are its fields, the last two possibly nil.  The handlers of device keys take
  the device service as a record of its methods and the token validator as an option.
\<close>

section \<open>sync.go\<close>

type_synonym 's event_writer = "string \<Rightarrow> string \<Rightarrow> string \<Rightarrow> string \<Rightarrow> int \<Rightarrow> ('s, err, unit) prog"

record ('s, 'n) sync_handler =
  sh_engine :: "('s, 'n) engine"
  sh_codec :: "(sync_response, sync_message) codec"
  sh_compressor :: "compressor option"
  sh_events :: "'s event_writer option"

definition NewSyncHandler :: "('s, 'n) engine \<Rightarrow> (sync_response, sync_message) codec \<Rightarrow> compressor option
    \<Rightarrow> ('s, 'n) sync_handler" where
  "NewSyncHandler eng cod cpr = \<lparr>sh_engine = eng, sh_codec = cod, sh_compressor = cpr, sh_events = None\<rparr>"

definition WithEventWriter :: "'s event_writer \<Rightarrow> ('s, 'n) sync_handler \<Rightarrow> ('s, 'n) sync_handler" where
  "WithEventWriter w h = h\<lparr>sh_events := Some w\<rparr>"

text \<open>\<open>io.LimitReader(r.Body, 4<<20)\<close>: what is beyond the limit is cut off.\<close>

definition body_limit :: nat where
  "body_limit = 4 * 1048576"

definition zero_message :: sync_message where
  "zero_message = \<lparr>msg_AppID = [], msg_UserID = [], msg_DatasetID = [], msg_Clock = zero_hlc, msg_Ops = [],
     msg_ClientSchemaVersion = 0\<rparr>"

text \<open>The ids of the authenticated context replace those of the message.\<close>

definition trusted :: "request \<Rightarrow> sync_message \<Rightarrow> sync_message" where
  "trusted r msg =
     (let msg1 = (if ctx_value (ctx_app_id r) \<noteq> [] then msg\<lparr>msg_AppID := ctx_value (ctx_app_id r)\<rparr> else msg)
      in if ctx_value (ctx_user_id r) \<noteq> [] then msg1\<lparr>msg_UserID := ctx_value (ctx_user_id r)\<rparr> else msg1)"

definition read_message :: "('s, 'n) sync_handler \<Rightarrow> request \<Rightarrow> response + sync_message" where
  "read_message h r =
     (case rq_body r of
        Inl e \<Rightarrow> Inl (http_error_of ''read body: '' e 400)
      | Inr bytes \<Rightarrow>
          (case sh_compressor h of
             None \<Rightarrow> Inl (http_error ''server misconfigured: nil compressor'' 500)
           | Some c \<Rightarrow>
               (case Decompress c (take body_limit bytes) of
                  Inl e \<Rightarrow> Inl (http_error_of ''decompress: '' e 400)
                | Inr raw \<Rightarrow>
                    (case Decode (sh_codec h) raw zero_message of
                       Inl e \<Rightarrow> Inl (http_error_of ''decode: '' e 400)
                     | Inr msg \<Rightarrow> Inr (trusted r msg)))))"

definition record_event :: "('s, 'n) sync_handler \<Rightarrow> request \<Rightarrow> sync_message \<Rightarrow> ('s, 'n) world \<Rightarrow> ('s, 'n) world" where
  "record_event h r msg w =
     (case sh_events h of
        None \<Rightarrow> w
      | Some write \<Rightarrow>
          if msg_Ops msg = [] then w
          else snd (on_store (write (msg_AppID msg) (msg_DatasetID msg) (msg_UserID msg)
                 (ctx_value (ctx_device_key_id r)) (int (length (msg_Ops msg)))) w))"

definition write_response :: "('s, 'n) sync_handler \<Rightarrow> sync_response \<Rightarrow> response" where
  "write_response h resp =
     (case Encode (sh_codec h) resp of
        Inl e \<Rightarrow> http_error_of ''encode: '' e 500
      | Inr encoded \<Rightarrow>
          (case sh_compressor h of
             None \<Rightarrow> http_error ''server misconfigured: nil compressor'' 500
           | Some c \<Rightarrow>
               (case Compress c encoded of
                  Inl e \<Rightarrow> http_error_of ''compress: '' e 500
                | Inr out \<Rightarrow> reply 200 [(''Content-Type'', ''application/cbor+zstd'')] (BBytes out))))"

definition SyncHandler_ServeHTTP :: "('s, 'n) sync_handler \<Rightarrow> (('s, 'n) world) handler" where
  "SyncHandler_ServeHTTP h r w =
     (if rq_method r \<noteq> ''POST'' then (http_error ''method not allowed'' 405, w)
      else (case read_message h r of
              Inl resp \<Rightarrow> (resp, w)
            | Inr msg \<Rightarrow>
                (case Sync (sh_engine h) (env_wall (rq_env r)) msg w of
                   (Inl e, w1) \<Rightarrow> (http_error_of ''sync: '' e 500, w1)
                 | (Inr resp, w1) \<Rightarrow> (write_response h resp, record_event h r msg w1))))"

section \<open>The device service as the handlers see it\<close>

record 'w device_service =
  svc_Register :: "env \<Rightarrow> string \<Rightarrow> string \<Rightarrow> ('w, err, string \<times> string) prog"
  svc_Verify :: "string \<Rightarrow> string \<Rightarrow> ('w, err, unit) prog"
  svc_RotateKey :: "env \<Rightarrow> string \<Rightarrow> string \<Rightarrow> string \<Rightarrow> ('w, err, unit) prog"
  svc_Revoke :: "env \<Rightarrow> string \<Rightarrow> ('w, err, unit) prog"

text \<open>The store takes the reading of the clock in \<open>UpdateDeviceKey\<close>.\<close>

definition NewDeviceService :: "(int \<Rightarrow> 's auth_store) \<Rightarrow> (string \<Rightarrow> string \<Rightarrow> bool) \<Rightarrow> 's device_service" where
  "NewDeviceService store cmp =
     \<lparr>svc_Register = (\<lambda>en. Register (store (env_now en 1)) (env_gen en) (env_rand en) (env_uuid en) (env_now en 0)),
      svc_Verify = Verify (store 0) cmp,
      svc_RotateKey = (\<lambda>en. RotateKey (store (env_now en 1)) cmp (env_gen en)),
      svc_Revoke = (\<lambda>en. Revoke (store (env_now en 1)))\<rparr>"

section \<open>auth/handlers.go\<close>

record 'w auth_handlers =
  ah_deviceSvc :: "'w device_service"
  ah_oidcSvc :: "(env \<Rightarrow> string \<Rightarrow> ('w, err, oidc_claims) prog) option"

definition NewHandlers :: "'w device_service \<Rightarrow> (env \<Rightarrow> string \<Rightarrow> ('w, err, oidc_claims) prog) option \<Rightarrow> 'w auth_handlers" where
  "NewHandlers svc oidc = \<lparr>ah_deviceSvc = svc, ah_oidcSvc = oidc\<rparr>"

definition writeJSON :: "int \<Rightarrow> json \<Rightarrow> response" where
  "writeJSON code v = reply code [(''Content-Type'', ''application/json'')] (BJson v)"

definition Handlers_Register :: "'w auth_handlers \<Rightarrow> 'w handler" where
  "Handlers_Register h r w =
     (case decode_body [''app_id'', ''device_id''] r of
        None \<Rightarrow> (http_error ''invalid request body'' 400, w)
      | Some req \<Rightarrow>
          if req ''app_id'' = [] \<or> req ''device_id'' = [] then (http_error ''invalid request body'' 400, w)
          else (case svc_Register (ah_deviceSvc h) (rq_env r) (req ''app_id'') (req ''device_id'') w of
                  (Inl e, w') \<Rightarrow> (http_error ''registration failed'' 500, w')
                | (Inr (k, secret), w') \<Rightarrow>
                    (writeJSON 201 (JObj [(''device_key_id'', JString k), (''device_secret'', JString secret)]), w')))"

definition Handlers_Token :: "'w auth_handlers \<Rightarrow> 'w handler" where
  "Handlers_Token h r w =
     (case decode_body [''device_key_id'', ''device_secret''] r of
        None \<Rightarrow> (http_error ''invalid request body'' 400, w)
      | Some req \<Rightarrow>
          (case svc_Verify (ah_deviceSvc h) (req ''device_key_id'') (req ''device_secret'') w of
             (Inl e, w1) \<Rightarrow> (http_error ''invalid device key'' 401, w1)
           | (Inr _, w1) \<Rightarrow>
               let header = rq_header r ''Authorization'' in
               (case ah_oidcSvc h of
                  Some validate \<Rightarrow>
                    if HasPrefix header ''Bearer '' then
                      (case validate (rq_env r) (TrimPrefix header ''Bearer '') w1 of
                         (Inl e, w2) \<Rightarrow> (http_error_of ''invalid token: '' e 401, w2)
                       | (Inr claims, w2) \<Rightarrow>
                           (writeJSON 200 (JObj [(''app_id'', JString (cl_AppID claims)),
                                                 (''user_id'', JString (cl_Subject claims))]), w2))
                    else (reply 200 [] BEmpty, w1)
                | None \<Rightarrow> (reply 200 [] BEmpty, w1))))"

definition Handlers_RotateKey :: "'w auth_handlers \<Rightarrow> 'w handler" where
  "Handlers_RotateKey h r w =
     (case decode_body [''device_key_id'', ''old_secret'', ''new_secret''] r of
        None \<Rightarrow> (http_error ''invalid request body'' 400, w)
      | Some req \<Rightarrow>
          (case svc_RotateKey (ah_deviceSvc h) (rq_env r) (req ''device_key_id'') (req ''old_secret'')
                  (req ''new_secret'') w of
             (Inl e, w1) \<Rightarrow> (http_error_of ''rotation failed: '' e 401, w1)
           | (Inr _, w1) \<Rightarrow> (reply 204 [] BEmpty, w1)))"

definition Handlers_RevokeDevice :: "'w auth_handlers \<Rightarrow> 'w handler" where
  "Handlers_RevokeDevice h r w =
     (let deviceKeyID = after_last (CHR ''/'') (rq_path r) in
      if deviceKeyID = [] then (http_error ''missing device_key_id'' 400, w)
      else (case svc_Revoke (ah_deviceSvc h) (rq_env r) deviceKeyID w of
              (Inl e, w1) \<Rightarrow> (http_error_of ''revoke failed: '' e 404, w1)
            | (Inr _, w1) \<Rightarrow> (reply 204 [] BEmpty, w1)))"

section \<open>health.go\<close>

text \<open>
  The counter of streams is a package variable; \<open>SSEConnect\<close> and \<open>SSEDisconnect\<close> are its only
  writers.  \<open>uptime\<close> is truncated to seconds.
\<close>

definition SSEConnect :: "64 word \<Rightarrow> 64 word" where
  "SSEConnect n = n + 1"

definition SSEDisconnect :: "64 word \<Rightarrow> 64 word" where
  "SSEDisconnect n = n + (- 1)"

record 'w health_handler =
  hh_startTime :: int
  hh_version :: string
  hh_dbOK :: "'w \<Rightarrow> bool"

definition NewHealthHandler :: "int \<Rightarrow> string \<Rightarrow> 'w health_handler" where
  "NewHealthHandler now version = \<lparr>hh_startTime = now, hh_version = version, hh_dbOK = (\<lambda>w. True)\<rparr>"

definition WithDBCheck :: "('w \<Rightarrow> bool) \<Rightarrow> 'w health_handler \<Rightarrow> 'w health_handler" where
  "WithDBCheck fn h = h\<lparr>hh_dbOK := fn\<rparr>"

definition Health_ServeHTTP :: "'w health_handler \<Rightarrow> 64 word \<Rightarrow> 'w handler" where
  "Health_ServeHTTP h activeSSEConns r w =
     (reply 200 [(''Content-Type'', ''application/json'')]
        (BJson (JObj
          [(''active_sse_connections'', JInt (sint activeSSEConns)),
           (''db_status'', JString (if hh_dbOK h w then ''ok'' else ''error'')),
           (''status'', JString ''ok''),
           (''uptime_seconds'', JInt ((env_now (rq_env r) 0 - hh_startTime h) div 1000000000)),
           (''version'', JString (hh_version h))])), w)"

section \<open>metrics.go\<close>

text \<open>
  What the registry is given; the values are the library's.  \<open>MustRegister\<close> panics on a name
  that is registered twice: \<open>None\<close>.
\<close>

datatype metric_kind = Counter | Gauge

record metric_desc =
  md_kind :: metric_kind
  md_name :: string
  md_help :: string
  md_labels :: "string list"

definition MustRegister :: "metric_desc list \<Rightarrow> metric_desc list option" where
  "MustRegister ms = (if distinct (map md_name ms) then Some ms else None)"

definition NewMetricsRegistry :: "metric_desc list option" where
  "NewMetricsRegistry =
     MustRegister
       [\<lparr>md_kind = Counter, md_name = ''mobiledb_sync_requests_total'', md_help = ''Total sync requests by app_id.'',
         md_labels = [''app_id'']\<rparr>,
        \<lparr>md_kind = Counter, md_name = ''mobiledb_crdt_ops_total'', md_help = ''Total CRDT ops merged.'', md_labels = []\<rparr>,
        \<lparr>md_kind = Gauge, md_name = ''mobiledb_active_devices'', md_help = ''Active (non-revoked) devices.'', md_labels = []\<rparr>,
        \<lparr>md_kind = Gauge, md_name = ''mobiledb_sse_connections'', md_help = ''Active SSE connections.'', md_labels = []\<rparr>,
        \<lparr>md_kind = Counter, md_name = ''mobiledb_compaction_runs_total'', md_help = ''Total compaction runs.'', md_labels = []\<rparr>,
        \<lparr>md_kind = Gauge, md_name = ''mobiledb_db_size_bytes'', md_help = ''SQLite file size per tenant.'',
         md_labels = [''app_id'']\<rparr>]"

lemma registry_does_not_panic: "NewMetricsRegistry \<noteq> None"
  by (simp add: NewMetricsRegistry_def MustRegister_def)

end
