(* ===== verification/Admin_Pages.thy ===== *)
theory Admin_Pages
  imports Admin_Store Middleware
begin

text \<open>
  \<open>admin/\<close>: the pages of the admin console.  Each handler works through an interface of its
  own, a record of programs; \<open>tmpl\<close> executes a template of the directory on its data.  The HTML
  of the templates is not modelled: a page is the text the template returns.  The values of
  the metrics are whole numbers below \<open>2 ^ 53\<close>, on which float arithmetic is exact.
\<close>

section \<open>Interfaces and page data\<close>

record 'w device_admin_store =
  das_ListDevices :: "string \<Rightarrow> ('w, err, device_key list) prog"
  das_DeviceCounts :: "('w, err, int \<times> int \<times> int) prog"
  das_RevokeDevice :: "string \<Rightarrow> ('w, err, unit) prog"

record 'w data_admin_store =
  dts_ListDatasets :: "string \<Rightarrow> ('w, err, string list) prog"
  dts_ListDocs :: "string \<Rightarrow> string \<Rightarrow> string \<Rightarrow> ('w, err, admin_doc list) prog"
  dts_GetDoc :: "string \<Rightarrow> string \<Rightarrow> string \<Rightarrow> ('w, err, admin_doc) prog"
  dts_DeleteDoc :: "string \<Rightarrow> string \<Rightarrow> string \<Rightarrow> ('w, err, unit) prog"

record 'w sync_admin_store =
  sas_ListSyncEvents :: "string \<Rightarrow> int \<Rightarrow> int \<Rightarrow> ('w, err, event_row list \<times> int) prog"
  sas_ListSyncAggregates :: "('w, err, sync_aggregate list) prog"

record metric =
  mt_labels :: "(string \<times> string) list"
  mt_gauge :: "int option"
  mt_counter :: "int option"

record metric_family =
  mf_name :: string
  mf_metrics :: "metric list"

record app_metric_row =
  amr_AppID :: string
  amr_Syncs :: int
  amr_DBBytes :: int

record events_view =
  ev_Events :: "event_row list"
  ev_Total :: int
  ev_Page :: int
  ev_PageSize :: int
  ev_From :: int
  ev_To :: int
  ev_HasPrev :: bool
  ev_HasNext :: bool
  ev_PrevPage :: int
  ev_NextPage :: int

record metrics_view =
  mv_ActiveDevices :: int
  mv_CRDTOpsTotal :: int
  mv_SSEConnections :: int
  mv_CompactionRuns :: int
  mv_SyncRequestsTotal :: int
  mv_DBSizeMB :: string
  mv_PerApp :: "app_metric_row list"

datatype page_data =
    DevicesPage "device_key list" string int int int
  | BasePage string string
  | DataPage string "string list"
  | DocsPage "admin_doc list" string string string
  | DocModal admin_doc
  | EventsPage events_view
  | AggregatesPage "sync_aggregate list"
  | KeysPageData bool
  | MetricsPage metrics_view

type_synonym templates = "string \<Rightarrow> page_data \<Rightarrow> err + string"

definition html_reply :: "string \<Rightarrow> response" where
  "html_reply page = reply 200 [(''Content-Type'', ''text/html; charset=utf-8'')] (BBytes page)"

definition template_error :: "err \<Rightarrow> response" where
  "template_error e = http_error_of ''template error: '' e 500"

text \<open>The page around a content, and a whole page: the inner template, then the base.\<close>

definition renderPage :: "templates \<Rightarrow> string \<Rightarrow> string \<Rightarrow> response" where
  "renderPage tmpl title contentHTML =
     (case tmpl ''base'' (BasePage title contentHTML) of
        Inl e \<Rightarrow> template_error e
      | Inr page \<Rightarrow> html_reply page)"

definition full_page :: "templates \<Rightarrow> string \<Rightarrow> string \<Rightarrow> page_data \<Rightarrow> response" where
  "full_page tmpl inner title data =
     (case tmpl inner data of
        Inl e \<Rightarrow> template_error e
      | Inr content \<Rightarrow> renderPage tmpl title content)"

definition fragment :: "templates \<Rightarrow> string \<Rightarrow> page_data \<Rightarrow> response" where
  "fragment tmpl inner data =
     (case tmpl inner data of Inl e \<Rightarrow> template_error e | Inr html \<Rightarrow> html_reply html)"

section \<open>handlers_devices.go\<close>

text \<open>\<open>html.EscapeString\<close>.\<close>

definition escape_char :: "char \<Rightarrow> string" where
  "escape_char c =
     (if c = CHR ''<'' then ''&lt;''
      else if c = CHR ''>'' then ''&gt;''
      else if c = CHR ''&'' then ''&amp;''
      else if c = CHR 0x27 then ''&#39;''
      else if c = CHR 0x22 then ''&#34;''
      else [c])"

definition EscapeString :: "string \<Rightarrow> string" where
  "EscapeString s = concat (map escape_char s)"

definition newline_tabs :: "nat \<Rightarrow> string" where
  "newline_tabs n = CHR 0x0A # replicate n CHR 0x09"

definition revoked_row :: "string \<Rightarrow> string" where
  "revoked_row deviceKeyID =
     ''<tr style=\"opacity:0.5\">'' @ newline_tabs 2 @ ''<td><code>'' @ EscapeString deviceKeyID @ ''</code></td>''
     @ newline_tabs 2 @ ''<td colspan=\"4\" style=\"color:#6b7280\">'' @ [CHR 0xE2, CHR 0x80, CHR 0x94] @ ''</td>''
     @ newline_tabs 2 @ ''<td><span class=\"badge badge-revoked\">revoked</span></td>'' @ newline_tabs 1 @ ''</tr>''"

definition devices_list :: "'w device_admin_store \<Rightarrow> templates \<Rightarrow> 'w handler" where
  "devices_list st tmpl r w =
     (let status = rq_query r ''status'' in
      if status \<noteq> [] \<and> status \<noteq> ''active'' \<and> status \<noteq> ''revoked'' then (http_error ''invalid status'' 400, w)
      else (case das_ListDevices st status w of
              (Inl e, w1) \<Rightarrow> (http_error ''failed to list devices'' 500, w1)
            | (Inr devices, w1) \<Rightarrow>
                (case das_DeviceCounts st w1 of
                   (Inl e, w2) \<Rightarrow> (http_error ''failed to count devices'' 500, w2)
                 | (Inr (all, active, revoked), w2) \<Rightarrow>
                     (full_page tmpl ''devices'' ''Devices'' (DevicesPage devices status all active revoked), w2))))"

definition devices_revoke :: "'w device_admin_store \<Rightarrow> 'w handler" where
  "devices_revoke st r w =
     (let deviceKeyID = after_last (CHR ''/'') (rq_path r) in
      if deviceKeyID = [] \<or> deviceKeyID = ''devices'' then (http_error ''missing device_key_id'' 400, w)
      else (case das_RevokeDevice st deviceKeyID w of
              (Inl e, w1) \<Rightarrow> (http_error_of ''revoke failed: '' e 500, w1)
            | (Inr _, w1) \<Rightarrow> (html_reply (revoked_row deviceKeyID), w1)))"

definition DevicesHandler :: "'w device_admin_store \<Rightarrow> templates \<Rightarrow> 'w handler" where
  "DevicesHandler st tmpl r w =
     (if rq_method r = ''GET'' then devices_list st tmpl r w
      else if rq_method r = ''DELETE'' then devices_revoke st r w
      else (http_error ''method not allowed'' 405, w))"

section \<open>handlers_data.go\<close>

definition data_browse :: "'w data_admin_store \<Rightarrow> templates \<Rightarrow> 'w handler" where
  "data_browse st tmpl r w =
     (let appID = rq_query r ''app_id'' in
      case (if appID \<noteq> [] then dts_ListDatasets st appID w else (Inr [], w)) of
        (Inl e, w1) \<Rightarrow> (http_error_of ''failed to list datasets: '' e 500, w1)
      | (Inr ids, w1) \<Rightarrow> (full_page tmpl ''data'' ''Data Browser'' (DataPage appID ids), w1))"

definition docs_placeholder :: string where
  "docs_placeholder = ''<p style=\"color:#6b7280;text-align:center;padding:2rem 0\">Select a dataset to browse documents.</p>''"

definition data_docsPartial :: "'w data_admin_store \<Rightarrow> templates \<Rightarrow> 'w handler" where
  "data_docsPartial st tmpl r w =
     (let appID = rq_query r ''app_id''; datasetID = rq_query r ''dataset_id''; userID = rq_query r ''user_id'' in
      if datasetID = [] then (html_reply docs_placeholder, w)
      else (case dts_ListDocs st appID datasetID userID w of
              (Inl e, w1) \<Rightarrow> (http_error_of ''failed to list docs: '' e 500, w1)
            | (Inr docs, w1) \<Rightarrow> (fragment tmpl ''data_docs'' (DocsPage docs appID datasetID userID), w1)))"

definition data_docModal :: "'w data_admin_store \<Rightarrow> templates \<Rightarrow> 'w handler" where
  "data_docModal st tmpl r w =
     (let datasetID = rq_query r ''dataset_id''; userID = rq_query r ''user_id''; docID = rq_query r ''doc_id'' in
      if datasetID = [] \<or> userID = [] \<or> docID = [] then (http_error ''missing query params'' 400, w)
      else (case dts_GetDoc st datasetID userID docID w of
              (Inl e, w1) \<Rightarrow> (http_error_of ''doc not found: '' e 404, w1)
            | (Inr doc, w1) \<Rightarrow> (fragment tmpl ''data_doc_modal'' (DocModal doc), w1)))"

definition deleted_row :: string where
  "deleted_row = ''<tr class=\"row-deleted\"><td colspan=\"6\" style=\"color:#9ca3af;text-align:center;font-style:italic\">deleted</td></tr>''"

definition data_deleteDoc :: "'w data_admin_store \<Rightarrow> 'w handler" where
  "data_deleteDoc st r w =
     (let datasetID = rq_query r ''dataset_id''; userID = rq_query r ''user_id''; docID = rq_query r ''doc_id'' in
      if datasetID = [] \<or> userID = [] \<or> docID = [] then (http_error ''missing query params'' 400, w)
      else (case dts_DeleteDoc st datasetID userID docID w of
              (Inl e, w1) \<Rightarrow> (http_error_of ''delete failed: '' e 500, w1)
            | (Inr _, w1) \<Rightarrow> (html_reply deleted_row, w1)))"

definition DataHandler :: "'w data_admin_store \<Rightarrow> templates \<Rightarrow> 'w handler" where
  "DataHandler st tmpl r w =
     (if rq_method r = ''GET'' \<and> rq_path r = ''/admin/data'' then data_browse st tmpl r w
      else if rq_method r = ''GET'' \<and> rq_path r = ''/admin/data/docs'' then data_docsPartial st tmpl r w
      else if rq_method r = ''GET'' \<and> rq_path r = ''/admin/data/doc'' then data_docModal st tmpl r w
      else if rq_method r = ''DELETE'' \<and> rq_path r = ''/admin/data/doc'' then data_deleteDoc st r w
      else (http_error ''not found'' 404, w))"

section \<open>handlers_misc.go\<close>

definition syncPageSize :: int where
  "syncPageSize = 25"

text \<open>The page a query asks for: a number above 1, else the first.\<close>

definition page_number :: "string \<Rightarrow> int" where
  "page_number pageStr = (case Atoi pageStr of None \<Rightarrow> 1 | Some n \<Rightarrow> if n > 1 then n else 1)"

definition view_events :: "int \<Rightarrow> event_row list \<Rightarrow> int \<Rightarrow> events_view" where
  "view_events page events count_all =
     (let from = wrap64 ((page - 1) * syncPageSize + 1);
          to = wrap64 (from + int (length events) - 1);
          from' = (if events = [] then 0 else from)
      in \<lparr>ev_Events = events, ev_Total = count_all, ev_Page = page, ev_PageSize = syncPageSize,
          ev_From = from', ev_To = to, ev_HasPrev = page > 1, ev_HasNext = to < count_all,
          ev_PrevPage = page - 1, ev_NextPage = wrap64 (page + 1)\<rparr>)"

definition SyncPage :: "'w sync_admin_store \<Rightarrow> templates \<Rightarrow> 'w handler" where
  "SyncPage st tmpl r w =
     (if rq_query r ''tab'' = ''aggregates'' then
        (case sas_ListSyncAggregates st w of
           (Inl e, w1) \<Rightarrow> (http_error_of ''failed to load aggregates: '' e 500, w1)
         | (Inr aggs, w1) \<Rightarrow> (full_page tmpl ''sync'' ''Sync Activity'' (AggregatesPage aggs), w1))
      else
        (let page = page_number (rq_query r ''page'') in
         case sas_ListSyncEvents st [] page syncPageSize w of
           (Inl e, w1) \<Rightarrow> (http_error_of ''failed to load sync events: '' e 500, w1)
         | (Inr (events, count_all), w1) \<Rightarrow>
             (full_page tmpl ''sync'' ''Sync Activity'' (EventsPage (view_events page events count_all)), w1)))"

definition KeysPage :: "bool \<Rightarrow> templates \<Rightarrow> 'w handler" where
  "KeysPage keyBackupStale tmpl r w =
     (full_page tmpl ''keys'' ''Key Management'' (KeysPageData keyBackupStale), w)"

section \<open>handlers_metrics.go\<close>

definition metric_value :: "metric \<Rightarrow> int" where
  "metric_value m =
     (case mt_gauge m of
        Some g \<Rightarrow> g
      | None \<Rightarrow> (case mt_counter m of Some c \<Rightarrow> c | None \<Rightarrow> 0))"

fun sumMetric :: "metric_family list \<Rightarrow> string \<Rightarrow> int" where
  "sumMetric [] name = 0"
| "sumMetric (mf # mfs) name =
     (if mf_name mf \<noteq> name then sumMetric mfs name
      else foldl (\<lambda>s m. s + metric_value m) 0 (mf_metrics mf))"

text \<open>The last label of the name counts; no label gives the empty string.\<close>

definition label_app :: "metric \<Rightarrow> string" where
  "label_app m = foldl (\<lambda>a (n, v). if n = ''app_id'' then v else a) [] (mt_labels m)"

definition add_to :: "string \<Rightarrow> int \<Rightarrow> (string, int) gomap \<Rightarrow> (string, int) gomap" where
  "add_to k n m = gm_put k ((case gm_get m k of None \<Rightarrow> 0 | Some x \<Rightarrow> x) + n) m"

definition tally_metric :: "string \<Rightarrow> (string, int) gomap \<times> (string, int) gomap \<Rightarrow> metric
    \<Rightarrow> (string, int) gomap \<times> (string, int) gomap" where
  "tally_metric n acc m =
     (case acc of (syncs, dbBytes) \<Rightarrow>
      let appID = label_app m in
      if appID = [] then (syncs, dbBytes)
      else if n = ''mobiledb_sync_requests_total'' then
        (case mt_counter m of Some c \<Rightarrow> (add_to appID c syncs, dbBytes) | None \<Rightarrow> (syncs, dbBytes))
      else (case mt_gauge m of Some g \<Rightarrow> (syncs, add_to appID g dbBytes) | None \<Rightarrow> (syncs, dbBytes)))"

definition tally_family :: "(string, int) gomap \<times> (string, int) gomap \<Rightarrow> metric_family
    \<Rightarrow> (string, int) gomap \<times> (string, int) gomap" where
  "tally_family acc mf =
     (if mf_name mf \<noteq> ''mobiledb_sync_requests_total'' \<and> mf_name mf \<noteq> ''mobiledb_db_size_bytes'' then acc
      else foldl (tally_metric (mf_name mf)) acc (mf_metrics mf))"

text \<open>The two \<open>range\<close> loops visit the maps in orders of their own.\<close>

definition perAppRows :: "nat list \<Rightarrow> nat list \<Rightarrow> metric_family list \<Rightarrow> app_metric_row list" where
  "perAppRows seed1 seed2 mfs =
     (case foldl tally_family ([], []) mfs of (syncs, dbBytes) \<Rightarrow>
      let read = (\<lambda>m k. case gm_get m k of None \<Rightarrow> 0 | Some x \<Rightarrow> x) in
      map (\<lambda>(appID, _). \<lparr>amr_AppID = appID, amr_Syncs = read syncs appID, amr_DBBytes = read dbBytes appID\<rparr>)
        (shuffle seed1 syncs)
      @ map (\<lambda>(appID, _). \<lparr>amr_AppID = appID, amr_Syncs = 0, amr_DBBytes = read dbBytes appID\<rparr>)
          (filter (\<lambda>(appID, _). gm_get syncs appID = None) (shuffle seed2 dbBytes)))"

text \<open>\<open>fmt.Sprintf("%.1f", bytes/1024/1024)\<close> of a whole number: tenths, rounded half to even.\<close>

definition tenths :: "nat \<Rightarrow> nat" where
  "tenths n =
     (let q = 10 * n div 1048576; r = 10 * n mod 1048576 in
      if 524288 < r \<or> r = 524288 \<and> odd q then q + 1 else q)"

definition megabytes :: "int \<Rightarrow> string" where
  "megabytes n =
     (let t = tenths (nat \<bar>n\<bar>) in
      (if n < 0 then ''-'' else []) @ decimal (t div 10) @ ''.'' @ decimal (t mod 10))"

definition AdminMetricsHandler :: "('w, err, metric_family list) prog \<Rightarrow> templates \<Rightarrow> nat list \<times> nat list \<Rightarrow> 'w handler" where
  "AdminMetricsHandler gather tmpl seeds r w =
     (if rq_method r \<noteq> ''GET'' then (http_error ''method not allowed'' 405, w)
      else (case gather w of
              (Inl e, w1) \<Rightarrow> (http_error_of ''gather metrics: '' e 500, w1)
            | (Inr mfs, w1) \<Rightarrow>
                (full_page tmpl ''metrics'' ''Metrics'' (MetricsPage
                   \<lparr>mv_ActiveDevices = sumMetric mfs ''mobiledb_active_devices'',
                    mv_CRDTOpsTotal = sumMetric mfs ''mobiledb_crdt_ops_total'',
                    mv_SSEConnections = sumMetric mfs ''mobiledb_sse_connections'',
                    mv_CompactionRuns = sumMetric mfs ''mobiledb_compaction_runs_total'',
                    mv_SyncRequestsTotal = sumMetric mfs ''mobiledb_sync_requests_total'',
                    mv_DBSizeMB = megabytes (sumMetric mfs ''mobiledb_db_size_bytes''),
                    mv_PerApp = perAppRows (fst seeds) (snd seeds) mfs\<rparr>), w1)))"

section \<open>router.go\<close>

record 'w admin_router_deps =
  ard_PasswordHash :: string
  ard_AllowedIPs :: "string list"
  ard_DeviceStore :: "'w device_admin_store"
  ard_DataStore :: "'w data_admin_store"
  ard_SyncStore :: "'w sync_admin_store"
  ard_MetricsReg :: "('w, err, metric_family list) prog"
  ard_Tmpl :: templates

text \<open>A handler beside the table of attempts.\<close>

definition beside_rates :: "'w handler \<Rightarrow> (rates \<times> 'w) handler" where
  "beside_rates h r s = (case h r (snd s) of (resp, w) \<Rightarrow> (resp, (fst s, w)))"

definition admin_routes :: "'w admin_router_deps \<Rightarrow> nat list \<times> nat list \<Rightarrow> 'w handler mux" where
  "admin_routes d seeds =
     (let devices = DevicesHandler (ard_DeviceStore d) (ard_Tmpl d);
          data = DataHandler (ard_DataStore d) (ard_Tmpl d);
          metrics = AdminMetricsHandler (ard_MetricsReg d) (ard_Tmpl d) seeds
      in [(([], ''/admin/devices''), devices),
          (([], ''/admin/devices/''), devices),
          (([], ''/admin/data''), data),
          (([], ''/admin/data/docs''), data),
          (([], ''/admin/data/doc''), data),
          (([], ''/admin/sync''), SyncPage (ard_SyncStore d) (ard_Tmpl d)),
          (([], ''/admin/keys''), KeysPage False (ard_Tmpl d)),
          (([], ''/admin/metrics''), metrics),
          (([], ''/admin/''), \<lambda>r w. (redirect ''/admin/devices'' 302, w))])"

definition NewAdminRouter :: "(string \<Rightarrow> string \<Rightarrow> bool) \<Rightarrow> 'w admin_router_deps \<Rightarrow> nat list \<times> nat list
    \<Rightarrow> (rates \<times> 'w) handler" where
  "NewAdminRouter cmp d seeds =
     RequireAdminAuth cmp (ard_PasswordHash d) (ard_AllowedIPs d) (beside_rates (mux_serve (admin_routes d seeds)))"

end
