(* ===== verification/Oidc_Runs.thy ===== *)
theory Oidc_Runs
  imports Oidc
begin

text \<open>
  What an accepted token proves, over any sequence of validations: \<open>P t j\<close> says that the issuer
  published the key document \<open>j\<close> at time \<open>t\<close>.
\<close>

section \<open>Runs\<close>

text \<open>
  An environment is honest when its clock does not go back and every document the endpoint
  hands out is one the issuer publishes at that time: the connection is authentic.
\<close>

definition honest :: "(int \<Rightarrow> json \<Rightarrow> bool) \<Rightarrow> env \<Rightarrow> bool" where
  "honest P en \<longleftrightarrow>
     mono (env_now en) \<and>
     (\<forall>i resp j. env_fetch en i = Inr resp \<and> jr_status resp = 200 \<and> jr_json resp = Some j
        \<longrightarrow> P (env_now en (2 * i + 1)) j)"

inductive oidc_run :: "(int \<Rightarrow> json \<Rightarrow> bool) \<Rightarrow> jwt_library \<Rightarrow> oidc_validator \<Rightarrow> oidc_validator \<Rightarrow> bool"
  for P lib v where
  oidc_start: "oidc_run P lib v v"
| oidc_validate: "oidc_run P lib v v1 \<Longrightarrow> honest P en \<Longrightarrow> oidc_run P lib v (snd (Validate lib en tok v1))"

section \<open>What a validation changes\<close>

lemma fetchJWKS_cases:
  obtains (failed) e where "fetchJWKS answer now v = (Inl e, v)"
    | (fetched) resp j doc where "fetchJWKS answer now v = (Inr (), v\<lparr>oi_keys := usable_keys doc, oi_fetchedAt := now\<rparr>)"
        "answer = Inr resp" "jr_status resp = 200" "jr_json resp = Some j" "decode_jwks j = Some doc" "usable_keys doc \<noteq> []"
proof (cases "\<exists>e. fetchJWKS answer now v = (Inl e, v)")
  case True
  then show thesis using failed by blast
next
  case False
  then obtain resp j doc where f: "answer = Inr resp" "jr_status resp = 200" "jr_json resp = Some j"
    "decode_jwks j = Some doc" "usable_keys doc \<noteq> []"
    by (auto simp: fetchJWKS_def Let_def split: sum.splits option.splits if_splits)
  then show thesis using fetched [OF _ f] by (simp add: fetchJWKS_def)
qed

text \<open>The cache is empty or holds the keys of a published document.\<close>

definition cache_ok :: "(int \<Rightarrow> json \<Rightarrow> bool) \<Rightarrow> oidc_validator \<Rightarrow> bool" where
  "cache_ok P v \<longleftrightarrow>
     oi_keys v = [] \<or> (\<exists>j doc. P (oi_fetchedAt v) j \<and> decode_jwks j = Some doc \<and> oi_keys v = usable_keys doc)"

definition same_config :: "oidc_validator \<Rightarrow> oidc_validator \<Rightarrow> bool" where
  "same_config v v' \<longleftrightarrow> oi_issuer v' = oi_issuer v \<and> oi_clientID v' = oi_clientID v \<and> oi_jwksURL v' = oi_jwksURL v"

lemma same_config_refl [simp]: "same_config v v"
  by (simp add: same_config_def)

lemma same_config_trans: "same_config a b \<Longrightarrow> same_config b c \<Longrightarrow> same_config a c"
  by (simp add: same_config_def)

definition cache_step :: "(int \<Rightarrow> json \<Rightarrow> bool) \<Rightarrow> oidc_validator \<Rightarrow> oidc_validator \<Rightarrow> bool" where
  "cache_step P v v' \<longleftrightarrow> same_config v v' \<and> (cache_ok P v \<longrightarrow> cache_ok P v')"

lemma cache_step_refl [simp]: "cache_step P v v"
  by (simp add: cache_step_def)

lemma cache_step_trans: "cache_step P a b \<Longrightarrow> cache_step P b c \<Longrightarrow> cache_step P a c"
  by (auto simp: cache_step_def intro: same_config_trans)

lemma transp_cache_step: "transp (cache_step P)"
  by (auto intro: transpI cache_step_trans)

lemma fetchJWKS_step:
  assumes "honest P en"
  shows "cache_step P v (snd (fetchJWKS (env_fetch en i) (env_now en (2 * i + 1)) v))"
proof (cases rule: fetchJWKS_cases [of "env_fetch en i" "env_now en (2 * i + 1)" v])
  case (fetched resp j doc)
  then have "P (env_now en (2 * i + 1)) j" using assms by (auto simp: honest_def)
  then show ?thesis using fetched by (auto simp: cache_step_def same_config_def cache_ok_def)
qed simp

lemma refresh_step: "honest P en \<Longrightarrow> cache_step P v (snd (refreshIfStale en v))"
  using fetchJWKS_step [of P en v 0] by (simp add: refreshIfStale_def)

lemma keyFunc_step:
  assumes "honest P en"
  shows "cache_step P v (snd (keyFunc en t v))"
proof -
  let ?f = "wrapP (Wrap ''jwks refresh'') (fetchJWKS (env_fetch en 1) (env_now en 3))"
  have "keeps (cache_step P) ?f"
    using fetchJWKS_step [OF assms, of _ 1] by (auto simp: keeps_def eval_nat_numeral)
  moreover have "keeps (cache_step P) (lookup_kid kid)" for kid
    by (simp add: keeps_def lookup_kid_def split: option.split)
  ultimately have "cache_step P v (snd (bindP ?f (\<lambda>_. lookup_kid kid) v))" for kid
    by (intro keepsD [OF keeps_bindP [OF transp_cache_step]])
  then show ?thesis
    by (auto simp: keyFunc_def Let_def split: signing_method.split option.split)
qed

lemma parse_step: "honest P en \<Longrightarrow> cache_step P v (snd (ParseWithClaims lib en tok v))"
proof -
  assume h: "honest P en"
  have "keeps (cache_step P) (keyFunc en t)" for t using keyFunc_step [OF h] by (simp add: keeps_def)
  then have "keeps (cache_step P) (bindP (keyFunc en t) (\<lambda>key. case lib_verify lib n tok key of
      Inl e \<Rightarrow> failP e | Inr _ \<Rightarrow> retP (tok_claims t)))" for t n
    by (intro keeps_bindP [OF transp_cache_step]) (auto simp: keeps_def split: sum.split)
  then show ?thesis by (auto simp: ParseWithClaims_def keeps_def split: sum.split)
qed

lemma Validate_step:
  assumes "honest P en"
  shows "cache_step P v (snd (Validate lib en tok v))"
proof -
  have "keeps (cache_step P) (Validate lib en tok)"
    unfolding Validate_def
    using refresh_step [OF assms] parse_step [OF assms, of _ lib tok]
    by (intro keeps_bindP [OF transp_cache_step] keeps_wrapP) (simp_all add: keeps_def)
  then show ?thesis by (rule keepsD)
qed

lemma oidc_run_step: "oidc_run P lib v v' \<Longrightarrow> cache_step P v v'"
  by (induction rule: oidc_run.induct) (auto intro: cache_step_trans Validate_step)

lemma new_cache [simp]: "cache_ok P (NewOIDCValidator url realm client)"
  by (simp add: cache_ok_def NewOIDCValidator_def Let_def)

section \<open>Examples\<close>

definition sample_claims :: oidc_claims where
  "sample_claims = \<lparr>cl_AppID = ''app'', cl_Issuer = ''https://kc/realms/home'', cl_Subject = ''user1'',
     cl_Audience = [''account'', ''app'']\<rparr>"

definition sample_jwks :: json where
  "sample_jwks = JObj [(''keys'', JArr [JObj [(''kid'', JString ''k1''), (''kty'', JString ''RSA''), (''n'', JString ''BQ''),
     (''e'', JString ''Aw''), (''alg'', JString ''RS256'')]])]"

definition sample_lib :: jwt_library where
  "sample_lib = \<lparr>lib_parse = (\<lambda>t. Inr \<lparr>tok_method = MethodRSA, tok_kid = Some ''k1'', tok_claims = sample_claims\<rparr>),
     lib_verify = (\<lambda>now t key. if key = RsaKey 5 3 then Inr () else Inl (ErrMsg ''signature''))\<rparr>"

definition sample_env :: env where
  "sample_env = \<lparr>env_start = 1000, env_end = 1010, env_now = (\<lambda>i. 1000 + int i), env_wall = 0, env_rand = Inr [], env_uuid = [], env_gen = Inr,
     env_fetch = (\<lambda>i. Inr \<lparr>jr_status = 200, jr_json = Some sample_jwks\<rparr>)\<rparr>"

definition sample_validator :: oidc_validator where
  "sample_validator = NewOIDCValidator ''https://kc/'' ''home'' ''app''"

lemma sample_honest: "honest (\<lambda>at j. j = sample_jwks) sample_env"
  by (auto simp: honest_def sample_env_def mono_def)

lemma sample_accepts: "fst (Validate sample_lib sample_env ''t'' sample_validator) = Inr sample_claims"
  by code_simp

section \<open>What an accepted token proves\<close>

definition token_kid :: "jwt_token \<Rightarrow> string" where
  "token_kid t = (case tok_kid t of None \<Rightarrow> [] | Some k \<Rightarrow> k)"

lemma refresh_Inr:
  assumes "refreshIfStale en v = (Inr x, v')"
  shows "v' = v \<and> env_now en 0 - oi_fetchedAt v \<le> jwksCacheTTL \<or> oi_fetchedAt v' = env_now en 1"
  using assms by (cases rule: fetchJWKS_cases [of "env_fetch en 0" "env_now en 1" v])
    (auto simp: refreshIfStale_def split: if_splits)

lemma keyFunc_Inr:
  assumes "keyFunc en t v = (Inr key, v')"
  shows "(tok_method t = MethodRSA \<or> tok_method t = MethodECDSA)
    \<and> gm_get (oi_keys v') (token_kid t) = Some key \<and> (v' = v \<or> oi_fetchedAt v' = env_now en 3)"
  using assms
  by (cases rule: fetchJWKS_cases [of "env_fetch en 1" "env_now en 3" v])
    (auto simp: keyFunc_def Let_def token_kid_def bindP_eq_Inr lookup_kid_def
      split: signing_method.splits option.splits if_splits)

lemma parse_Inr:
  assumes "ParseWithClaims lib en tok v = (Inr claims, v')"
  obtains t key where "lib_parse lib tok = Inr t" "claims = tok_claims t" "keyFunc en t v = (Inr key, v')"
    "lib_verify lib (env_now en 4) tok key = Inr ()"
proof -
  obtain t where t: "lib_parse lib tok = Inr t"
    using assms by (auto simp: ParseWithClaims_def split: sum.splits)
  then obtain key s where k: "keyFunc en t v = (Inr key, s)"
    "(case lib_verify lib (env_now en 4) tok key of Inl e \<Rightarrow> failP e | Inr _ \<Rightarrow> retP (tok_claims t)) s = (Inr claims, v')"
    using assms by (auto simp: ParseWithClaims_def bindP_eq_Inr)
  then show thesis using that [OF t] by (cases "lib_verify lib (env_now en 4) tok key") auto
qed

lemma Validate_Inr:
  assumes "Validate lib en tok v = (Inr claims, v')"
  obtains v1 where "refreshIfStale en v = (Inr (), v1)" "ParseWithClaims lib en tok v1 = (Inr claims, v')"
    "cl_Issuer claims = oi_issuer v'"
    "oi_clientID v' \<noteq> [] \<Longrightarrow> oi_clientID v' \<in> set (cl_Audience claims) \<and> cl_AppID claims = oi_clientID v'"
  using assms by (auto simp: Validate_def bindP_eq_Inr split: if_splits)

text \<open>
  C16: A token is accepted only when it names an RSA or ECDSA method, its signature verifies under a
  key that the issuer published under the token's key id at most ten minutes ago, its issuer
  is the configured realm and, with a client configured, that client is both in the audience
  and the authorized party; so a key the issuer withdraws is refused ten minutes later at the
  latest.
\<close>

theorem accepted_token_is_fresh:
  assumes "oidc_run P lib (NewOIDCValidator url realm client) v" "honest P en"
    and "Validate lib en tok v = (Inr claims, v')"
  shows "\<exists>t key at j doc. lib_parse lib tok = Inr t \<and> claims = tok_claims t
    \<and> (tok_method t = MethodRSA \<or> tok_method t = MethodECDSA)
    \<and> P at j \<and> env_now en 0 - at \<le> jwksCacheTTL \<and> decode_jwks j = Some doc
    \<and> gm_get (usable_keys doc) (token_kid t) = Some key \<and> lib_verify lib (env_now en 4) tok key = Inr ()
    \<and> cl_Issuer claims = TrimRight url (CHR ''/'') @ ''/realms/'' @ realm
    \<and> (client = [] \<or> client \<in> set (cl_Audience claims) \<and> cl_AppID claims = client)"
proof -
  let ?new = "NewOIDCValidator url realm client"
  have "cache_step P ?new v'"
    using cache_step_trans [OF oidc_run_step [OF assms(1)] Validate_step [OF assms(2)]] assms(3) by (metis snd_conv)
  then have ok: "cache_ok P v'" and cfg: "same_config ?new v'" by (simp_all add: cache_step_def)
  obtain v1 where v1: "refreshIfStale en v = (Inr (), v1)" "ParseWithClaims lib en tok v1 = (Inr claims, v')"
    "cl_Issuer claims = oi_issuer v'"
    "oi_clientID v' \<noteq> [] \<Longrightarrow> oi_clientID v' \<in> set (cl_Audience claims) \<and> cl_AppID claims = oi_clientID v'"
    using assms(3) by (rule Validate_Inr) blast
  obtain t key where t: "lib_parse lib tok = Inr t" "claims = tok_claims t" "keyFunc en t v1 = (Inr key, v')"
    "lib_verify lib (env_now en 4) tok key = Inr ()"
    using v1(2) by (rule parse_Inr)
  have m: "env_now en 0 \<le> env_now en 1" "env_now en 0 \<le> env_now en 3"
    using assms(2) by (simp_all add: honest_def monoD)
  have fresh: "env_now en 0 - oi_fetchedAt v' \<le> jwksCacheTTL"
    using refresh_Inr [OF v1(1)] keyFunc_Inr [OF t(3)] m by (auto simp: jwksCacheTTL_def)
  have "gm_get (oi_keys v') (token_kid t) = Some key" using keyFunc_Inr [OF t(3)] by simp
  then obtain j doc where "P (oi_fetchedAt v') j" "decode_jwks j = Some doc" "oi_keys v' = usable_keys doc"
    using ok by (auto simp: cache_ok_def)
  moreover have "oi_issuer v' = TrimRight url (CHR ''/'') @ ''/realms/'' @ realm" "oi_clientID v' = client"
    using cfg by (simp_all add: same_config_def NewOIDCValidator_def Let_def)
  ultimately show ?thesis
    using t v1(3,4) keyFunc_Inr [OF t(3)] fresh by metis
qed

theorem accepted_token_is_fresh_witness:
  "\<exists>v' t key. Validate sample_lib sample_env ''t'' sample_validator = (Inr sample_claims, v')
     \<and> lib_parse sample_lib ''t'' = Inr t \<and> lib_verify sample_lib 1004 ''t'' key = Inr ()
     \<and> cl_AppID sample_claims = ''app''"
proof -
  obtain v' where V: "Validate sample_lib sample_env ''t'' sample_validator = (Inr sample_claims, v')"
    using sample_accepts by (metis prod.collapse)
  have "oidc_run (\<lambda>at j. j = sample_jwks) sample_lib sample_validator sample_validator" by (rule oidc_start)
  from accepted_token_is_fresh [OF this [unfolded sample_validator_def] sample_honest V [unfolded sample_validator_def]]
  show ?thesis using V by (auto simp: sample_env_def)
qed

text \<open>
  C34: Bounded traffic to the issuer: within five seconds of a successful fetch a validation asks the
  key endpoint nothing, whatever key id the token names: its result does not depend on what
  the endpoint would answer, and the cache stays as it is.
\<close>

theorem no_fetch_after_fetch:
  assumes "env_now en 2 - oi_fetchedAt v < refetch_pause" "env_now en 0 \<le> env_now en 2"
  shows "Validate lib (en\<lparr>env_fetch := f\<rparr>) tok v = Validate lib en tok v \<and> snd (Validate lib en tok v) = v"
proof -
  have fresh: "\<not> env_now en 0 - oi_fetchedAt v > jwksCacheTTL"
    using assms by (simp add: jwksCacheTTL_def refetch_pause_def)
  have r: "refreshIfStale (en\<lparr>env_fetch := g\<rparr>) v = (Inr (), v)" for g
    using fresh by (simp add: refreshIfStale_def)
  have k: "keyFunc (en\<lparr>env_fetch := g\<rparr>) t v = keyFunc en t v" "snd (keyFunc en t v) = v" for g t
    using assms(1) by (auto simp: keyFunc_def Let_def split: signing_method.split option.split)
  have p: "ParseWithClaims lib (en\<lparr>env_fetch := g\<rparr>) tok v = ParseWithClaims lib en tok v" for g
    by (simp add: ParseWithClaims_def bindP_def k(1) split: sum.split)
  have ps: "snd (ParseWithClaims lib en tok v) = v"
  proof (cases "lib_parse lib tok")
    case (Inr t)
    obtain x where "keyFunc en t v = (x, v)" using k(2) by (metis prod.collapse)
    with Inr show ?thesis by (simp add: ParseWithClaims_def bindP_def split: sum.split)
  qed (simp add: ParseWithClaims_def)
  obtain x where x: "ParseWithClaims lib en tok v = (x, v)" using ps by (metis prod.collapse)
  have "Validate lib (en\<lparr>env_fetch := g\<rparr>) tok v = Validate lib en tok v \<and> snd (Validate lib en tok v) = v" for g
    using r [of "env_fetch en"] r [of g] p [of g] x
    by (auto simp: Validate_def bindP_def split: sum.split)
  then show ?thesis by blast
qed

theorem no_fetch_after_fetch_witness:
  "let v = sample_validator\<lparr>oi_keys := [(''k2'', RsaKey 3 3)], oi_fetchedAt := 900\<rparr>;
       down = sample_env\<lparr>env_fetch := (\<lambda>i. Inl ErrDriver)\<rparr>
   in fst (Validate sample_lib sample_env ''t'' v) = Inl (ErrMsg ''unknown kid k1'')
      \<and> Validate sample_lib down ''t'' v = Validate sample_lib sample_env ''t'' v"
proof -
  let ?v = "sample_validator\<lparr>oi_keys := [(''k2'', RsaKey 3 3)], oi_fetchedAt := 900\<rparr>"
  have "env_now sample_env 2 - oi_fetchedAt ?v < refetch_pause" "env_now sample_env 0 \<le> env_now sample_env 2"
    by (simp_all add: sample_env_def refetch_pause_def)
  from no_fetch_after_fetch [OF this, of sample_lib "\<lambda>i. Inl ErrDriver" "''t''"]
  have "Validate sample_lib (sample_env\<lparr>env_fetch := (\<lambda>i. Inl ErrDriver)\<rparr>) ''t'' ?v = Validate sample_lib sample_env ''t'' ?v"
    by simp
  moreover have "fst (Validate sample_lib sample_env ''t'' ?v) = Inl (ErrMsg ''unknown kid k1'')" by code_simp
  ultimately show ?thesis by (simp add: Let_def)
qed

text \<open>
  The key an issuer publishes is the key the validator uses: decoding the base64url text of the
  big-endian modulus and exponent gives these numbers back, the exponent in 64 bits, and the
  same for the coordinates on each supported curve.
\<close>

theorem jwk_roundtrip:
  assumes "jwk_Crv k \<in> {''P-256'', ''P-384'', ''P-521''}"
  shows "jwkToRSA (k\<lparr>jwk_N := raw_url_encode (be_bytes n), jwk_E := raw_url_encode (be_bytes e)\<rparr>)
      = Inr (RsaKey n (word_of_nat e))
    \<and> jwkToEC (k\<lparr>jwk_X := raw_url_encode (be_bytes x), jwk_Y := raw_url_encode (be_bytes y)\<rparr>)
      = Inr (EcKey (jwk_Crv k) x y)"
  using assms by (auto simp: jwkToRSA_def jwkToEC_def)

theorem jwk_roundtrip_witness:
  "raw_url_encode (be_bytes 65537) = ''AQAB''
   \<and> jwkToRSA \<lparr>jwk_Kid = ''k1'', jwk_Kty = ''RSA'', jwk_N = raw_url_encode (be_bytes 1000000007),
       jwk_E = ''AQAB'', jwk_Crv = ''P-256'', jwk_X = [], jwk_Y = []\<rparr> = Inr (RsaKey 1000000007 65537)"
proof -
  have "be_bytes 65537 = [CHR 0x01, CHR 0x00, CHR 0x01]" by (simp add: be_bytes.simps byte_code)
  moreover have "raw_url_encode [CHR 0x01, CHR 0x00, CHR 0x01] = ''AQAB''" by code_simp
  ultimately have e: "raw_url_encode (be_bytes 65537) = ''AQAB''" by simp
  let ?k = "\<lparr>jwk_Kid = ''k1'', jwk_Kty = ''RSA'', jwk_N = [], jwk_E = [], jwk_Crv = ''P-256'', jwk_X = [], jwk_Y = []\<rparr>"
  have "jwk_Crv ?k \<in> {''P-256'', ''P-384'', ''P-521''}" by simp
  from jwk_roundtrip [OF this, where n = 1000000007 and e = 65537] e show ?thesis by simp
qed

end
