(* ===== verification/Config.thy ===== *)
theory Config
  imports Sqlite
begin

text \<open>
  \<open>server/config.go\<close>: the configuration from environment variables.  \<open>getenv\<close> is
  \<open>os.Getenv\<close>: the empty string for a variable that is not set.  The closures \<open>require\<close> and
  \<open>opt\<close> are definitions; \<open>require\<close> also reports the key it missed.
\<close>

section \<open>Definitions\<close>

record config =
  cfg_AdminPasswordHash :: string
  cfg_DBEncryptionKey :: string
  cfg_KeycloakURL :: string
  cfg_KeycloakRealm :: string
  cfg_KeycloakClientID :: string
  cfg_BackupDestination :: string
  cfg_BackupInterval :: string
  cfg_LogLevel :: string
  cfg_CompactionThreshold :: int
  cfg_AdminAllowedIPs :: "string list"
  cfg_DataDir :: string
  cfg_ListenAddr :: string
  cfg_CRSQLiteExtPath :: string

definition require_env :: "(string \<Rightarrow> string) \<Rightarrow> string \<Rightarrow> string list \<Rightarrow> string \<times> string list" where
  "require_env getenv key missing = (getenv key, if getenv key = [] then missing @ [key] else missing)"

definition opt_env :: "(string \<Rightarrow> string) \<Rightarrow> string \<Rightarrow> string \<Rightarrow> string" where
  "opt_env getenv key def = (if getenv key \<noteq> [] then getenv key else def)"

text \<open>The threshold, with the two errors of the parsing.\<close>

definition parse_threshold :: "(string \<Rightarrow> string) \<Rightarrow> err + int" where
  "parse_threshold getenv =
     (let raw = getenv ''COMPACTION_THRESHOLD'' in
      if raw \<noteq> [] then
        (case Atoi raw of
           None \<Rightarrow> Inl (ErrMsg ''COMPACTION_THRESHOLD must be an integer'')
         | Some n \<Rightarrow> if n < 0 then Inl (ErrMsg ''COMPACTION_THRESHOLD must be non-negative'') else Inr n)
      else Inr 1000)"

definition parse_ips :: "(string \<Rightarrow> string) \<Rightarrow> string list" where
  "parse_ips getenv =
     (let raw = getenv ''ADMIN_ALLOWED_IPS'' in
      if raw \<noteq> [] then map TrimSpace (Split (CHR '','') raw) else [])"

definition LoadConfig :: "(string \<Rightarrow> string) \<Rightarrow> err + config" where
  "LoadConfig getenv =
     (let (hash, m1) = require_env getenv ''ADMIN_PASSWORD_HASH'' [];
          (key, m2) = require_env getenv ''DB_ENCRYPTION_KEY'' m1;
          (url, m3) = require_env getenv ''KEYCLOAK_URL'' m2;
          (realm, missing) = require_env getenv ''KEYCLOAK_REALM'' m3;
          cfg = \<lparr>cfg_AdminPasswordHash = hash, cfg_DBEncryptionKey = key, cfg_KeycloakURL = url,
                 cfg_KeycloakRealm = realm, cfg_KeycloakClientID = opt_env getenv ''KEYCLOAK_CLIENT_ID'' [],
                 cfg_BackupDestination = opt_env getenv ''BACKUP_DESTINATION'' [],
                 cfg_BackupInterval = opt_env getenv ''BACKUP_INTERVAL'' ''24h'',
                 cfg_LogLevel = opt_env getenv ''LOG_LEVEL'' ''info'', cfg_CompactionThreshold = 0,
                 cfg_AdminAllowedIPs = [], cfg_DataDir = opt_env getenv ''DATA_DIR'' ''./data'',
                 cfg_ListenAddr = opt_env getenv ''LISTEN_ADDR'' '':8443'',
                 cfg_CRSQLiteExtPath = opt_env getenv ''CRSQLITE_EXT_PATH'' ''./crsqlite.so''\<rparr>
      in case parse_threshold getenv of
           Inl e \<Rightarrow> Inl e
         | Inr n \<Rightarrow>
             let cfg1 = cfg\<lparr>cfg_CompactionThreshold := n, cfg_AdminAllowedIPs := parse_ips getenv\<rparr> in
             if missing \<noteq> [] then Inl (ErrMsg (''missing required env vars: '' @ Join missing '', ''))
             else if length (cfg_DBEncryptionKey cfg1) < 32
               then Inl (ErrMsg ''DB_ENCRYPTION_KEY must be at least 32 bytes'')
             else Inr cfg1)"

section \<open>Properties\<close>

definition required_keys :: "string list" where
  "required_keys = [''ADMIN_PASSWORD_HASH'', ''DB_ENCRYPTION_KEY'', ''KEYCLOAK_URL'', ''KEYCLOAK_REALM'']"

definition missing_keys :: "(string \<Rightarrow> string) \<Rightarrow> string list" where
  "missing_keys getenv = filter (\<lambda>k. getenv k = []) required_keys"

lemma missing_chain:
  "snd (require_env getenv ''KEYCLOAK_REALM'' (snd (require_env getenv ''KEYCLOAK_URL''
     (snd (require_env getenv ''DB_ENCRYPTION_KEY'' (snd (require_env getenv ''ADMIN_PASSWORD_HASH'' [])))))))
   = missing_keys getenv"
  by (simp add: require_env_def missing_keys_def required_keys_def)

lemma LoadConfig_cases:
  "LoadConfig getenv =
     (case parse_threshold getenv of
        Inl e \<Rightarrow> Inl e
      | Inr n \<Rightarrow>
          if missing_keys getenv \<noteq> [] then Inl (ErrMsg (''missing required env vars: '' @ Join (missing_keys getenv) '', ''))
          else if length (getenv ''DB_ENCRYPTION_KEY'') < 32
            then Inl (ErrMsg ''DB_ENCRYPTION_KEY must be at least 32 bytes'')
          else Inr \<lparr>cfg_AdminPasswordHash = getenv ''ADMIN_PASSWORD_HASH'', cfg_DBEncryptionKey = getenv ''DB_ENCRYPTION_KEY'',
                 cfg_KeycloakURL = getenv ''KEYCLOAK_URL'', cfg_KeycloakRealm = getenv ''KEYCLOAK_REALM'',
                 cfg_KeycloakClientID = getenv ''KEYCLOAK_CLIENT_ID'',
                 cfg_BackupDestination = getenv ''BACKUP_DESTINATION'',
                 cfg_BackupInterval = opt_env getenv ''BACKUP_INTERVAL'' ''24h'',
                 cfg_LogLevel = opt_env getenv ''LOG_LEVEL'' ''info'', cfg_CompactionThreshold = n,
                 cfg_AdminAllowedIPs = parse_ips getenv, cfg_DataDir = opt_env getenv ''DATA_DIR'' ''./data'',
                 cfg_ListenAddr = opt_env getenv ''LISTEN_ADDR'' '':8443'',
                 cfg_CRSQLiteExtPath = opt_env getenv ''CRSQLITE_EXT_PATH'' ''./crsqlite.so''\<rparr>)"
proof -
  have "opt_env getenv k [] = getenv k" for k by (simp add: opt_env_def)
  then show ?thesis
    unfolding missing_chain [symmetric]
    by (simp add: LoadConfig_def Let_def require_env_def split: sum.split)
qed


text \<open>The variables of a compose file, as an association list.\<close>

definition env_of :: "(string \<times> string) list \<Rightarrow> string \<Rightarrow> string" where
  "env_of kvs k = (case map_of kvs k of None \<Rightarrow> [] | Some v \<Rightarrow> v)"

definition compose_env :: "string \<Rightarrow> string" where
  "compose_env = env_of [(''ADMIN_PASSWORD_HASH'', ''$2y$10$...''),
     (''JWT_SECRET'', ''at-least-32-bytes-change-me-!!''), (''DB_ENCRYPTION_KEY'', ''at-least-32-bytes-change-me-!'')]"

definition full_env :: "string \<Rightarrow> string" where
  "full_env = env_of [(''ADMIN_PASSWORD_HASH'', ''$2y$10$...''), (''DB_ENCRYPTION_KEY'', replicate 32 CHR ''k''),
     (''KEYCLOAK_URL'', ''https://kc''), (''KEYCLOAK_REALM'', ''home''), (''ADMIN_ALLOWED_IPS'', ''127.0.0.1, ::1'')]"


end
