(* ===== verification/Router.thy ===== *)
theory Router
  imports Handlers Admin_Pages Oidc_Runs Config
begin

text \<open>
  \<open>server/router.go\<close> and \<open>server/server.go\<close>: the routes and the wiring.  The state of the running
  server is the request log, the table of failed admin logins, the engine's world and the
  token validator, in this nesting; each handler works on its part.  bcrypt, the JWT library,
  the codec, the compressor, the templates and the contents of the metrics registry are the
  fields of \<open>externals\<close>.
\<close>

section \<open>Handlers on their part of the state\<close>

type_synonym app = "(database, broadcaster) world \<times> oidc_validator"
type_synonym server_state = "log_entry list \<times> rates \<times> app"

definition on_world :: "((database, broadcaster) world, err, 'a) prog \<Rightarrow> (app, err, 'a) prog" where
  "on_world m s = (case m (fst s) of (r, w) \<Rightarrow> (r, (w, snd s)))"

definition on_db :: "'a dbprog \<Rightarrow> (app, err, 'a) prog" where
  "on_db m = on_world (on_store m)"

definition on_oidc :: "(oidc_validator, err, 'a) prog \<Rightarrow> (app, err, 'a) prog" where
  "on_oidc m s = (case m (snd s) of (r, v) \<Rightarrow> (r, (fst s, v)))"

definition on_world_handler :: "((database, broadcaster) world) handler \<Rightarrow> app handler" where
  "on_world_handler h r s = (case h r (fst s) of (resp, w) \<Rightarrow> (resp, (w, snd s)))"

definition app_service :: "database device_service \<Rightarrow> app device_service" where
  "app_service svc =
     \<lparr>svc_Register = (\<lambda>en a d. on_db (svc_Register svc en a d)),
      svc_Verify = (\<lambda>k s. on_db (svc_Verify svc k s)),
      svc_RotateKey = (\<lambda>en k old new. on_db (svc_RotateKey svc en k old new)),
      svc_Revoke = (\<lambda>en k. on_db (svc_Revoke svc en k))\<rparr>"

section \<open>router.go\<close>

text \<open>
  \<open>SSEHandler\<close>, up to the loop: the stream it then serves is a stream of the step relation
  \<open>sse_step\<close>.  Behind the request log its first branch is never taken.
\<close>

definition SSEHandler :: "string \<Rightarrow> string \<Rightarrow> 'w handler" where
  "SSEHandler appID userID r w =
     (if \<not> rq_flusher r then (http_error ''streaming not supported'' 500, w)
      else (reply 200 [(''Content-Type'', ''text/event-stream''), (''Cache-Control'', ''no-cache''),
                       (''Connection'', ''keep-alive'')] (BStream appID userID), w))"

record 'w router_deps =
  rd_AuthHandlers :: "'w auth_handlers"
  rd_SyncHandler :: "'w handler"
  rd_OIDCValidator :: "env \<Rightarrow> string \<Rightarrow> ('w, err, oidc_claims) prog"
  rd_DeviceSvc :: "'w device_service"

definition events_handler :: "'w handler" where
  "events_handler r = SSEHandler (ctx_value (ctx_app_id r)) (ctx_value (ctx_user_id r)) r"

definition app_routes :: "'w router_deps \<Rightarrow> 'w handler mux" where
  "app_routes d =
     (let deviceAuth = RequireDeviceKey (svc_Verify (rd_DeviceSvc d));
          jwtAuth = RequireJWT (rd_OIDCValidator d)
      in [((''POST'', ''/devices/register''), Handlers_Register (rd_AuthHandlers d)),
          ((''POST'', ''/auth/token''), Handlers_Token (rd_AuthHandlers d)),
          ((''POST'', ''/devices/rotate-key''), Handlers_RotateKey (rd_AuthHandlers d)),
          ((''DELETE'', ''/devices/''), deviceAuth (Handlers_RevokeDevice (rd_AuthHandlers d))),
          ((''POST'', ''/sync''), deviceAuth (jwtAuth (rd_SyncHandler d))),
          ((''GET'', ''/events''), jwtAuth events_handler)])"

definition NewRouter :: "'w router_deps \<Rightarrow> 'w handler" where
  "NewRouter d = mux_serve (app_routes d)"

section \<open>server.go\<close>

record externals =
  ex_cmp :: "string \<Rightarrow> string \<Rightarrow> bool"
  ex_lib :: jwt_library
  ex_codec :: "(sync_response, sync_message) codec"
  ex_compressor :: compressor
  ex_tmpl :: templates
  ex_metrics :: "metric_family list"
  ex_metrics_text :: string
  ex_ranges :: ranges
  ex_seeds :: "nat list \<times> nat list"

text \<open>The values \<open>Run\<close> builds from the configuration.\<close>

definition the_engine :: "externals \<Rightarrow> config \<Rightarrow> (database, broadcaster) engine" where
  "the_engine ex cfg = NewEngine (crsqlite (ex_ranges ex)) Notify (cfg_CompactionThreshold cfg)"

definition the_service :: "externals \<Rightarrow> app device_service" where
  "the_service ex = app_service (NewDeviceService NewAuthStore (ex_cmp ex))"

definition the_validate :: "externals \<Rightarrow> env \<Rightarrow> string \<Rightarrow> (app, err, oidc_claims) prog" where
  "the_validate ex en t = on_oidc (Validate (ex_lib ex) en t)"

definition the_sync_handler :: "externals \<Rightarrow> config \<Rightarrow> (database, broadcaster) sync_handler" where
  "the_sync_handler ex cfg =
     WithEventWriter WriteSyncEvent (NewSyncHandler (the_engine ex cfg) (ex_codec ex) (Some (ex_compressor ex)))"

definition the_router_deps :: "externals \<Rightarrow> config \<Rightarrow> app router_deps" where
  "the_router_deps ex cfg =
     \<lparr>rd_AuthHandlers = NewHandlers (the_service ex) (Some (the_validate ex)),
      rd_SyncHandler = on_world_handler (SyncHandler_ServeHTTP (the_sync_handler ex cfg)),
      rd_OIDCValidator = the_validate ex,
      rd_DeviceSvc = the_service ex\<rparr>"

definition the_admin_deps :: "externals \<Rightarrow> config \<Rightarrow> app admin_router_deps" where
  "the_admin_deps ex cfg =
     \<lparr>ard_PasswordHash = cfg_AdminPasswordHash cfg, ard_AllowedIPs = cfg_AdminAllowedIPs cfg,
      ard_DeviceStore = \<lparr>das_ListDevices = (\<lambda>st. on_db (ListDevices st)), das_DeviceCounts = on_db DeviceCounts,
                         das_RevokeDevice = (\<lambda>k. on_db (RevokeDevice k))\<rparr>,
      ard_DataStore = \<lparr>dts_ListDatasets = (\<lambda>a. on_db (ListDatasets a)), dts_ListDocs = (\<lambda>a d u. on_db (ListDocs a d u)),
                       dts_GetDoc = (\<lambda>d u k. on_db (GetDoc d u k)), dts_DeleteDoc = (\<lambda>d u k. on_db (DeleteDoc d u k))\<rparr>,
      ard_SyncStore = \<lparr>sas_ListSyncEvents = (\<lambda>a p n. on_db (ListSyncEvents a p n)),
                       sas_ListSyncAggregates = on_db ListSyncAggregates\<rparr>,
      ard_MetricsReg = retP (ex_metrics ex),
      ard_Tmpl = ex_tmpl ex\<rparr>"

definition metrics_handler :: "externals \<Rightarrow> 'w handler" where
  "metrics_handler ex r w = (reply 200 [(''Content-Type'', ''text/plain; version=0.0.4'')] (BBytes (ex_metrics_text ex)), w)"

text \<open>\<open>store != nil\<close> holds in a running server; no code counts the streams.\<close>

definition main_routes :: "externals \<Rightarrow> config \<Rightarrow> int \<Rightarrow> (rates \<times> app) handler mux" where
  "main_routes ex cfg started =
     [(([], ''/admin/''), NewAdminRouter (ex_cmp ex) (the_admin_deps ex cfg) (ex_seeds ex)),
      (([], ''/health''), beside_rates (Health_ServeHTTP (WithDBCheck (\<lambda>_. True) (NewHealthHandler started ''1.0.0'')) 0)),
      (([], ''/metrics''), RequireAdminAuth (ex_cmp ex) (cfg_AdminPasswordHash cfg) (cfg_AdminAllowedIPs cfg) (metrics_handler ex)),
      (([], ''/''), beside_rates (NewRouter (the_router_deps ex cfg)))]"

definition server_handler :: "externals \<Rightarrow> config \<Rightarrow> int \<Rightarrow> server_state handler" where
  "server_handler ex cfg started = RequestLogger (mux_serve (main_routes ex cfg started))"

text \<open>
  The start of \<open>Run\<close>, up to listening: the directory, the database, the templates; then the
  state requests work on.  \<open>driverPath\<close> is the package variable of the driver.
\<close>

definition Run_start :: "bool \<Rightarrow> bool \<times> bool \<Rightarrow> err + unit \<Rightarrow> config \<Rightarrow> string \<times> database
    \<Rightarrow> (err + server_state) \<times> (string \<times> database)" where
  "Run_start mkdir_ok can templates cfg s =
     (if \<not> mkdir_ok then (Inl (Wrap ''create data dir'' ErrDriver), s)
      else (case NewBackend (fst can) (snd can) (cfg_CRSQLiteExtPath cfg) s of
              (Inl e, s') \<Rightarrow> (Inl (Wrap ''storage init'' e), s')
            | (Inr _, s') \<Rightarrow>
                (case templates of
                   Inl e \<Rightarrow> (Inl (Wrap ''load admin templates'' e), s')
                 | Inr _ \<Rightarrow>
                     (Inr ([], [],
                        \<lparr>w_store = snd s', w_notifier = NewBroadcaster, w_clock = NewClock ''server''\<rparr>,
                        NewOIDCValidator (cfg_KeycloakURL cfg) (cfg_KeycloakRealm cfg) (cfg_KeycloakClientID cfg)), s'))))"

text \<open>The interval of the backups; \<open>parsed\<close> is what \<open>time.ParseDuration\<close> made of the variable.\<close>

definition backup_interval :: "config \<Rightarrow> int option \<Rightarrow> int option" where
  "backup_interval cfg parsed =
     (if cfg_BackupDestination cfg = [] then None
      else Some (if cfg_BackupInterval cfg \<noteq> [] then (case parsed of Some d \<Rightarrow> d | None \<Rightarrow> 86400000000000)
                 else 86400000000000))"

section \<open>main.go\<close>

text \<open>The process either ends with a fatal log line or serves requests.\<close>

datatype outcome = Fatal string err | Serving server_state

definition main_start :: "(string \<Rightarrow> string) \<Rightarrow> bool \<Rightarrow> bool \<times> bool \<Rightarrow> err + unit \<Rightarrow> string \<times> database
    \<Rightarrow> outcome \<times> (string \<times> database)" where
  "main_start getenv mkdir_ok can templates s =
     (case LoadConfig getenv of
        Inl e \<Rightarrow> (Fatal ''config'' e, s)
      | Inr cfg \<Rightarrow>
          (case Run_start mkdir_ok can templates cfg s of
             (Inl e, s') \<Rightarrow> (Fatal ''server stopped'' e, s')
           | (Inr st, s') \<Rightarrow> (Serving st, s')))"

end
