(* ===== verification/Security.thy ===== *)
theory Security
  imports Router
begin

text \<open>
  What a request can change, and who may send it.  The three checks are interpreted as guards
  on the server's state, those of \<open>/sync\<close> as a pair of guards; \<open>router_cases\<close> and \<open>server_cases\<close>
  split a request by its effect on the database, and the properties read their answer off.
\<close>

section \<open>Programs that only read\<close>

lemma keeps_read_meta: "keeps same_content (sql (on_meta (\<lambda>db. (f db, db))))"
  by (rule content_rel.keeps_sql_R) (simp add: keeps_def on_meta_def)

lemma keeps_read_snapshots:
  assumes "\<And>rs. snd (f rs) = rs"
  shows "keeps same_content (sql (on_snapshots f))"
proof (rule content_rel.keeps_sql_R, rule keepsI)
  fix db
  show "same_content db (snd (on_snapshots f db))"
  proof (cases "snapshots db")
    case (Some rs)
    obtain x where "f rs = (x, rs)" using assms [of rs] by (metis prod.collapse)
    moreover have "db\<lparr>snapshots := Some rs\<rparr> = db" using Some by (cases db) simp
    ultimately show ?thesis using Some by (simp only: on_snapshots_def option.case prod.case snd_conv same_content_refl)
  qed (simp add: on_snapshots_def)
qed

lemma keeps_get_key: "keeps same_content (db_GetDeviceKey k)"
proof (rule keepsI)
  fix db
  have "keeps same_content (sql (on_meta (select_key k)))"
    by (rule content_rel.keeps_sql_R) (auto simp: keeps_def on_meta_def select_key_def split: option.split)
  from keepsD [OF this, of db] show "same_content db (snd (db_GetDeviceKey k db))"
    by (auto simp: db_GetDeviceKey_def split: prod.split sum.split)
qed

lemma keeps_Verify: "keeps same_content (Verify (NewAuthStore now) cmp k secret)"
  unfolding Verify_def
  by (intro content_rel.keeps_bind_R keeps_wrapP) (simp_all add: NewAuthStore_def keeps_get_key failP_def)

lemma admin_reads:
  "keeps same_content (ListDevices st)" "keeps same_content DeviceCounts" "keeps same_content (ListDatasets a)"
  "keeps same_content (ListDocs a d u)" "keeps same_content (GetDoc d u k)"
  "keeps same_content (ListSyncEvents a p n)" "keeps same_content ListSyncAggregates"
proof -
  show "keeps same_content (ListSyncEvents a p n)"
    unfolding ListSyncEvents_def Let_def
    by (intro content_rel.keeps_bind_R keeps_read_meta content_rel.keeps_sql_R content_rel.keeps_ret_R)
  show "keeps same_content ListSyncAggregates"
    unfolding ListSyncAggregates_def
    by (intro content_rel.keeps_bind_R keeps_read_meta content_rel.keeps_sql_R content_rel.keeps_ret_R)
  show "keeps same_content (ListDevices st)" "keeps same_content DeviceCounts" "keeps same_content (ListDatasets a)"
    unfolding ListDevices_def DeviceCounts_def ListDatasets_def by (rule keeps_read_meta)+
  show "keeps same_content (ListDocs a d u)" "keeps same_content (GetDoc d u k)"
    unfolding ListDocs_def GetDoc_def by (rule keeps_read_snapshots, simp)+
qed

section \<open>The state of a request\<close>

text \<open>The database has the same content, and the engine's clock and streams are as before.\<close>

definition quiet_app :: "app \<Rightarrow> app \<Rightarrow> bool" where
  "quiet_app s s' \<longleftrightarrow>
     same_content (w_store (fst s)) (w_store (fst s'))
     \<and> w_notifier (fst s') = w_notifier (fst s) \<and> w_clock (fst s') = w_clock (fst s)"

lemma quiet_refl [simp]: "quiet_app s s"
  by (simp add: quiet_app_def)

lemma transp_quiet: "transp quiet_app"
  by (auto simp: transp_def quiet_app_def intro: same_content_trans)

lemma quiet_on_db: "keeps same_content m \<Longrightarrow> keeps quiet_app (on_db m)"
  by (simp add: keeps_def quiet_app_def on_db_def on_world_def on_store_def split: prod.split) (metis snd_conv)

lemma quiet_on_oidc: "keeps quiet_app (on_oidc m)"
  by (simp add: keeps_def quiet_app_def on_oidc_def split: prod.split)

lemma on_db_snd: "snd (on_db m s) = ((fst s)\<lparr>w_store := snd (m (w_store (fst s)))\<rparr>, snd s)"
  by (simp add: on_db_def on_world_def on_store_def split: prod.split)

lemma on_db_Inr: "on_db m s = (Inr x, s') \<longleftrightarrow> (\<exists>db. m (w_store (fst s)) = (Inr x, db) \<and> s' = ((fst s)\<lparr>w_store := db\<rparr>, snd s))"
  by (auto simp: on_db_def on_world_def on_store_def split: prod.split)

definition device_ok :: "externals \<Rightarrow> request \<Rightarrow> database \<Rightarrow> string \<Rightarrow> bool" where
  "device_ok ex r db k \<longleftrightarrow>
     (\<exists>secret dk. rq_header r ''X-Device-Key'' = k @ '':'' @ secret \<and> CHR '':'' \<notin> set k
        \<and> find_key k db = Some dk \<and> dk_Status dk = ''active'' \<and> ex_cmp ex (dk_KeyHash dk) secret)"

definition token_ok :: "externals \<Rightarrow> request \<Rightarrow> oidc_validator \<Rightarrow> oidc_claims \<Rightarrow> bool" where
  "token_ok ex r v claims \<longleftrightarrow>
     (\<exists>tok v'. rq_header r ''Authorization'' = ''Bearer '' @ tok
        \<and> Validate (ex_lib ex) (rq_env r) tok v = (Inr claims, v') \<and> cl_AppID claims \<noteq> [])"

definition admin_ok :: "externals \<Rightarrow> config \<Rightarrow> request \<Rightarrow> rates \<Rightarrow> bool" where
  "admin_ok ex cfg r bs \<longleftrightarrow>
     (cfg_AdminAllowedIPs cfg = [] \<or> ipAllowed (client_ip r) (cfg_AdminAllowedIPs cfg))
     \<and> \<not> fst (rateLimited (env_now (rq_env r) 0) (client_ip r) bs)
     \<and> password_ok (ex_cmp ex) (cfg_AdminPasswordHash cfg) r"

lemma client_ip_flusher [simp]: "client_ip (r\<lparr>rq_flusher := b\<rparr>) = client_ip r"
  by (simp add: client_ip_def split: option.split)

lemma decode_body_flusher [simp]: "decode_body fs (r\<lparr>rq_flusher := b\<rparr>) = decode_body fs r"
  by (simp add: decode_body_def)

lemma credentials_flusher [simp]:
  "device_ok ex (r\<lparr>rq_flusher := b\<rparr>) = device_ok ex r"
  "token_ok ex (r\<lparr>rq_flusher := b\<rparr>) = token_ok ex r"
  "admin_ok ex cfg (r\<lparr>rq_flusher := b\<rparr>) = admin_ok ex cfg r"
  by (simp_all add: device_ok_def [abs_def] token_ok_def [abs_def] admin_ok_def [abs_def] password_ok_def)

section \<open>The guards of the server\<close>

lemma svc_simps [simp]:
  "svc_Verify (the_service ex) k s = on_db (Verify (NewAuthStore 0) (ex_cmp ex) k s)"
  "svc_Register (the_service ex) en a d = on_db (Register (NewAuthStore (env_now en 1)) (env_gen en) (env_rand en)
     (env_uuid en) (env_now en 0) a d)"
  "svc_RotateKey (the_service ex) en k old new = on_db (RotateKey (NewAuthStore (env_now en 1)) (ex_cmp ex) (env_gen en) k old new)"
  "svc_Revoke (the_service ex) en k = on_db (Revoke (NewAuthStore (env_now en 1)) k)"
  by (simp_all add: the_service_def app_service_def NewDeviceService_def)

lemma reflp_quiet: "reflp quiet_app"
  by (simp add: reflp_def)

interpretation device: guard "RequireDeviceKey (svc_Verify (the_service ex))" "admit_device (svc_Verify (the_service ex))"
    "\<lambda>r w resp. resp" quiet_app for ex
  by (rule device_guard [OF _ reflp_quiet]) (simp add: quiet_on_db keeps_Verify)

interpretation jwt: guard "RequireJWT (the_validate ex)" "admit_jwt (the_validate ex)" "finish_jwt (the_validate ex)"
    quiet_app for ex
  by (rule jwt_guard [OF _ reflp_quiet]) (simp add: the_validate_def quiet_on_oidc)

interpretation sync_guard: guard_pair "RequireDeviceKey (svc_Verify (the_service ex))" "RequireJWT (the_validate ex)"
    "admit_device (svc_Verify (the_service ex))" "admit_jwt (the_validate ex)" "\<lambda>r w resp. resp"
    "finish_jwt (the_validate ex)" quiet_app for ex
  by unfold_locales (rule transp_quiet)

interpretation admin: guard "RequireAdminAuth cmp h ips" "admit_admin cmp h ips" "\<lambda>r w resp. resp"
    "\<lambda>s s' :: rates \<times> app. snd s' = snd s" for cmp h ips
  by (rule admin_guard)

text \<open>What admission means.\<close>

lemma admit_device_Some:
  assumes "admit_device (svc_Verify (the_service ex)) r s = Some (r', s')"
  shows "\<exists>k. device_ok ex r (w_store (fst s)) k \<and> r' = r\<lparr>ctx_device_key_id := Some k\<rparr>"
proof -
  obtain k secret db where k: "SplitN2 (rq_header r ''X-Device-Key'') (CHR '':'') = [k, secret]"
    "Verify (NewAuthStore 0) (ex_cmp ex) k secret (w_store (fst s)) = (Inr (), db)" "r' = r\<lparr>ctx_device_key_id := Some k\<rparr>"
    using assms by (auto simp: admit_device_def on_db_Inr split: list.splits prod.splits sum.splits)
  have "rq_header r ''X-Device-Key'' = k @ '':'' @ secret \<and> CHR '':'' \<notin> set k"
    using k(1) split_at_Some by (auto simp: SplitN2_def split: prod.splits option.splits)
  then show ?thesis
    using k(3) crsqlite_auth.Verify_Inr [OF k(2)] by (auto simp: device_ok_def)
qed

lemma admit_jwt_Some:
  assumes "admit_jwt (the_validate ex) r s = Some (r', s')"
  shows "\<exists>claims. token_ok ex r (snd s) claims \<and> fst s' = fst s
    \<and> r' = r\<lparr>ctx_app_id := Some (cl_AppID claims), ctx_user_id := Some (cl_Subject claims)\<rparr>"
proof -
  obtain tok where tok: "rq_header r ''Authorization'' = ''Bearer '' @ tok"
    using assms by (auto simp: admit_jwt_def Let_def HasPrefix_iff split: if_splits)
  have "TrimPrefix (''Bearer '' @ tok) ''Bearer '' = tok" by (rule TrimPrefix_append)
  with tok obtain claims v' where "Validate (ex_lib ex) (rq_env r) tok (snd s) = (Inr claims, v')" "cl_AppID claims \<noteq> []"
      "s' = (fst s, v')" "r' = r\<lparr>ctx_app_id := Some (cl_AppID claims), ctx_user_id := Some (cl_Subject claims)\<rparr>"
    using assms
    by (auto simp only: admit_jwt_def Let_def the_validate_def on_oidc_def HasPrefix_append split: prod.splits sum.splits if_splits)
  then show ?thesis using tok by (auto simp only: token_ok_def fst_conv)
qed

lemma admit_admin_Some:
  assumes "admit_admin (ex_cmp ex) (cfg_AdminPasswordHash cfg) (cfg_AdminAllowedIPs cfg) r s = Some (r', s')"
  shows "admin_ok ex cfg r (fst s) \<and> r' = r \<and> snd s' = snd s"
  using assms by (auto simp: admit_admin_def admin_ok_def split: if_splits prod.splits bool.splits)

section \<open>What a request of the application changes\<close>

text \<open>The state in which the sync handler of an admitted request runs.\<close>

definition synced :: "externals \<Rightarrow> config \<Rightarrow> request \<Rightarrow> (database, broadcaster) world \<Rightarrow> (database, broadcaster) world" where
  "synced ex cfg r w = snd (SyncHandler_ServeHTTP (the_sync_handler ex cfg) r w)"

lemma guarded_sync_cases:
  assumes h: "RequireDeviceKey (svc_Verify (the_service ex)) (RequireJWT (the_validate ex)
      (on_world_handler (SyncHandler_ServeHTTP (the_sync_handler ex cfg)))) r s = (resp, s')"
  obtains (refused) "quiet_app s s'" "400 \<le> rs_status resp"
    | (served) k claims w1 resp0 where "device_ok ex r (w_store (fst s)) k" "token_ok ex r (snd s) claims"
        "quiet_app s (w1, snd s')"
        "SyncHandler_ServeHTTP (the_sync_handler ex cfg) (r\<lparr>ctx_device_key_id := Some k,
           ctx_app_id := Some (cl_AppID claims), ctx_user_id := Some (cl_Subject claims)\<rparr>) w1 = (resp0, fst s')"
        "rs_status resp = rs_status resp0" "rs_body resp = rs_body resp0"
proof -
  let ?A1 = "admit_device (svc_Verify (the_service ex))" and ?A2 = "admit_jwt (the_validate ex)"
  let ?nxt = "on_world_handler (SyncHandler_ServeHTTP (the_sync_handler ex cfg))"
  show thesis
  proof (cases "guard_pair.admit_both ?A1 ?A2 r s")
    case None
    from sync_guard.both.refused_keep [OF None, of ?nxt] sync_guard.both.refused_status [OF None, of ?nxt]
    show thesis using refused by (simp only: h fst_conv snd_conv)
  next
    case (Some rs)
    obtain r2 s2 where rs: "rs = (r2, s2)" by (cases rs)
    then obtain r1 s1 where 1: "?A1 r s = Some (r1, s1)" "?A2 r1 s1 = Some (r2, s2)"
      using Some by (auto simp: sync_guard.admit_both_def split: option.splits prod.splits)
    obtain k where k: "device_ok ex r (w_store (fst s)) k" "r1 = r\<lparr>ctx_device_key_id := Some k\<rparr>"
      using admit_device_Some [OF 1(1)] by blast
    have v: "snd s1 = snd s"
      using 1(1) by (auto simp: admit_device_def on_db_Inr split: list.splits prod.splits sum.splits)
    obtain claims where c: "token_ok ex r1 (snd s1) claims" "fst s2 = fst s1"
        "r2 = r1\<lparr>ctx_app_id := Some (cl_AppID claims), ctx_user_id := Some (cl_Subject claims)\<rparr>"
      using admit_jwt_Some [OF 1(2)] by blast
    have q: "quiet_app s s2" using sync_guard.both.admitted_keep [OF Some [unfolded rs]] .
    obtain resp0 w' where S: "SyncHandler_ServeHTTP (the_sync_handler ex cfg) r2 (fst s2) = (resp0, w')"
      by (cases "SyncHandler_ServeHTTP (the_sync_handler ex cfg) r2 (fst s2)")
    have m: "(resp, s') = (finish_jwt (the_validate ex) r1 s1 resp0, (w', snd s2))"
      using sync_guard.both.admitted [OF Some [unfolded rs], of ?nxt] h 1(1)
      by (simp add: on_world_handler_def S sync_guard.finish_both_def)
    have f: "rs_status (finish_jwt (the_validate ex) r1 s1 resp0) = rs_status resp0"
      "rs_body (finish_jwt (the_validate ex) r1 s1 resp0) = rs_body resp0"
      by (simp_all add: finish_jwt_def log_app_def split: option.split prod.split)
    show thesis
      using served [OF k(1), of claims "fst s2" resp0] c k q v m f S
      by (simp add: token_ok_def quiet_app_def)
  qed
qed

text \<open>A program on the database whose result the handler turns into a response.\<close>

lemma on_db_cases:
  assumes "(case on_db m s of (Inl e, s1) \<Rightarrow> (f e, s1) | (Inr x, s1) \<Rightarrow> (g x, s1)) = (resp, s')"
  shows "s' = ((fst s)\<lparr>w_store := snd (m (w_store (fst s)))\<rparr>, snd s)"
  using assms on_db_snd [of m s] by (auto split: prod.splits sum.splits)

lemma app_routes_cases:
  assumes "((m, p), f) \<in> set (app_routes (the_router_deps ex cfg))"
  shows "(m = ''POST'' \<and> p = ''/devices/register'' \<and> f = Handlers_Register (rd_AuthHandlers (the_router_deps ex cfg)))
    \<or> (m = ''POST'' \<and> p = ''/auth/token'' \<and> f = Handlers_Token (rd_AuthHandlers (the_router_deps ex cfg)))
    \<or> (m = ''POST'' \<and> p = ''/devices/rotate-key'' \<and> f = Handlers_RotateKey (rd_AuthHandlers (the_router_deps ex cfg)))
    \<or> (m = ''DELETE'' \<and> p = ''/devices/'' \<and> f = RequireDeviceKey (svc_Verify (the_service ex))
        (Handlers_RevokeDevice (rd_AuthHandlers (the_router_deps ex cfg))))
    \<or> (m = ''POST'' \<and> p = ''/sync'' \<and> f = RequireDeviceKey (svc_Verify (the_service ex)) (RequireJWT (the_validate ex)
        (on_world_handler (SyncHandler_ServeHTTP (the_sync_handler ex cfg)))))
    \<or> (m = ''GET'' \<and> p = ''/events'' \<and> f = RequireJWT (the_validate ex) events_handler)"
  using assms
  by (simp only: app_routes_def Let_def the_router_deps_def router_deps.simps set_simps insert_iff empty_iff prod.inject simp_thms)
    (elim disjE; simp)

lemma auth_handlers_sel [simp]:
  "ah_deviceSvc (rd_AuthHandlers (the_router_deps ex cfg)) = the_service ex"
  "ah_oidcSvc (rd_AuthHandlers (the_router_deps ex cfg)) = Some (the_validate ex)"
  by (simp_all add: the_router_deps_def NewHandlers_def)

lemma Register_effect:
  assumes "Handlers_Register (rd_AuthHandlers (the_router_deps ex cfg)) r s = (resp, s')"
  shows "s' = s \<or> (\<exists>app dev. fst s' = (fst s)\<lparr>w_store := snd (Register (NewAuthStore (env_now (rq_env r) 1)) (env_gen (rq_env r))
    (env_rand (rq_env r)) (env_uuid (rq_env r)) (env_now (rq_env r) 0) app dev (w_store (fst s)))\<rparr>)"
proof (cases "decode_body [''app_id'', ''device_id''] r")
  case None
  then show ?thesis using assms by (simp add: Handlers_Register_def)
next
  case (Some req)
  show ?thesis
  proof (cases "req ''app_id'' = [] \<or> req ''device_id'' = []")
    case True
    then show ?thesis using assms Some by (simp add: Handlers_Register_def)
  next
    case False
    then have "s' = snd (svc_Register (the_service ex) (rq_env r) (req ''app_id'') (req ''device_id'') s)"
      using assms Some by (auto simp: Handlers_Register_def split: prod.splits sum.splits)
    then show ?thesis by (auto simp: on_db_snd)
  qed
qed

lemma Rotate_effect:
  assumes "Handlers_RotateKey (rd_AuthHandlers (the_router_deps ex cfg)) r s = (resp, s')"
  shows "s' = s \<or> (\<exists>req. decode_body [''device_key_id'', ''old_secret'', ''new_secret''] r = Some req
    \<and> fst s' = (fst s)\<lparr>w_store := snd (RotateKey (NewAuthStore (env_now (rq_env r) 1)) (ex_cmp ex)
        (env_gen (rq_env r)) (req ''device_key_id'') (req ''old_secret'') (req ''new_secret'') (w_store (fst s)))\<rparr>)"
proof (cases "decode_body [''device_key_id'', ''old_secret'', ''new_secret''] r")
  case None
  then show ?thesis using assms by (simp add: Handlers_RotateKey_def)
next
  case (Some req)
  then have "s' = snd (svc_RotateKey (the_service ex) (rq_env r) (req ''device_key_id'') (req ''old_secret'') (req ''new_secret'') s)"
    using assms by (auto simp: Handlers_RotateKey_def split: prod.splits sum.splits)
  then show ?thesis using Some by (auto simp: on_db_snd)
qed

lemma Revoke_effect:
  assumes "Handlers_RevokeDevice (rd_AuthHandlers (the_router_deps ex cfg)) r s = (resp, s')"
  shows "s' = s \<or> fst s' = (fst s)\<lparr>w_store := snd (Revoke (NewAuthStore (env_now (rq_env r) 1))
    (after_last (CHR ''/'') (rq_path r)) (w_store (fst s)))\<rparr>"
proof (cases "after_last (CHR ''/'') (rq_path r) = []")
  case True
  then show ?thesis using assms by (simp add: Handlers_RevokeDevice_def)
next
  case False
  then have "s' = snd (svc_Revoke (the_service ex) (rq_env r) (after_last (CHR ''/'') (rq_path r)) s)"
    using assms by (auto simp: Handlers_RevokeDevice_def Let_def split: prod.splits sum.splits)
  then show ?thesis by (simp add: on_db_snd)
qed

lemma Token_effect:
  assumes "Handlers_Token (rd_AuthHandlers (the_router_deps ex cfg)) r s = (resp, s')"
  shows "quiet_app s s'"
proof (cases "decode_body [''device_key_id'', ''device_secret''] r")
  case None
  then show ?thesis using assms by (simp add: Handlers_Token_def)
next
  case (Some req)
  obtain x s1 where V: "svc_Verify (the_service ex) (req ''device_key_id'') (req ''device_secret'') s = (x, s1)"
    by (cases "svc_Verify (the_service ex) (req ''device_key_id'') (req ''device_secret'') s")
  have 1: "quiet_app s s1" using keepsD' [OF quiet_on_db [OF keeps_Verify]] V by simp
  let ?tok = "TrimPrefix (rq_header r ''Authorization'') ''Bearer ''"
  obtain y s2 where W: "the_validate ex (rq_env r) ?tok s1 = (y, s2)" by (cases "the_validate ex (rq_env r) ?tok s1")
  have "quiet_app s1 s2" using keepsD' [OF quiet_on_oidc] W by (simp add: the_validate_def)
  then have 2: "quiet_app s s2" using 1 transp_quiet by (blast dest: transpD)
  have "s' = s1 \<or> s' = s2"
    using assms Some V W by (cases x; cases y) (auto simp: Handlers_Token_def Let_def split: if_splits)
  then show ?thesis using 1 2 by blast
qed

lemma events_effect:
  assumes "RequireJWT (the_validate ex) events_handler r s = (resp, s')"
  shows "quiet_app s s'"
proof -
  have "quiet_app w (snd (events_handler r w))" for r and w :: app
    by (simp add: events_handler_def SSEHandler_def)
  from jwt.guarded_keep [where nxt = events_handler and r = r and w = s and ex = ex, OF transp_quiet this]
  show ?thesis using assms by (simp only: snd_conv)
qed

lemma guarded_revoke_effect:
  assumes "RequireDeviceKey (svc_Verify (the_service ex)) (Handlers_RevokeDevice (rd_AuthHandlers (the_router_deps ex cfg))) r s
    = (resp, s')"
  shows "quiet_app s s' \<or> (\<exists>k db1. device_ok ex r (w_store (fst s)) k \<and> same_content (w_store (fst s)) db1
    \<and> w_store (fst s') = snd (Revoke (NewAuthStore (env_now (rq_env r) 1)) (after_last (CHR ''/'') (rq_path r)) db1)
    \<and> w_notifier (fst s') = w_notifier (fst s))"
proof (cases "admit_device (svc_Verify (the_service ex)) r s")
  case None
  then show ?thesis
    using device.refused_keep [OF None, of "Handlers_RevokeDevice (rd_AuthHandlers (the_router_deps ex cfg))"] assms by simp
next
  case (Some rs)
  then obtain r1 s1 where 1: "admit_device (svc_Verify (the_service ex)) r s = Some (r1, s1)" by (cases rs) auto
  obtain k where k: "device_ok ex r (w_store (fst s)) k" "r1 = r\<lparr>ctx_device_key_id := Some k\<rparr>"
    using admit_device_Some [OF 1] by blast
  have "Handlers_RevokeDevice (rd_AuthHandlers (the_router_deps ex cfg)) r1 s1 = (resp, s')"
    using device.admitted [OF 1, of "Handlers_RevokeDevice (rd_AuthHandlers (the_router_deps ex cfg))"] assms
    by (simp split: prod.splits)
  from Revoke_effect [OF this] show ?thesis
    using k device.admitted_keep [OF 1] by (auto simp: quiet_app_def)
qed

text \<open>
  The effects of a request on the database: none, a registration, a rotation, a revocation by a
  device, or a sync.
\<close>

lemma router_cases:
  assumes h: "NewRouter (the_router_deps ex cfg) r s = (resp, s')"
  obtains (none) "quiet_app s s'"
    | (register) app dev where "rq_method r = ''POST''" "rq_path r = ''/devices/register''"
        "w_store (fst s') = snd (Register (NewAuthStore (env_now (rq_env r) 1)) (env_gen (rq_env r)) (env_rand (rq_env r))
           (env_uuid (rq_env r)) (env_now (rq_env r) 0) app dev (w_store (fst s)))" "w_notifier (fst s') = w_notifier (fst s)"
    | (rotate) req where "rq_method r = ''POST''" "rq_path r = ''/devices/rotate-key''"
        "decode_body [''device_key_id'', ''old_secret'', ''new_secret''] r = Some req"
        "w_store (fst s') = snd (RotateKey (NewAuthStore (env_now (rq_env r) 1)) (ex_cmp ex) (env_gen (rq_env r))
           (req ''device_key_id'') (req ''old_secret'') (req ''new_secret'') (w_store (fst s)))"
        "w_notifier (fst s') = w_notifier (fst s)"
    | (revoke) k db1 where "rq_method r = ''DELETE''" "HasPrefix (rq_path r) ''/devices/''"
        "device_ok ex r (w_store (fst s)) k" "same_content (w_store (fst s)) db1"
        "w_store (fst s') = snd (Revoke (NewAuthStore (env_now (rq_env r) 1)) (after_last (CHR ''/'') (rq_path r)) db1)"
        "w_notifier (fst s') = w_notifier (fst s)"
    | (sync) k claims w1 resp0 where "rq_method r = ''POST''" "rq_path r = ''/sync''"
        "device_ok ex r (w_store (fst s)) k" "token_ok ex r (snd s) claims" "quiet_app s (w1, snd s')"
        "SyncHandler_ServeHTTP (the_sync_handler ex cfg) (r\<lparr>ctx_device_key_id := Some k,
           ctx_app_id := Some (cl_AppID claims), ctx_user_id := Some (cl_Subject claims)\<rparr>) w1 = (resp0, fst s')"
        "rs_status resp = rs_status resp0" "rs_body resp = rs_body resp0"
proof (cases rule: mux_serve_cases [of "app_routes (the_router_deps ex cfg)" r s])
  case (own resp1)
  then show thesis using h none by (simp add: NewRouter_def)
next
  case (handler m p f)
  have f: "f r s = (resp, s')" using handler(4) h by (simp add: NewRouter_def)
  let ?d = "the_router_deps ex cfg"
  have get: "m = ''POST'' \<Longrightarrow> rq_method r = ''POST''" "m = ''DELETE'' \<Longrightarrow> rq_method r = ''DELETE''"
    using handler(3) by (auto simp: method_matches_def)
  from app_routes_cases [OF handler(1)] show thesis
  proof (elim disjE conjE)
    assume a: "m = ''POST''" "p = ''/devices/register''" "f = Handlers_Register (rd_AuthHandlers ?d)"
    have p: "rq_path r = ''/devices/register''" using handler(2) a(2) by (simp add: path_matches_def ends_slash_def)
    from Register_effect [OF f [unfolded a(3)]] show thesis
      using none register [OF get(1) [OF a(1)] p] quiet_refl by fastforce
  next
    assume "f = Handlers_Token (rd_AuthHandlers ?d)"
    then show thesis using Token_effect f none by simp
  next
    assume a: "m = ''POST''" "p = ''/devices/rotate-key''" "f = Handlers_RotateKey (rd_AuthHandlers ?d)"
    have p: "rq_path r = ''/devices/rotate-key''" using handler(2) a(2) by (simp add: path_matches_def ends_slash_def)
    from Rotate_effect [OF f [unfolded a(3)]] show thesis
      using none rotate [OF get(1) [OF a(1)] p] quiet_refl by fastforce
  next
    assume a: "m = ''DELETE''" "p = ''/devices/''"
      "f = RequireDeviceKey (svc_Verify (the_service ex)) (Handlers_RevokeDevice (rd_AuthHandlers ?d))"
    have p: "HasPrefix (rq_path r) ''/devices/''" using handler(2) a(2) by (simp add: path_matches_def ends_slash_def)
    from guarded_revoke_effect [OF f [unfolded a(3)]] show thesis
      using none revoke [OF get(2) [OF a(1)] p] by blast
  next
    assume a: "m = ''POST''" "p = ''/sync''"
      "f = RequireDeviceKey (svc_Verify (the_service ex)) (RequireJWT (the_validate ex)
         (on_world_handler (SyncHandler_ServeHTTP (the_sync_handler ex cfg))))"
    have p: "rq_path r = ''/sync''" using handler(2) a(2) by (simp add: path_matches_def ends_slash_def)
    show thesis
    proof (cases rule: guarded_sync_cases [OF f [unfolded a(3)]])
      case 1
      then show thesis using none by blast
    next
      case (2 k claims w1 resp0)
      then show thesis using sync [OF get(1) [OF a(1)] p] by blast
    qed
  next
    assume "f = RequireJWT (the_validate ex) events_handler"
    then show thesis using events_effect f none by simp
  qed
qed

end
