(* ===== verification/Access.thy ===== *)
theory Access
  imports Security
begin

text \<open>
  The whole server: which requests change the database, and who sent them.  \<open>server_cases\<close>
  splits a request by its effect; the properties follow a change of a table back to the
  credentials of the request that made it.
\<close>

section \<open>Keys that exist\<close>

context auth_store
begin

lemma Register_existing:
  assumes "Register store gen rand uuid now app dev s = (r, s')" "lookup k s = Some dk"
  shows "lookup k s' = Some dk"
proof -
  have "lookup k s' = Some dk" if "CreateDeviceKey store row s = (r', s')" for row r'
    using that assms(2) create_Inr create_Inl by (cases r') auto
  then show ?thesis using assms by (auto simp: Register_def bindP_def split: sum.splits prod.splits)
qed

lemma update_other:
  assumes "UpdateDeviceKey store dk s = (r, s')" "lookup k s' \<noteq> lookup k s"
  shows "k = dk_DeviceKeyID dk \<and> lookup k s' \<noteq> None"
proof (cases r)
  case (Inl e)
  then show ?thesis using assms update_Inl by blast
next
  case (Inr x)
  then obtain now where "lookup k s' = (if k = dk_DeviceKeyID dk
      then map_option (\<lambda>r. r\<lparr>dk_KeyHash := dk_KeyHash dk, dk_Status := dk_Status dk, dk_LastSeenAt := Some now\<rparr>)
        (lookup k s) else lookup k s)"
    using update_Inr assms(1) by blast
  then show ?thesis using assms(2) by (cases "lookup k s") (auto split: if_splits)
qed

lemma Revoke_changes:
  assumes "Revoke store k' s = (r, s')" "lookup k s' \<noteq> lookup k s"
  shows "k = k' \<and> lookup k s' \<noteq> None"
proof (cases "GetDeviceKey store k' s")
  case (Pair g s1)
  have 1: "lookup k s1 = lookup k s" using keepsD' [OF get_keeps Pair] by blast
  with assms Pair obtain dk where "g = Inr dk" "UpdateDeviceKey store (dk\<lparr>dk_Status := ''revoked''\<rparr>) s1 = (r, s')"
    by (cases g) (auto simp: Revoke_def wrapP_def)
  then have "k = dk_DeviceKeyID dk \<and> lookup k s' \<noteq> None" "lookup k' s = Some dk"
    using update_other [of "dk\<lparr>dk_Status := ''revoked''\<rparr>" s1 r s' k] 1 assms(2) get_Inr Pair by auto
  then show ?thesis using lookup_id [of k' s dk] by auto
qed

lemma RotateKey_changes:
  assumes "RotateKey store cmp gen k' old new s = (r, s')" "lookup k s' \<noteq> lookup k s"
  shows "k = k' \<and> lookup k s' \<noteq> None \<and> (\<exists>dk. lookup k s = Some dk \<and> dk_Status dk = ''active'' \<and> cmp (dk_KeyHash dk) old)"
proof (cases "GetDeviceKey store k' s")
  case (Pair g s1)
  have 1: "lookup k s1 = lookup k s" using keepsD' [OF get_keeps Pair] by blast
  with assms Pair obtain dk hash where g: "g = Inr dk" "dk_Status dk = ''active''" "cmp (dk_KeyHash dk) old"
      and u: "UpdateDeviceKey store (dk\<lparr>dk_KeyHash := hash\<rparr>) s1 = (r, s')"
    by (cases g) (auto simp: RotateKey_def wrapP_def split: if_splits sum.splits)
  have l: "lookup k' s = Some dk" using get_Inr Pair g by blast
  have "k = dk_DeviceKeyID (dk\<lparr>dk_KeyHash := hash\<rparr>) \<and> lookup k s' \<noteq> None" using update_other [OF u] 1 assms(2) by simp
  then show ?thesis using l lookup_id [OF l] g by auto
qed

end

section \<open>What the key operations and the events change\<close>

text \<open>No log and no snapshot; ids of keys stay, and stay unique.\<close>

definition key_ids :: "database \<Rightarrow> string list" where
  "key_ids db = map dk_DeviceKeyID (device_keys db)"

definition key_change :: "database \<Rightarrow> database \<Rightarrow> bool" where
  "key_change db db' \<longleftrightarrow>
     tables db' = tables db \<and> snapshots db' = snapshots db
     \<and> (distinct (key_ids db) \<longrightarrow> distinct (key_ids db')) \<and> set (key_ids db) \<subseteq> set (key_ids db')"

interpretation key_rel: statement_relation key_change
  by unfold_locales (auto simp: key_change_def key_ids_def reflp_def transp_def)

lemma keeps_meta_keys:
  "(\<And>db. key_change db (snd (f db))) \<Longrightarrow> keeps key_change (sql (on_meta f))"
  using key_rel.refl by (intro key_rel.keeps_sql_R) (simp add: keeps_def on_meta_def reflp_def)

lemma key_change_update: "map dk_DeviceKeyID ks = key_ids db \<Longrightarrow> key_change db (db\<lparr>device_keys := ks\<rparr>)"
  by (simp add: key_change_def key_ids_def)

lemma key_store_changes:
  "keeps key_change (CreateDeviceKey (NewAuthStore now) dk)" "keeps key_change (UpdateDeviceKey (NewAuthStore now) dk)"
  "keeps key_change (GetDeviceKey (NewAuthStore now) k)" "keeps key_change (RevokeDevice k)"
  "keeps key_change (WriteSyncEvent a d u k n)"
proof -
  show "keeps key_change (CreateDeviceKey (NewAuthStore now) dk)"
    by (auto simp: NewAuthStore_def db_CreateDeviceKey_def insert_key_def key_change_def key_ids_def intro!: keeps_meta_keys)
  show "keeps key_change (UpdateDeviceKey (NewAuthStore now) dk)"
    unfolding NewAuthStore_def auth_store.simps db_UpdateDeviceKey_def update_key_def
    by (rule keeps_meta_keys) (auto simp: key_ids_def intro!: key_change_update)
  show "keeps key_change (GetDeviceKey (NewAuthStore now) k)"
    by (simp add: NewAuthStore_def keeps_weaken [OF keeps_get_key] key_change_def key_ids_def same_contentD)
  have "keeps key_change (sql (on_meta (revoke_row k)))"
    unfolding revoke_row_def by (rule keeps_meta_keys) (auto simp: key_ids_def intro!: key_change_update)
  then show "keeps key_change (RevokeDevice k)"
    unfolding RevokeDevice_def by (rule key_rel.keeps_bind_R) (simp add: failP_def)
  show "keeps key_change (WriteSyncEvent a d u k n)"
    unfolding WriteSyncEvent_def by (rule keeps_meta_keys) (simp add: key_change_def key_ids_def)
qed

lemma key_ops_change:
  "keeps key_change (Register (NewAuthStore t) gen rand uuid now app dev)"
  "keeps key_change (RotateKey (NewAuthStore t) cmp gen k old new)"
  "keeps key_change (Revoke (NewAuthStore t) k)"
  unfolding Register_def RotateKey_def Revoke_def
  by (auto simp: failP_def key_store_changes split: sum.split intro!: key_rel.keeps_bind_R keeps_wrapP)

lemmas key_changes = key_ops_change [THEN keepsD] key_store_changes(4,5) [THEN keepsD]

lemma key_change_tables: "key_change db db' \<Longrightarrow> tables db' = tables db"
  by (simp add: key_change_def)

lemmas tables_kept = key_changes [THEN key_change_tables]

section \<open>The admin console\<close>

lemmas quiet_reads = admin_reads [THEN quiet_on_db, THEN keepsD']

lemma quiet_trans: "quiet_app a b \<Longrightarrow> quiet_app b c \<Longrightarrow> quiet_app a c"
  using transp_quiet by (rule transpD)

lemma admin_deps_sel [simp]:
  "das_ListDevices (ard_DeviceStore (the_admin_deps ex cfg)) st = on_db (ListDevices st)"
  "das_DeviceCounts (ard_DeviceStore (the_admin_deps ex cfg)) = on_db DeviceCounts"
  "das_RevokeDevice (ard_DeviceStore (the_admin_deps ex cfg)) k = on_db (RevokeDevice k)"
  "dts_ListDatasets (ard_DataStore (the_admin_deps ex cfg)) a = on_db (ListDatasets a)"
  "dts_ListDocs (ard_DataStore (the_admin_deps ex cfg)) a d u = on_db (ListDocs a d u)"
  "dts_GetDoc (ard_DataStore (the_admin_deps ex cfg)) d u k = on_db (GetDoc d u k)"
  "dts_DeleteDoc (ard_DataStore (the_admin_deps ex cfg)) d u k = on_db (DeleteDoc d u k)"
  "sas_ListSyncEvents (ard_SyncStore (the_admin_deps ex cfg)) a p n = on_db (ListSyncEvents a p n)"
  "sas_ListSyncAggregates (ard_SyncStore (the_admin_deps ex cfg)) = on_db ListSyncAggregates"
  by (simp_all add: the_admin_deps_def)

lemma devices_list_quiet:
  assumes "devices_list (ard_DeviceStore (the_admin_deps ex cfg)) tmpl r s = (resp, s')"
  shows "quiet_app s s'"
  using assms
  by (auto simp: devices_list_def Let_def dest!: quiet_reads intro: quiet_trans split: if_splits prod.splits sum.splits)

lemma devices_revoke_effect:
  assumes "devices_revoke (ard_DeviceStore (the_admin_deps ex cfg)) r s = (resp, s')"
  shows "s' = s \<or> s' = snd (on_db (RevokeDevice (after_last (CHR ''/'') (rq_path r))) s)"
  using assms by (auto simp: devices_revoke_def Let_def split: if_splits prod.splits sum.splits)

lemma data_reads_quiet:
  "data_browse (ard_DataStore (the_admin_deps ex cfg)) tmpl r s = (resp, s') \<Longrightarrow> quiet_app s s'"
  "data_docsPartial (ard_DataStore (the_admin_deps ex cfg)) tmpl r s = (resp, s') \<Longrightarrow> quiet_app s s'"
  "data_docModal (ard_DataStore (the_admin_deps ex cfg)) tmpl r s = (resp, s') \<Longrightarrow> quiet_app s s'"
  by (auto simp: data_browse_def data_docsPartial_def data_docModal_def Let_def dest!: quiet_reads
      split: if_splits prod.splits sum.splits)

lemma data_deleteDoc_effect:
  assumes "data_deleteDoc (ard_DataStore (the_admin_deps ex cfg)) r s = (resp, s')"
  shows "s' = s \<or> s' = snd (on_db (DeleteDoc (rq_query r ''dataset_id'') (rq_query r ''user_id'') (rq_query r ''doc_id'')) s)"
  using assms by (auto simp: data_deleteDoc_def Let_def split: if_splits prod.splits sum.splits)

lemma SyncPage_quiet:
  assumes "SyncPage (ard_SyncStore (the_admin_deps ex cfg)) tmpl r s = (resp, s')"
  shows "quiet_app s s'"
  using assms by (auto simp: SyncPage_def Let_def dest!: quiet_reads split: if_splits prod.splits sum.splits)

lemma AdminMetrics_quiet:
  assumes "AdminMetricsHandler (ard_MetricsReg (the_admin_deps ex cfg)) tmpl seeds r s = (resp, s')"
  shows "quiet_app s s'"
  using assms by (auto simp: AdminMetricsHandler_def the_admin_deps_def retP_def split: if_splits)

lemma admin_routes_cases:
  assumes "((m, p), f) \<in> set (admin_routes d seeds)"
  shows "f = DevicesHandler (ard_DeviceStore d) (ard_Tmpl d) \<or> f = DataHandler (ard_DataStore d) (ard_Tmpl d)
    \<or> f = SyncPage (ard_SyncStore d) (ard_Tmpl d) \<or> f = KeysPage False (ard_Tmpl d)
    \<or> f = AdminMetricsHandler (ard_MetricsReg d) (ard_Tmpl d) seeds
    \<or> f = (\<lambda>r w. (redirect ''/admin/devices'' 302, w))"
  using assms by (simp only: admin_routes_def Let_def set_simps insert_iff empty_iff prod.inject simp_thms) (elim disjE; simp)

lemma DeleteDoc_keys:
  "device_keys (snd (DeleteDoc d u k db)) = device_keys db" "tables (snd (DeleteDoc d u k db)) = tables db"
proof -
  let ?f = "\<lambda>rs. (Inr (), filter (\<lambda>r. \<not> is_doc d u k r) rs)"
  have "device_keys (snd (DeleteDoc d u k db)) = device_keys db \<and> tables (snd (DeleteDoc d u k db)) = tables db"
  proof (cases rule: sql_cases [of "on_snapshots ?f" db])
    case (ran db')
    then show ?thesis by (simp add: DeleteDoc_def on_snapshots_def same_contentD [OF ran(1)] split: option.split)
  qed (simp add: DeleteDoc_def)
  then show "device_keys (snd (DeleteDoc d u k db)) = device_keys db" "tables (snd (DeleteDoc d u k db)) = tables db" by auto
qed

text \<open>The console reads, revokes a device or deletes a document.\<close>

lemma admin_mux_cases:
  assumes h: "mux_serve (admin_routes (the_admin_deps ex cfg) seeds) r s = (resp, s')"
  obtains (none) "quiet_app s s'"
    | (revoke) "rq_method r = ''DELETE''" "s' = snd (on_db (RevokeDevice (after_last (CHR ''/'') (rq_path r))) s)"
    | (delete) "rq_method r = ''DELETE''"
        "s' = snd (on_db (DeleteDoc (rq_query r ''dataset_id'') (rq_query r ''user_id'') (rq_query r ''doc_id'')) s)"
proof (cases rule: mux_serve_cases [of "admin_routes (the_admin_deps ex cfg) seeds" r s])
  case (own resp1)
  then show thesis using h none by simp
next
  case (handler m p f)
  let ?d = "the_admin_deps ex cfg"
  have f: "f r s = (resp, s')" using handler(4) h by simp
  from admin_routes_cases [OF handler(1)] show thesis
  proof (elim disjE)
    assume a: "f = DevicesHandler (ard_DeviceStore ?d) (ard_Tmpl ?d)"
    show thesis
    proof (cases "rq_method r = ''DELETE''")
      case True
      then have "devices_revoke (ard_DeviceStore ?d) r s = (resp, s')" using f a by (simp add: DevicesHandler_def)
      from devices_revoke_effect [OF this] show thesis using revoke [OF True] none quiet_refl by blast
    next
      case False
      then show thesis using f a none devices_list_quiet by (auto simp: DevicesHandler_def split: if_splits)
    qed
  next
    assume a: "f = DataHandler (ard_DataStore ?d) (ard_Tmpl ?d)"
    show thesis
    proof (cases "rq_method r = ''DELETE'' \<and> rq_path r = ''/admin/data/doc''")
      case True
      then have "data_deleteDoc (ard_DataStore ?d) r s = (resp, s')" using f a by (simp add: DataHandler_def)
      from data_deleteDoc_effect [OF this] show thesis using delete True none quiet_refl by blast
    next
      case False
      then show thesis using f a none data_reads_quiet by (auto simp: DataHandler_def split: if_splits)
    qed
  next
    assume "f = SyncPage (ard_SyncStore ?d) (ard_Tmpl ?d)"
    then show thesis using f none SyncPage_quiet by blast
  next
    assume "f = KeysPage False (ard_Tmpl ?d)"
    then show thesis using f none by (simp add: KeysPage_def)
  next
    assume "f = AdminMetricsHandler (ard_MetricsReg ?d) (ard_Tmpl ?d) seeds"
    then show thesis using f none AdminMetrics_quiet by blast
  next
    assume "f = (\<lambda>r w. (redirect ''/admin/devices'' 302, w))"
    then show thesis using f none by simp
  qed
qed

section \<open>What a sync writes\<close>

text \<open>Only log tables of the app, and of the user when the context names one; never a device key.\<close>

definition sync_writes :: "string \<Rightarrow> string \<Rightarrow> database \<Rightarrow> database \<Rightarrow> bool" where
  "sync_writes a u db db' \<longleftrightarrow>
     (\<forall>k. tables db' k \<noteq> tables db k \<longrightarrow> (\<exists>d. k = table_key (datasetTable a u d)))
     \<and> device_keys db' = device_keys db"

lemma reflp_sync_writes: "reflp (sync_writes a u)"
  by (simp add: reflp_def sync_writes_def)

lemma transp_sync_writes: "transp (sync_writes a u)"
  by (rule transpI) (metis sync_writes_def)

lemma sync_writes_content: "same_content db db' \<Longrightarrow> sync_writes a u db db'"
  by (simp add: sync_writes_def same_contentD)

lemma sync_writes_frame: "frame_other (datasetTable a u d) db db' \<Longrightarrow> sync_writes a u db db'"
  by (auto simp: frame_other_def sync_writes_def)

lemma sync_writes_event: "keeps (sync_writes a u) (WriteSyncEvent a1 d1 u1 k1 n)"
proof (rule keepsI)
  fix db
  obtain x db' where w: "WriteSyncEvent a1 d1 u1 k1 n db = (x, db')" by (cases "WriteSyncEvent a1 d1 u1 k1 n db")
  show "sync_writes a u db (snd (WriteSyncEvent a1 d1 u1 k1 n db))"
  proof (cases x)
    case (Inl e)
    then show ?thesis
      using sql_on_meta_Inl [OF w [unfolded WriteSyncEvent_def Inl]] sync_writes_content w by simp
  next
    case (Inr y)
    from w [unfolded WriteSyncEvent_def Inr] obtain db1 where "same_content db db1"
        "device_keys db' = device_keys db1" "tables db' = tables db1"
      by (rule sql_on_meta_Inr) auto
    then show ?thesis using w by (simp add: sync_writes_def same_contentD)
  qed
qed

lemma engine_writes:
  "sync_writes (msg_AppID msg) (msg_UserID msg) (w_store w) (w_store (snd (Sync (the_engine ex cfg) wall msg w)))"
proof (rule Sync_keeps_store [OF reflp_sync_writes transp_sync_writes])
  have f: "keeps (frame_other (datasetTable a u d)) m \<Longrightarrow> keeps (sync_writes a u) m" for a u d and m :: "'x dbprog"
    by (erule keeps_weaken) (rule sync_writes_frame)
  let ?e = "the_engine ex cfg" and ?a = "msg_AppID msg" and ?u = "msg_UserID msg" and ?d = "msg_DatasetID msg"
  note sel = the_engine_def NewEngine_def crsqlite_def
  show "keeps (sync_writes ?a ?u) (sb_MergeOps (eng_store ?e) ?a ?u ?d ops)" for ops
    by (simp add: sel f [OF frame_inv.MergeOps_keeps])
  show "keeps (sync_writes ?a ?u) (sb_GetDelta (eng_store ?e) ?a ?u ?d h)" for h
    by (simp add: sel f [OF frame_inv.GetDelta_keeps])
  show "keeps (sync_writes ?a ?u) (sb_GetSnapshot (eng_store ?e) ?a ?u ?d)"
    by (simp add: sel f [OF frame_inv.GetSnapshot_keeps])
  show "keeps (sync_writes ?a ?u) (sb_OpCount (eng_store ?e) ?a ?u ?d)"
    by (simp add: sel f [OF frame_inv.OpCount_keeps])
  show "keeps (sync_writes ?a ?u) (sb_Compact (eng_store ?e) ?a ?u ?d)"
    by (simp add: sel f [OF frame_inv.Compact_keeps])
  show "keeps (sync_writes ?a ?u) (sb_SchemaVersion (eng_store ?e) ?a ?d)"
    by (simp add: sel keeps_weaken [OF SchemaVersion_content] sync_writes_content)
qed

lemma sync_sel [simp]:
  "sh_engine (the_sync_handler ex cfg) = the_engine ex cfg" "sh_events (the_sync_handler ex cfg) = Some WriteSyncEvent"
  by (simp_all add: the_sync_handler_def WithEventWriter_def NewSyncHandler_def)

lemma record_event_writes:
  "sync_writes a u (w_store w) (w_store (record_event (the_sync_handler ex cfg) r msg w))"
  using reflp_sync_writes [THEN reflpD] keepsD [OF sync_writes_event]
  by (simp add: record_event_def on_store_def split: prod.split) (metis snd_conv)

lemma handler_writes:
  assumes "SyncHandler_ServeHTTP (the_sync_handler ex cfg) r w = (resp, w')"
  obtains "w' = w" | msg where "read_message (the_sync_handler ex cfg) r = Inr msg"
      "sync_writes (msg_AppID msg) (msg_UserID msg) (w_store w) (w_store w')"
proof (cases "rq_method r = ''POST'' \<and> (\<exists>msg. read_message (the_sync_handler ex cfg) r = Inr msg)")
  case False
  then show thesis using assms that(1) by (auto simp: SyncHandler_ServeHTTP_def split: sum.splits if_splits)
next
  case True
  then obtain msg where m: "read_message (the_sync_handler ex cfg) r = Inr msg" by blast
  obtain x w1 where S: "Sync (the_engine ex cfg) (env_wall (rq_env r)) msg w = (x, w1)"
    by (cases "Sync (the_engine ex cfg) (env_wall (rq_env r)) msg w")
  have 1: "sync_writes (msg_AppID msg) (msg_UserID msg) (w_store w) (w_store w1)"
    using engine_writes [of msg w ex cfg "env_wall (rq_env r)"] S by simp
  have "w' = w1 \<or> w' = record_event (the_sync_handler ex cfg) r msg w1"
    using assms True m S by (cases x) (auto simp: SyncHandler_ServeHTTP_def)
  then show thesis using that(2) [OF m] 1 record_event_writes transp_sync_writes [THEN transpD, OF 1] by blast
qed

lemma read_message_ids:
  assumes "read_message h (r\<lparr>ctx_device_key_id := kid, ctx_app_id := Some a, ctx_user_id := Some u\<rparr>) = Inr msg" "a \<noteq> []"
  shows "msg_AppID msg = a \<and> (u \<noteq> [] \<longrightarrow> msg_UserID msg = u)"
  using assms by (auto simp: read_message_def trusted_def Let_def ctx_value_def split: sum.splits option.splits)

section \<open>The server\<close>

lemma server_cases:
  assumes h: "server_handler ex cfg started r (log, bs, a) = (resp, (log', bs', a'))"
  obtains (none) "quiet_app a a'"
    | (router) "NewRouter (the_router_deps ex cfg) (r\<lparr>rq_flusher := True\<rparr>) a = (resp, a')"
    | (console) "admin_ok ex cfg r bs"
        "mux_serve (admin_routes (the_admin_deps ex cfg) (ex_seeds ex)) (r\<lparr>rq_flusher := True\<rparr>) a = (resp, a')"
proof -
  let ?es = "main_routes ex cfg started" and ?r = "r\<lparr>rq_flusher := True\<rparr>"
  have m: "mux_serve ?es ?r (bs, a) = (resp, (bs', a'))"
    using h by (auto simp: server_handler_def RequestLogger_def split: prod.splits)
  show thesis
  proof (cases rule: mux_serve_cases [of ?es ?r "(bs, a)"])
    case (own resp1)
    then show thesis using m none by simp
  next
    case (handler mt p f)
    have f: "f ?r (bs, a) = (resp, (bs', a'))" using handler(4) m by simp
    let ?adm = "RequireAdminAuth (ex_cmp ex) (cfg_AdminPasswordHash cfg) (cfg_AdminAllowedIPs cfg)"
    from handler(1) consider
        (adm) "f = ?adm (beside_rates (mux_serve (admin_routes (the_admin_deps ex cfg) (ex_seeds ex))))"
      | (health) "f = beside_rates (Health_ServeHTTP (WithDBCheck (\<lambda>_. True) (NewHealthHandler started ''1.0.0'')) 0)"
      | (metrics) "f = ?adm (metrics_handler ex)"
      | (rest) "f = beside_rates (NewRouter (the_router_deps ex cfg))"
      by (auto simp: main_routes_def NewAdminRouter_def the_admin_deps_def)
    then show thesis
    proof cases
      case health
      then show thesis using f none by (auto simp: beside_rates_def Health_ServeHTTP_def Let_def split: prod.splits)
    next
      case metrics
      then have "a' = a" using f
        by (auto simp: RequireAdminAuth_def metrics_handler_def Let_def split: if_splits prod.splits bool.splits)
      then show thesis using none by simp
    next
      case rest
      then show thesis using f router by (auto simp: beside_rates_def split: prod.splits)
    next
      case adm
      show thesis
      proof (cases "admit_admin (ex_cmp ex) (cfg_AdminPasswordHash cfg) (cfg_AdminAllowedIPs cfg) ?r (bs, a)")
        case None
        have "snd (snd (f ?r (bs, a))) = a" unfolding adm using admin.refused_keep [OF None] by simp
        then show thesis using f none by simp
      next
        case (Some rs)
        then obtain r1 bs1 a1 where ad: "admit_admin (ex_cmp ex) (cfg_AdminPasswordHash cfg) (cfg_AdminAllowedIPs cfg) ?r (bs, a)
          = Some (r1, (bs1, a1))" by (cases rs) auto
        have k: "admin_ok ex cfg r bs" "r1 = ?r" "a1 = a" using admit_admin_Some [OF ad] by simp_all
        have "f ?r (bs, a) = beside_rates (mux_serve (admin_routes (the_admin_deps ex cfg) (ex_seeds ex))) ?r (bs1, a)"
          using admin.admitted [OF ad] by (simp add: adm k split: prod.split)
        then show thesis using f k(1) console by (auto simp: beside_rates_def split: prod.splits)
      qed
    qed
  qed
qed

text \<open>Every request leaves one entry in the log, with the status it was answered with.\<close>

lemma server_logs:
  assumes "server_handler ex cfg started r (log, bs, a) = (resp, (log', bs', a'))"
  shows "\<exists>e. log' = log @ [e] \<and> log_method e = rq_method r \<and> log_path e = rq_path r \<and> log_status e = rs_status resp
    \<and> log_remote_addr e = rq_remote r"
  using assms by (auto simp: server_handler_def RequestLogger_def split: prod.splits)

section \<open>Examples\<close>

text \<open>
  A server with one device key and a token library that reads every token as \<open>claims\<close>; bcrypt is
  equality and the codec decodes every body to the same push of three operations.
\<close>

definition demo_ex :: "oidc_claims \<Rightarrow> externals" where
  "demo_ex claims =
     \<lparr>ex_cmp = (=),
      ex_lib = \<lparr>lib_parse = (\<lambda>t. Inr \<lparr>tok_method = MethodRSA, tok_kid = Some ''k1'', tok_claims = claims\<rparr>),
                lib_verify = (\<lambda>now t key. Inr ())\<rparr>,
      ex_codec = \<lparr>Encode = (\<lambda>resp. Inr []), Decode = (\<lambda>raw msg. Inr (message ''victim'' zero_hlc three_ops))\<rparr>,
      ex_compressor = \<lparr>Compress = Inr, Decompress = Inr\<rparr>,
      ex_tmpl = (\<lambda>name data. Inr name), ex_metrics = [], ex_metrics_text = [], ex_ranges = no_shuffle,
      ex_seeds = ([], [])\<rparr>"

definition demo_cfg :: config where
  "demo_cfg = \<lparr>cfg_AdminPasswordHash = ''admin'', cfg_DBEncryptionKey = [], cfg_KeycloakURL = ''https://kc/'',
     cfg_KeycloakRealm = ''home'', cfg_KeycloakClientID = ''app'', cfg_BackupDestination = [], cfg_BackupInterval = [],
     cfg_LogLevel = [], cfg_CompactionThreshold = 1000, cfg_AdminAllowedIPs = [], cfg_DataDir = [], cfg_ListenAddr = [],
     cfg_CRSQLiteExtPath = []\<rparr>"

definition demo_app :: app where
  "demo_app = (fresh_world\<lparr>w_store := key_db\<rparr>, sample_validator)"

definition demo_request :: "string \<Rightarrow> string \<Rightarrow> request" where
  "demo_request mt path =
     \<lparr>rq_method = mt, rq_path = path, rq_query = (\<lambda>_. []),
      rq_header = (\<lambda>h. if h = ''X-Device-Key'' then ''k1:h'' else if h = ''Authorization'' then ''Bearer t'' else []),
      rq_basic = None, rq_remote = ''10.0.0.1:4000'', rq_body = Inr ''body'', rq_json = None, rq_flusher = True,
      rq_env = sample_env, ctx_device_key_id = None, ctx_app_id = None, ctx_user_id = None\<rparr>"

text \<open>C14: Outside registration and key rotation, a request without a device key the server accepts and
without the admin login changes nothing in the database, in the engine's clock or in the streams,
whatever its body, path and method.\<close>

theorem strangers_change_nothing:
  assumes "server_handler ex cfg started r (log, bs, a) = (resp, (log', bs', a'))"
    and "\<forall>k. \<not> device_ok ex r (w_store (fst a)) k" and "\<not> admin_ok ex cfg r bs"
    and "rq_path r \<noteq> ''/devices/register''" "rq_path r \<noteq> ''/devices/rotate-key''"
  shows "same_content (w_store (fst a)) (w_store (fst a')) \<and> w_clock (fst a') = w_clock (fst a)
    \<and> w_notifier (fst a') = w_notifier (fst a)"
proof -
  have "quiet_app a a'"
    using assms(1)
  proof (cases rule: server_cases)
    case router
    then show ?thesis by (cases rule: router_cases) (use assms(2,4,5) in simp_all)
  qed (use assms(3) in blast)+
  then show ?thesis by (simp add: quiet_app_def)
qed

theorem strangers_change_nothing_witness:
  "let (resp, log', bs', a') = server_handler (demo_ex sample_claims) demo_cfg 0
       ((demo_request ''POST'' ''/sync'')\<lparr>rq_header := \<lambda>_. []\<rparr>) ([], [], demo_app)
     in same_content key_db (w_store (fst a')) \<and> rq_body (demo_request ''POST'' ''/sync'') = Inr ''body''"
proof -
  let ?r = "(demo_request ''POST'' ''/sync'')\<lparr>rq_header := \<lambda>_. []\<rparr>"
  obtain resp log' bs' a' where h: "server_handler (demo_ex sample_claims) demo_cfg 0 ?r ([], [], demo_app) = (resp, (log', bs', a'))"
    by (metis prod.collapse)
  have "\<forall>k. \<not> device_ok (demo_ex sample_claims) ?r (w_store (fst demo_app)) k"
    by (simp add: device_ok_def)
  moreover have "\<not> admin_ok (demo_ex sample_claims) demo_cfg ?r []"
    by (simp add: admin_ok_def password_ok_def demo_request_def)
  moreover have "rq_path ?r \<noteq> ''/devices/register''" "rq_path ?r \<noteq> ''/devices/rotate-key''" by (simp_all add: demo_request_def)
  ultimately have "same_content (w_store (fst demo_app)) (w_store (fst a'))" using strangers_change_nothing [OF h] by blast
  then show ?thesis using h by (simp add: demo_app_def demo_request_def)
qed

lemma quiet_keeps_keys: "quiet_app a a' \<Longrightarrow> find_key k (w_store (fst a')) = find_key k (w_store (fst a))"
  by (simp add: quiet_app_def find_key_same_content)

lemma router_key_audit:
  assumes "NewRouter (the_router_deps ex cfg) r a = (resp, a')"
    and "find_key k (w_store (fst a)) = Some dk" "find_key k (w_store (fst a')) \<noteq> Some dk"
  shows "find_key k (w_store (fst a')) \<noteq> None
    \<and> (rq_method r = ''POST'' \<and> rq_path r = ''/devices/rotate-key'' \<and> dk_Status dk = ''active''
         \<and> (\<exists>req. decode_body [''device_key_id'', ''old_secret'', ''new_secret''] r = Some req
              \<and> req ''device_key_id'' = k \<and> ex_cmp ex (dk_KeyHash dk) (req ''old_secret''))
       \<or> rq_method r = ''DELETE'' \<and> k = after_last (CHR ''/'') (rq_path r) \<and> (\<exists>k'. device_ok ex r (w_store (fst a)) k'))"
proof -
  let ?db = "w_store (fst a)" and ?db' = "w_store (fst a')"
  have changed: "find_key k ?db' \<noteq> find_key k ?db" using assms(2,3) by simp
  have quiet: "\<not> quiet_app a a'" using changed quiet_keeps_keys by metis
  from assms(1) show ?thesis
  proof (cases rule: router_cases)
    case none
    then show ?thesis using quiet by blast
  next
    case (register app dev)
    then show ?thesis using crsqlite_auth.Register_existing [OF prod.collapse [symmetric] assms(2)] assms(3) by metis
  next
    case (rotate req)
    have "find_key k (snd (RotateKey (NewAuthStore (env_now (rq_env r) 1)) (ex_cmp ex) (env_gen (rq_env r))
       (req ''device_key_id'') (req ''old_secret'') (req ''new_secret'') ?db)) \<noteq> find_key k ?db"
      using changed rotate(4) by simp
    from crsqlite_auth.RotateKey_changes [OF prod.collapse [symmetric] this]
    have c: "k = req ''device_key_id''" "find_key k ?db' \<noteq> None" "dk_Status dk = ''active''"
        "ex_cmp ex (dk_KeyHash dk) (req ''old_secret'')"
      using assms(2) by (simp_all only: rotate(4) option.inject) (blast+)
    then show ?thesis using rotate(1,2,3) by blast
  next
    case (revoke k' db1)
    have "find_key k (snd (Revoke (NewAuthStore (env_now (rq_env r) 1)) (after_last (CHR ''/'') (rq_path r)) db1))
        \<noteq> find_key k db1"
      using changed find_key_same_content [OF revoke(4)] revoke(5) by simp
    from crsqlite_auth.Revoke_changes [OF prod.collapse [symmetric] this]
    have "k = after_last (CHR ''/'') (rq_path r)" "find_key k ?db' \<noteq> None" unfolding revoke(5) by blast+
    then show ?thesis using revoke(1,3) by blast
  next
    case (sync kid claims w1 resp0)
    have "device_keys (w_store (fst a')) = device_keys (w_store w1)"
      using sync(6) by (rule handler_writes) (simp_all add: sync_writes_def)
    moreover have "same_content ?db (w_store w1)" using sync(5) by (simp add: quiet_app_def)
    ultimately have "find_key k ?db' = find_key k ?db"
      using find_key_same_content [of ?db "w_store w1" k] by (simp add: find_key_def)
    then show ?thesis using changed by simp
  qed
qed

lemma console_key_audit:
  assumes "mux_serve (admin_routes (the_admin_deps ex cfg) seeds) r a = (resp, a')"
    and "find_key k (w_store (fst a)) = Some dk" "find_key k (w_store (fst a')) \<noteq> Some dk"
  shows "find_key k (w_store (fst a')) \<noteq> None \<and> rq_method r = ''DELETE'' \<and> k = after_last (CHR ''/'') (rq_path r)"
proof -
  let ?db = "w_store (fst a)" and ?db' = "w_store (fst a')"
  have changed: "find_key k ?db' \<noteq> find_key k ?db" using assms(2,3) by simp
  have quiet: "\<not> quiet_app a a'" using changed quiet_keeps_keys by metis
  from assms(1) show ?thesis
  proof (cases rule: admin_mux_cases)
    case none
    then show ?thesis using quiet by blast
  next
    case revoke
    then have "?db' = snd (RevokeDevice (after_last (CHR ''/'') (rq_path r)) ?db)" by (simp add: on_db_snd)
    then show ?thesis
      using RevokeDevice_find [OF prod.collapse [symmetric], where k = k and db = ?db and k' = "after_last (CHR ''/'') (rq_path r)"]
        changed revoke(1) assms(2) by auto
  next
    case delete
    then have "find_key k ?db' = find_key k ?db" by (simp add: on_db_snd find_key_def DeleteDoc_keys)
    then show ?thesis using changed by simp
  qed
qed

text \<open>C11: The row of a registered device key changes only on a rotation that names the key and proves the
old secret of an active key, on a DELETE whose path ends in the key, sent with a device key the
server accepts, or on a DELETE in the admin console with the admin login; and no request removes it.\<close>

theorem device_keys_audit:
  assumes "server_handler ex cfg started r (log, bs, a) = (resp, (log', bs', a'))"
    and "find_key k (w_store (fst a)) = Some dk" "find_key k (w_store (fst a')) \<noteq> Some dk"
  shows "find_key k (w_store (fst a')) \<noteq> None
    \<and> (rq_method r = ''POST'' \<and> rq_path r = ''/devices/rotate-key'' \<and> dk_Status dk = ''active''
         \<and> (\<exists>req. decode_body [''device_key_id'', ''old_secret'', ''new_secret''] r = Some req
              \<and> req ''device_key_id'' = k \<and> ex_cmp ex (dk_KeyHash dk) (req ''old_secret''))
       \<or> rq_method r = ''DELETE'' \<and> k = after_last (CHR ''/'') (rq_path r)
         \<and> ((\<exists>k'. device_ok ex r (w_store (fst a)) k') \<or> admin_ok ex cfg r bs))"
  using assms(1)
proof (cases rule: server_cases)
  case none
  then show ?thesis using quiet_keeps_keys [of a a' k] assms(2,3) by simp
next
  case router
  from router_key_audit [OF this assms(2,3)] show ?thesis by simp blast
next
  case console
  from console_key_audit [OF console(2) assms(2,3)] show ?thesis using console(1) by auto
qed

theorem device_keys_audit_witness:
  "\<exists>resp log' bs' a' k'. server_handler (demo_ex sample_claims) demo_cfg 0 (demo_request ''DELETE'' ''/devices/k1'') ([], [], demo_app)
       = (resp, (log', bs', a'))
     \<and> find_key ''k1'' (w_store (fst a')) \<noteq> find_key ''k1'' key_db \<and> find_key ''k1'' (w_store (fst a')) \<noteq> None
     \<and> device_ok (demo_ex sample_claims) (demo_request ''DELETE'' ''/devices/k1'') key_db k'"
proof -
  let ?r = "demo_request ''DELETE'' ''/devices/k1''"
  obtain resp log' bs' a' where h: "server_handler (demo_ex sample_claims) demo_cfg 0 ?r ([], [], demo_app) = (resp, (log', bs', a'))"
    by (metis prod.collapse)
  have "map_option dk_Status (find_key ''k1'' (w_store (fst (snd (snd (snd
      (server_handler (demo_ex sample_claims) demo_cfg 0 ?r ([], [], demo_app)))))))) = Some ''revoked''"
    by code_simp
  then have rv: "map_option dk_Status (find_key ''k1'' (w_store (fst a'))) = Some ''revoked''" using h by simp
  have k: "find_key ''k1'' (w_store (fst demo_app)) = Some (sample_key ''k1'' ''active'')" "w_store (fst demo_app) = key_db"
    by (simp_all add: demo_app_def key_db_def find_key_def sample_key_def)
  have ne: "find_key ''k1'' (w_store (fst a')) \<noteq> Some (sample_key ''k1'' ''active'')"
    using rv by (auto simp: sample_key_def)
  have "\<not> admin_ok (demo_ex sample_claims) demo_cfg ?r []" "rq_method ?r \<noteq> ''POST''"
    by (simp_all add: admin_ok_def password_ok_def demo_request_def)
  then show ?thesis using device_keys_audit [OF h k(1) ne] h ne k by auto
qed

end
