(* ===== verification/Device_Runs.thy ===== *)
theory Device_Runs
  imports Device Admin_Store
begin

text \<open>
  The device keys of the running server: every call on them, by devices and by the admin
  pages, on the metadata tables, in any order and with any errors of the driver.
\<close>

section \<open>Runs\<close>

datatype device_call =
    CallRegister "string \<Rightarrow> err + string" "err + string" string int string string
  | CallVerify string string
  | CallRotate "string \<Rightarrow> err + string" int string string string
  | CallRevoke int string
  | CallAdminRevoke string

fun device_do :: "(string \<Rightarrow> string \<Rightarrow> bool) \<Rightarrow> device_call \<Rightarrow> database \<Rightarrow> database" where
  "device_do cmp (CallRegister gen rand uuid now app dev) db = snd (Register (NewAuthStore now) gen rand uuid now app dev db)"
| "device_do cmp (CallVerify k secret) db = snd (Verify (NewAuthStore 0) cmp k secret db)"
| "device_do cmp (CallRotate gen now k old new) db = snd (RotateKey (NewAuthStore now) cmp gen k old new db)"
| "device_do cmp (CallRevoke now k) db = snd (Revoke (NewAuthStore now) k db)"
| "device_do cmp (CallAdminRevoke k) db = snd (RevokeDevice k db)"

inductive device_run :: "(string \<Rightarrow> string \<Rightarrow> bool) \<Rightarrow> database \<Rightarrow> database \<Rightarrow> bool" for cmp where
  dev_start: "device_run cmp db db"
| dev_call: "device_run cmp db db1 \<Longrightarrow> device_run cmp db (device_do cmp c db1)"
| dev_env: "device_run cmp db db1 \<Longrightarrow> device_run cmp db (db1\<lparr>faults := fs, db_now := t\<rparr>)"

lemma find_key_env [simp]: "find_key k (db\<lparr>faults := fs, db_now := t\<rparr>) = find_key k db"
  by (simp add: find_key_def)

lemma revoked_admin: "crsqlite_auth.revoked k db \<Longrightarrow> crsqlite_auth.revoked k (snd (RevokeDevice k' db))"
  using RevokeDevice_find [of k' db "fst (RevokeDevice k' db)" "snd (RevokeDevice k' db)" k]
  by (auto simp: crsqlite_auth.revoked_def)

lemma revoked_do: "crsqlite_auth.revoked k db \<Longrightarrow> crsqlite_auth.revoked k (device_do cmp c db)"
proof (cases c)
  case (CallRegister gen rand uuid now app dev)
  then show "crsqlite_auth.revoked k db \<Longrightarrow> ?thesis"
    by (simp add: crsqlite_auth.revoked_Register [OF surjective_pairing])
next
  case (CallVerify k' secret)
  then show "crsqlite_auth.revoked k db \<Longrightarrow> ?thesis"
    by (simp add: crsqlite_auth.revoked_Verify [OF surjective_pairing])
next
  case (CallRotate gen now k' old new)
  then show "crsqlite_auth.revoked k db \<Longrightarrow> ?thesis"
    by (simp add: crsqlite_auth.revoked_RotateKey [OF surjective_pairing])
next
  case (CallRevoke now k')
  then show "crsqlite_auth.revoked k db \<Longrightarrow> ?thesis"
    by (simp add: crsqlite_auth.revoked_Revoke [OF surjective_pairing])
next
  case (CallAdminRevoke k')
  then show "crsqlite_auth.revoked k db \<Longrightarrow> ?thesis" by (simp add: revoked_admin)
qed

lemma revoked_run: "device_run cmp db db' \<Longrightarrow> crsqlite_auth.revoked k db \<Longrightarrow> crsqlite_auth.revoked k db'"
  by (induction rule: device_run.induct) (auto simp: crsqlite_auth.revoked_def intro: revoked_do [unfolded crsqlite_auth.revoked_def])

section \<open>Properties\<close>

text \<open>The services run when the driver reports no error.\<close>

lemma Verify_quiet:
  assumes "faults db = []" "has_meta db"
  shows "Verify (NewAuthStore now) cmp k secret db =
    ((case find_key k db of
        None \<Rightarrow> Inl ErrDeviceNotFound
      | Some dk \<Rightarrow> if dk_Status dk \<noteq> ''active'' then Inl ErrDeviceRevoked
          else if cmp (dk_KeyHash dk) secret then Inr () else Inl ErrInvalidSecret), db)"
  using assms
  by (simp add: Verify_def NewAuthStore_def db_GetDeviceKey_def on_meta_def select_key_def bindP_def wrapP_def
      split: option.split)



text \<open>
  Registration gives a working key: the identifier was unknown before, the secret is the 64
  hexadecimal digits of the 32 random bytes, the stored row is the new active key, and the
  pair passes verification.
\<close>

theorem Register_then_Verify:
  assumes "Register (NewAuthStore now) gen (Inr bytes) uuid now app dev db = (Inr (k, secret), db1)"
    and "bcrypt_ok gen cmp" "faults db1 = []" "has_meta db1"
  shows "k = uuid \<and> find_key k db = None \<and> length secret = 2 * length bytes
    \<and> (\<exists>dk. find_key k db1 = Some dk \<and> dk_AppID dk = app \<and> dk_DeviceID dk = dev)
    \<and> fst (Verify (NewAuthStore now') cmp k secret db1) = Inr ()"
proof -
  note reg = crsqlite_auth.Register_Inr [OF assms(1)]
  then have "secret = hex_encode bytes" by (simp add: randomHex_def)
  then show ?thesis
    using reg assms(2) Verify_quiet [OF assms(3,4), of now' cmp k secret]
    by (auto simp: bcrypt_ok_def length_hex_encode)
qed

theorem Register_then_Verify_witness:
  "\<exists>secret db1. Register (NewAuthStore 7) Inr (Inr [CHR 0x00, CHR 0xFF]) ''k9'' 7 ''app1'' ''dev1'' key_db
       = (Inr (''k9'', secret), db1) \<and> secret = ''00ff''
     \<and> fst (Verify (NewAuthStore 8) (\<lambda>h p. h = p) ''k9'' secret db1) = Inr ()"
proof -
  let ?bytes = "[CHR 0x00, CHR 0xFF]"
  have s: "hex_encode ?bytes = ''00ff''" by code_simp
  obtain db1 where R: "Register (NewAuthStore 7) Inr (Inr ?bytes) ''k9'' 7 ''app1'' ''dev1'' key_db
      = (Inr (''k9'', ''00ff''), db1)" and q: "faults db1 = []" "has_meta db1"
    by (simp add: Register_def randomHex_def s NewAuthStore_def db_CreateDeviceKey_def on_meta_def insert_key_def
        key_db_def empty_db_def sample_key_def bindP_def)
  have b: "bcrypt_ok Inr (\<lambda>h p. h = p)" by (simp add: bcrypt_ok_def)
  from Register_then_Verify [OF R b q, of 8] show ?thesis using R by blast
qed

text \<open>
  Revocation is final: once a device or an admin has revoked a key, the key is never accepted
  again, through any later calls that run one at a time, with any errors of the driver.
\<close>

theorem revocation_is_final:
  assumes "Revoke (NewAuthStore now) k db = (Inr (), db1) \<or> RevokeDevice k db = (Inr (), db1)"
    and "device_run cmp db1 db2"
  shows "fst (Verify (NewAuthStore now') cmp k secret db2) \<noteq> Inr ()"
proof -
  have "\<exists>dk. find_key k db1 = Some dk \<and> dk_Status dk = ''revoked''"
    using assms(1)
  proof
    assume "Revoke (NewAuthStore now) k db = (Inr (), db1)"
    then show ?thesis by (rule crsqlite_auth.Revoke_Inr)
  next
    assume r: "RevokeDevice k db = (Inr (), db1)"
    obtain n where "sql (on_meta (revoke_row k)) db = (Inr n, db1)" "n \<noteq> 0"
      using r by (auto simp: RevokeDevice_def bindP_eq_Inr split: if_splits)
    then obtain db0 where "same_content db db0" "revoke_row k db0 = (Inr n, db1)" by (auto elim: sql_on_meta_Inr)
    moreover from this have "db1 = snd (revoke_row k db0)" by simp
    moreover have "find_key k db0 \<noteq> None"
      using calculation \<open>n \<noteq> 0\<close> by (auto simp: revoke_row_def find_key_None filter_empty_conv)
    ultimately show ?thesis using find_key_revoke [of k k db0] by auto
  qed
  then have "crsqlite_auth.revoked k db2"
    using revoked_run [OF assms(2)] by (simp add: crsqlite_auth.revoked_def)
  then show ?thesis
    using crsqlite_auth.Verify_Inr [of now' cmp k secret db2 "()" "snd (Verify (NewAuthStore now') cmp k secret db2)"]
    by (auto simp: crsqlite_auth.revoked_def prod_eq_iff)
qed

theorem revocation_is_final_witness:
  "\<exists>db1. RevokeDevice ''k1'' key_db = (Inr (), db1)
     \<and> fst (Verify (NewAuthStore 9) (=) ''k1'' ''h'' (device_do (=) (CallRotate Inr 8 ''k1'' ''h'' ''new'') db1)) \<noteq> Inr ()"
proof -
  obtain db1 where R: "RevokeDevice ''k1'' key_db = (Inr (), db1)"
    by (simp add: RevokeDevice_def on_meta_def revoke_row_def key_db_def empty_db_def sample_key_def)
  have "device_run (=) db1 (device_do (=) (CallRotate Inr 8 ''k1'' ''h'' ''new'') db1)"
    by (rule dev_call [OF dev_start])
  from revocation_is_final [OF disjI2 [OF R] this] show ?thesis using R by blast
qed

end
