(* ===== verification/Sync_Http.thy ===== *)
theory Sync_Http
  imports Access Device_Runs
begin

text \<open>
  A sync over HTTP, from the request to the log: the route, the two guards, the decoding with the
  ids of the token, the engine and the event.  \<open>sync_served\<close> joins the theorems about the engine
  with the checks in front of it.
\<close>

section \<open>The route\<close>

lemma find_main:
  "mux_find (main_routes ex cfg started) ''POST'' ''/sync'' = Some (([], ''/''), beside_rates (NewRouter (the_router_deps ex cfg)))"
  "mux_find (main_routes ex cfg started) ''POST'' ''/sync/'' = Some (([], ''/''), beside_rates (NewRouter (the_router_deps ex cfg)))"
  by (simp_all add: mux_find_def main_routes_def longest_def path_matches_def ends_slash_def method_matches_def)

lemma find_app:
  "mux_find (app_routes d) ''POST'' ''/sync'' = Some ((''POST'', ''/sync''),
     RequireDeviceKey (svc_Verify (rd_DeviceSvc d)) (RequireJWT (rd_OIDCValidator d) (rd_SyncHandler d)))"
  by (simp add: mux_find_def app_routes_def Let_def longest_def path_matches_def ends_slash_def method_matches_def)

lemma clean_sync: "cleanPath ''/sync'' = ''/sync''"
  by code_simp

lemma serve_found:
  assumes "mux_find es (rq_method r) (rq_path r) = Some e" "cleanPath (rq_path r) = rq_path r"
    and "exact_match (Some e) (rq_path r) \<or> \<not> exact_match (mux_find es (rq_method r) (rq_path r @ ''/'')) (rq_path r @ ''/'')"
  shows "mux_serve es r w = snd e r w"
  using assms by (auto simp: mux_serve_def Let_def)

lemma sync_route:
  assumes "rq_method r = ''POST''" "rq_path r = ''/sync''"
  shows "server_handler ex cfg started r (log, bs, a) =
    RequestLogger (beside_rates (RequireDeviceKey (svc_Verify (the_service ex)) (RequireJWT (the_validate ex)
      (on_world_handler (SyncHandler_ServeHTTP (the_sync_handler ex cfg)))))) r (log, bs, a)"
proof -
  let ?d = "the_router_deps ex cfg" and ?r = "r\<lparr>rq_flusher := True\<rparr>"
  have f: "mux_find (app_routes ?d) (rq_method ?r) (rq_path ?r) = Some ((''POST'', ''/sync''),
      RequireDeviceKey (svc_Verify (rd_DeviceSvc ?d)) (RequireJWT (rd_OIDCValidator ?d) (rd_SyncHandler ?d)))"
    by (simp add: assms find_app)
  have c: "cleanPath (rq_path ?r) = rq_path ?r" by (simp add: assms clean_sync)
  have app: "NewRouter ?d ?r w = RequireDeviceKey (svc_Verify (the_service ex)) (RequireJWT (the_validate ex)
      (on_world_handler (SyncHandler_ServeHTTP (the_sync_handler ex cfg)))) ?r w" for w
    using serve_found [OF f c] by (simp add: NewRouter_def exact_match_def assms the_router_deps_def)
  have m: "mux_find (main_routes ex cfg started) (rq_method ?r) (rq_path ?r) = Some (([], ''/''), beside_rates (NewRouter ?d))"
    by (simp add: assms find_main)
  have "mux_serve (main_routes ex cfg started) ?r s = beside_rates (NewRouter ?d) ?r s" for s
    using serve_found [OF m c] by (simp add: exact_match_def assms find_main)
  then show ?thesis by (simp add: server_handler_def RequestLogger_def beside_rates_def app split: prod.split)
qed

section \<open>The guards let it pass\<close>

lemma device_passes:
  assumes "device_ok ex r (w_store (fst s)) k" "steady (w_store (fst s))"
  shows "RequireDeviceKey (svc_Verify (the_service ex)) nxt r s = nxt (r\<lparr>ctx_device_key_id := Some k\<rparr>) s"
proof -
  obtain secret dk where d: "rq_header r ''X-Device-Key'' = k @ CHR '':'' # secret" "CHR '':'' \<notin> set k"
    "find_key k (w_store (fst s)) = Some dk" "dk_Status dk = ''active''" "ex_cmp ex (dk_KeyHash dk) secret"
    using assms(1) by (auto simp: device_ok_def)
  have "on_db (Verify (NewAuthStore 0) (ex_cmp ex) k secret) s = (Inr (), s)"
    using Verify_quiet [of "w_store (fst s)" 0 "ex_cmp ex" k secret] assms(2) d
    by (simp add: on_db_Inr steady_def)
  then show ?thesis using d(1,2) by (simp add: RequireDeviceKey_def)
qed

lemma jwt_passes:
  assumes "token_ok ex r (snd s) claims"
  obtains tok v where "\<And>nxt. RequireJWT (the_validate ex) nxt r s =
    (case nxt (r\<lparr>ctx_app_id := Some (cl_AppID claims), ctx_user_id := Some (cl_Subject claims)\<rparr>) (fst s, v) of
       (resp, s') \<Rightarrow> (log_app (cl_AppID claims) resp, s'))"
    "rq_header r ''Authorization'' = ''Bearer '' @ tok" "Validate (ex_lib ex) (rq_env r) tok (snd s) = (Inr claims, v)"
proof -
  obtain tok v where t: "rq_header r ''Authorization'' = ''Bearer '' @ tok" "cl_AppID claims \<noteq> []"
    "Validate (ex_lib ex) (rq_env r) tok (snd s) = (Inr claims, v)"
    using assms by (auto simp: token_ok_def)
  show thesis
    by (rule that [OF _ t(1,3)])
      (simp only: RequireJWT_def Let_def t(1,3) HasPrefix_append TrimPrefix_append the_validate_def on_oidc_def
        prod.case sum.case simp_thms if_False t(2))
qed

section \<open>Properties\<close>

definition encodes :: "externals \<Rightarrow> bool" where
  "encodes ex \<longleftrightarrow> (\<forall>resp. \<exists>bytes out. Encode (ex_codec ex) resp = Inr bytes \<and> Compress (ex_compressor ex) bytes = Inr out)"

lemma demo_encodes: "encodes (demo_ex claims)"
  by (simp add: encodes_def demo_ex_def)

lemma demo_device: "device_ok (demo_ex claims) (demo_request m p) (w_store (fst demo_app)) ''k1''"
  by (simp add: device_ok_def demo_ex_def demo_request_def demo_app_def key_db_def find_key_def sample_key_def)

lemma demo_token: "token_ok (demo_ex sample_claims) (demo_request m p) (snd demo_app) sample_claims"
proof -
  have "fst (Validate (ex_lib (demo_ex sample_claims)) sample_env ''t'' sample_validator) = Inr sample_claims" by code_simp
  then obtain v where "Validate (ex_lib (demo_ex sample_claims)) sample_env ''t'' sample_validator = (Inr sample_claims, v)"
    by (metis prod.collapse)
  then show ?thesis by (auto simp: token_ok_def demo_request_def demo_app_def sample_claims_def)
qed

definition nobody :: oidc_claims where
  "nobody = sample_claims\<lparr>cl_Subject := []\<rparr>"

lemma demo_nobody: "token_ok (demo_ex nobody) (demo_request m p) (snd demo_app) nobody"
proof -
  have "fst (Validate (ex_lib (demo_ex nobody)) sample_env ''t'' sample_validator) = Inr nobody" by code_simp
  then obtain v where "Validate (ex_lib (demo_ex nobody)) sample_env ''t'' sample_validator = (Inr nobody, v)"
    by (metis prod.collapse)
  then show ?thesis by (auto simp: token_ok_def demo_request_def demo_app_def nobody_def sample_claims_def)
qed

lemma demo_steady: "steady (w_store (fst demo_app))"
  by (simp add: steady_def demo_app_def key_db_def empty_db_def)


lemma demo_push: "length (push_log 1000 three_ops []) = 3"
proof -
  have 3: "length (apply_ops insert_ignore three_ops []) = 3" by code_simp
  then have "length (filter (\<lambda>r. row_status r = ''active'') (apply_ops insert_ignore three_ops [])) \<le> 3"
    by (metis length_filter_le)
  then show ?thesis using 3 by (simp add: push_log_def Let_def three_ops_def)
qed

lemma demo_claims:
  assumes "token_ok (demo_ex sample_claims) (demo_request m p) (snd demo_app) claims"
  shows "claims = sample_claims"
proof -
  have "fst (Validate (ex_lib (demo_ex sample_claims)) sample_env ''t'' sample_validator) = Inr sample_claims" by code_simp
  then show ?thesis using assms by (auto simp: token_ok_def demo_request_def demo_app_def)
qed

lemma authenticated_sync:
  assumes "rq_method r = ''POST''" "rq_path r = ''/sync''"
    and "device_ok ex r (w_store (fst a)) kid" "token_ok ex r (snd a) claims"
    and "steady (w_store (fst a))" "encodes ex"
    and "rq_body r = Inr bytes" "Decompress (ex_compressor ex) (take body_limit bytes) = Inr raw"
      "Decode (ex_codec ex) raw zero_message = Inr msg" "\<forall>op \<in> set (msg_Ops msg). marshalable (Value op)"
    and u: "u = (if cl_Subject claims = [] then msg_UserID msg else cl_Subject claims)"
  shows "\<exists>resp log' a'. server_handler ex cfg started r (log, bs, a) = (resp, (log', bs, a')) \<and> rs_status resp = 200
    \<and> log_of (cl_AppID claims) u (msg_DatasetID msg) (w_store (fst a'))
        = push_log (cfg_CompactionThreshold cfg) (msg_Ops msg)
            (log_of (cl_AppID claims) u (msg_DatasetID msg) (w_store (fst a)))"
proof -
  let ?logged = "r\<lparr>rq_flusher := True\<rparr>"
  let ?r = "?logged\<lparr>ctx_device_key_id := Some kid, ctx_app_id := Some (cl_AppID claims), ctx_user_id := Some (cl_Subject claims)\<rparr>"
  let ?h = "the_sync_handler ex cfg" and ?msg = "msg\<lparr>msg_AppID := cl_AppID claims, msg_UserID := u\<rparr>"
  have app: "cl_AppID claims \<noteq> []" using assms(4) by (auto simp: token_ok_def)
  have m: "read_message ?h ?r = Inr ?msg"
    using assms(7-9) app u
    by (simp add: read_message_def trusted_def Let_def ctx_value_def the_sync_handler_def NewSyncHandler_def WithEventWriter_def)
  obtain resp w1 where S: "Sync (the_engine ex cfg) (env_wall (rq_env r)) ?msg (fst a) = (Inr resp, w1)"
    "log_of (cl_AppID claims) u (msg_DatasetID msg) (w_store w1)
        = push_log (cfg_CompactionThreshold cfg) (msg_Ops msg)
            (log_of (cl_AppID claims) u (msg_DatasetID msg) (w_store (fst a)))"
    using Sync_steady [OF assms(5), of ?msg "ex_ranges ex" Notify "cfg_CompactionThreshold cfg" "env_wall (rq_env r)"] assms(10)
    by (auto simp: the_engine_def)
  let ?w2 = "record_event ?h ?r ?msg w1"
  have t: "tables (w_store ?w2) = tables (w_store w1)"
    using tables_kept(5) by (auto simp: record_event_def on_store_def split: prod.split) (metis snd_conv)
  obtain enc out where "Encode (ex_codec ex) resp = Inr enc" "Compress (ex_compressor ex) enc = Inr out"
    using assms(6) unfolding encodes_def by blast
  then have st: "rs_status (write_response ?h resp) = 200"
    by (simp add: write_response_def the_sync_handler_def NewSyncHandler_def WithEventWriter_def reply_def)
  have H: "on_world_handler (SyncHandler_ServeHTTP ?h) ?r (fst a, v) = (write_response ?h resp, (?w2, v))" for v
    using assms(1) m S(1) by (simp add: on_world_handler_def SyncHandler_ServeHTTP_def)
  have tok: "token_ok ex (?logged\<lparr>ctx_device_key_id := Some kid\<rparr>) (snd a) claims" using assms(4) by (simp add: token_ok_def)
  obtain v where J: "RequireJWT (the_validate ex) nxt (?logged\<lparr>ctx_device_key_id := Some kid\<rparr>) a =
      (case nxt ?r (fst a, v) of (resp, s') \<Rightarrow> (log_app (cl_AppID claims) resp, s'))" for nxt
    using jwt_passes [OF tok] by auto
  have "RequireDeviceKey (svc_Verify (the_service ex)) (RequireJWT (the_validate ex) (on_world_handler (SyncHandler_ServeHTTP ?h))) ?logged a
      = (log_app (cl_AppID claims) (write_response ?h resp), (?w2, v))"
    using device_passes [of ex ?logged a kid] assms(3,5) by (simp add: J H)
  then show ?thesis
    using st S(2) t by (auto simp: sync_route [OF assms(1,2)] RequestLogger_def beside_rates_def log_of_def table_rows_def)
qed

lemma demo_served:
  "\<exists>resp log' a'. server_handler (demo_ex sample_claims) demo_cfg 0 (demo_request ''POST'' ''/sync'') ([], [], demo_app)
       = (resp, (log', [], a')) \<and> rs_status resp = 200
     \<and> log_of ''app'' ''user1'' ''ds1'' (w_store (fst a')) = push_log 1000 three_ops []"
proof -
  let ?r = "demo_request ''POST'' ''/sync''" and ?ex = "demo_ex sample_claims" and ?msg = "message ''victim'' zero_hlc three_ops"
  have "log_of ''app'' ''user1'' ''ds1'' key_db = []"
    by (simp add: key_db_def log_of_def table_rows_def empty_db_def)
  moreover have "rq_method ?r = ''POST''" "rq_path ?r = ''/sync''" "rq_body ?r = Inr ''body''" by (simp_all add: demo_request_def)
  moreover have "Decompress (ex_compressor ?ex) (take body_limit ''body'') = Inr ''body''"
    "Decode (ex_codec ?ex) ''body'' zero_message = Inr ?msg"
    by (simp_all add: demo_ex_def body_limit_def)
  moreover have "\<forall>op \<in> set (msg_Ops ?msg). marshalable (Value op)" "cl_Subject sample_claims \<noteq> []"
    using three_ops_marshalable by (simp_all add: sample_claims_def)
  moreover have "w_store (fst demo_app) = key_db" "cl_AppID sample_claims = ''app''" "cl_Subject sample_claims = ''user1''"
    "cfg_CompactionThreshold demo_cfg = 1000"
    by (simp_all add: demo_app_def sample_claims_def demo_cfg_def)
  ultimately show ?thesis
    using authenticated_sync [where r = ?r and ex = ?ex and a = demo_app and kid = "''k1''" and claims = sample_claims
        and bytes = "''body''" and raw = "''body''" and cfg = demo_cfg and started = 0 and log = "[]" and bs = "[]" and msg = ?msg]
      demo_device demo_token demo_steady demo_encodes demo_push
    by auto
qed



text \<open>A token without a subject lets the client choose whose data it writes: the operations are in the
log of the user the message names, in the app of the token.\<close>

theorem empty_subject_trusts_message:
  assumes "rq_method r = ''POST''" "rq_path r = ''/sync''"
    and "device_ok ex r (w_store (fst a)) kid" "token_ok ex r (snd a) claims" "cl_Subject claims = []"
    and "steady (w_store (fst a))" "encodes ex"
    and "rq_body r = Inr bytes" "Decompress (ex_compressor ex) (take body_limit bytes) = Inr raw"
      "Decode (ex_codec ex) raw zero_message = Inr msg" "\<forall>op \<in> set (msg_Ops msg). marshalable (Value op)"
  shows "\<exists>resp log' a'. server_handler ex cfg started r (log, bs, a) = (resp, (log', bs, a')) \<and> rs_status resp = 200
    \<and> log_of (cl_AppID claims) (msg_UserID msg) (msg_DatasetID msg) (w_store (fst a'))
        = push_log (cfg_CompactionThreshold cfg) (msg_Ops msg)
            (log_of (cl_AppID claims) (msg_UserID msg) (msg_DatasetID msg) (w_store (fst a)))"
  using authenticated_sync [OF assms(1-4,6-11)] assms(5) by simp

theorem empty_subject_trusts_message_witness:
  "\<exists>resp log' a'. server_handler (demo_ex nobody) demo_cfg 0 (demo_request ''POST'' ''/sync'') ([], [], demo_app)
       = (resp, (log', [], a')) \<and> rs_status resp = 200
     \<and> length (log_of ''app'' ''victim'' ''ds1'' (w_store (fst a'))) = 3"
proof -
  let ?r = "demo_request ''POST'' ''/sync''" and ?ex = "demo_ex nobody" and ?msg = "message ''victim'' zero_hlc three_ops"
  have "log_of ''app'' ''victim'' ''ds1'' key_db = []"
    by (simp add: key_db_def log_of_def table_rows_def empty_db_def)
  moreover have "rq_method ?r = ''POST''" "rq_path ?r = ''/sync''" "rq_body ?r = Inr ''body''" by (simp_all add: demo_request_def)
  moreover have "Decompress (ex_compressor ?ex) (take body_limit ''body'') = Inr ''body''"
    "Decode (ex_codec ?ex) ''body'' zero_message = Inr ?msg"
    by (simp_all add: demo_ex_def body_limit_def)
  moreover have "\<forall>op \<in> set (msg_Ops ?msg). marshalable (Value op)" "cl_Subject nobody = []"
    using three_ops_marshalable by (simp_all add: nobody_def)
  moreover have "w_store (fst demo_app) = key_db" "cl_AppID nobody = ''app''" "cfg_CompactionThreshold demo_cfg = 1000"
    by (simp_all add: demo_app_def nobody_def sample_claims_def demo_cfg_def)
  ultimately show ?thesis
    using empty_subject_trusts_message [where r = ?r and ex = ?ex and a = demo_app and kid = "''k1''" and claims = nobody
        and bytes = "''body''" and raw = "''body''" and cfg = demo_cfg and started = 0 and log = "[]" and bs = "[]" and msg = ?msg]
      demo_device demo_nobody demo_steady demo_encodes demo_push
    by auto
qed

text \<open>C4: A request changes a log table only as an authenticated sync: it is a POST of /sync with a device key
and a token the server accepts, and the table belongs to the app of the token and, when the token
names a user, to that user.\<close>

theorem tenant_isolation:
  assumes "server_handler ex cfg started r (log, bs, a) = (resp, (log', bs', a'))"
    and "tables (w_store (fst a')) k \<noteq> tables (w_store (fst a)) k"
  shows "rq_method r = ''POST'' \<and> rq_path r = ''/sync'' \<and> (\<exists>kid. device_ok ex r (w_store (fst a)) kid)
    \<and> (\<exists>claims u d. token_ok ex r (snd a) claims \<and> k = table_key (datasetTable (cl_AppID claims) u d)
         \<and> (cl_Subject claims = [] \<or> u = cl_Subject claims))"
proof -
  have quiet: "\<not> quiet_app a a'" using assms(2) by (auto simp: quiet_app_def same_contentD)
  from assms(1) show ?thesis
  proof (cases rule: server_cases)
    case none
    then show ?thesis using quiet by blast
  next
    case router
    then show ?thesis
    proof (cases rule: router_cases)
      case (sync kid claims w1 resp0)
      have t: "tables (w_store w1) = tables (w_store (fst a))" using sync(5) by (simp add: quiet_app_def same_contentD)
      from sync(6) show ?thesis
      proof (cases rule: handler_writes)
        case 1
        then show ?thesis using t assms(2) by simp
      next
        case (2 msg)
        have "cl_AppID claims \<noteq> []" using sync(4) by (auto simp: token_ok_def)
        note ids = read_message_ids [OF 2(1) this]
        obtain d where "k = table_key (datasetTable (msg_AppID msg) (msg_UserID msg) d)"
          using 2(2) assms(2) t by (auto simp: sync_writes_def)
        then have "k = table_key (datasetTable (cl_AppID claims) (msg_UserID msg) d)
            \<and> (cl_Subject claims = [] \<or> msg_UserID msg = cl_Subject claims)" using ids by auto
        moreover have "device_ok ex r (w_store (fst a)) kid" "token_ok ex r (snd a) claims" using sync(3,4) by simp_all
        ultimately show ?thesis using sync(1,2) by auto
      qed
    next
      case (revoke k' db1)
      then show ?thesis using assms(2) by (simp add: tables_kept same_contentD)
    qed (use quiet assms(2) in \<open>simp_all add: tables_kept\<close>)
  next
    case console
    from console(2) show ?thesis
      by (cases rule: admin_mux_cases) (use quiet assms(2) in \<open>simp_all add: on_db_snd tables_kept DeleteDoc_keys\<close>)
  qed
qed

theorem tenant_isolation_witness:
  "\<exists>resp log' a' k u d. server_handler (demo_ex sample_claims) demo_cfg 0 (demo_request ''POST'' ''/sync'') ([], [], demo_app)
       = (resp, (log', [], a'))
     \<and> tables (w_store (fst a')) k \<noteq> tables (w_store (fst demo_app)) k
     \<and> k = table_key (datasetTable ''app'' u d) \<and> u = ''user1''"
proof -
  let ?k = "table_key (datasetTable ''app'' ''user1'' ''ds1'')"
  obtain resp log' a' where h: "server_handler (demo_ex sample_claims) demo_cfg 0 (demo_request ''POST'' ''/sync'') ([], [], demo_app)
       = (resp, (log', [], a'))" "log_of ''app'' ''user1'' ''ds1'' (w_store (fst a')) \<noteq> []"
    using demo_served demo_push by fastforce
  then have k: "tables (w_store (fst a')) ?k \<noteq> tables (w_store (fst demo_app)) ?k"
    by (cases "tables (w_store (fst a')) ?k") (auto simp: log_of_def table_rows_def demo_app_def key_db_def empty_db_def)
  from tenant_isolation [OF h(1) k] obtain claims u d where "token_ok (demo_ex sample_claims) (demo_request ''POST'' ''/sync'')
      (snd demo_app) claims" "?k = table_key (datasetTable (cl_AppID claims) u d)" "cl_Subject claims = [] \<or> u = cl_Subject claims"
    by blast
  moreover from this have "claims = sample_claims" by (intro demo_claims)
  ultimately have "?k = table_key (datasetTable ''app'' u d)" "u = ''user1''" by (auto simp: sample_claims_def)
  then show ?thesis using h(1) k by blast
qed

end
