(* ===== verification/Server_Runs.thy ===== *)
theory Server_Runs
  imports Sync_Http Backend_Runs
begin

text \<open>
  The invariant of the whole server over any sequence of requests, by anybody, with any errors of
  the driver and any orders of Go's maps.
\<close>

section \<open>What every request keeps\<close>

text \<open>The tables stay well formed, no operation and no key disappears, and key ids stay unique.\<close>

definition sound :: "database \<Rightarrow> database \<Rightarrow> bool" where
  "sound db db' \<longleftrightarrow>
     ok_step db db' \<and> durable db db'
     \<and> (distinct (key_ids db) \<longrightarrow> distinct (key_ids db')) \<and> set (key_ids db) \<subseteq> set (key_ids db')"

lemma sound_refl [simp]: "sound db db"
  using reflp_ok_step reflp_durable by (simp add: sound_def reflp_def)

lemma sound_trans: "sound a b \<Longrightarrow> sound b c \<Longrightarrow> sound a c"
  unfolding sound_def by (meson transp_ok_step transp_durable transpD subset_trans)

lemma sound_content: "same_content db db' \<Longrightarrow> sound db db'"
  by (simp add: sound_def same_content_ok_step same_content_durable key_ids_def same_contentD)

lemma sound_env: "sound db (db\<lparr>faults := fs, db_now := t\<rparr>)"
  by (simp add: sound_def ok_step_def db_ok_def durable_def key_ids_def table_rows_def)

lemma sound_tables: "tables db' = tables db \<Longrightarrow> (\<And>rs'. snapshots db' = Some rs' \<Longrightarrow> \<exists>P rs. snapshots db = Some rs \<and> rs' = filter P rs)
    \<Longrightarrow> (distinct (key_ids db) \<longrightarrow> distinct (key_ids db')) \<Longrightarrow> set (key_ids db) \<subseteq> set (key_ids db') \<Longrightarrow> sound db db'"
  by (fastforce simp: sound_def ok_step_def db_ok_def durable_def distinct_map_filter)

lemma sound_key_change: "key_change db db' \<Longrightarrow> sound db db'"
  by (rule sound_tables) (auto simp: key_change_def intro: exI [of _ "\<lambda>_. True"])

lemma sound_DeleteDoc: "sound db (snd (DeleteDoc d u k db))"
proof (cases rule: sql_cases [of "on_snapshots (\<lambda>rs. (Inr (), filter (\<lambda>r. \<not> is_doc d u k r) rs))" db])
  case (fault fs)
  then show ?thesis by (simp add: DeleteDoc_def sound_content)
next
  case (ran db')
  have "sound db' (snd (on_snapshots (\<lambda>rs. (Inr (), filter (\<lambda>r. \<not> is_doc d u k r) rs)) db'))"
    by (cases "snapshots db'") (auto simp: on_snapshots_def key_ids_def intro!: sound_tables)
  then show ?thesis using sound_trans [OF sound_content [OF ran(1)]] ran(2) by (simp add: DeleteDoc_def)
qed

lemma engine_sound: "sound (w_store w) (w_store (snd (Sync (the_engine ex cfg) wall msg w)))"
proof -
  let ?e = "the_engine ex cfg" and ?w' = "snd (Sync (the_engine ex cfg) wall msg w)"
  note sel = the_engine_def NewEngine_def crsqlite_def
  have "ok_step (w_store w) (w_store ?w')"
    by (rule Sync_keeps_store [OF reflp_ok_step transp_ok_step])
      (simp_all add: sel ok_inv.MergeOps_keeps ok_inv.GetDelta_keeps ok_inv.GetSnapshot_keeps ok_inv.OpCount_keeps
        ok_inv.Compact_keeps keeps_weaken [OF SchemaVersion_content] same_content_ok_step)
  moreover have "durable (w_store w) (w_store ?w')"
    by (rule Sync_keeps_store [OF reflp_durable transp_durable])
      (simp_all add: sel durable_inv.MergeOps_keeps durable_inv.GetDelta_keeps durable_inv.GetSnapshot_keeps
        durable_inv.OpCount_keeps durable_inv.Compact_keeps keeps_weaken [OF SchemaVersion_content] same_content_durable)
  moreover have "key_ids (w_store ?w') = key_ids (w_store w)"
    using engine_writes [of msg w ex cfg wall] by (simp add: sync_writes_def key_ids_def)
  ultimately show ?thesis by (simp add: sound_def)
qed

lemma sync_sound:
  assumes "SyncHandler_ServeHTTP (the_sync_handler ex cfg) r w = (resp, w')"
  shows "sound (w_store w) (w_store w')"
proof -
  have ev: "sound (w_store w1) (w_store (record_event (the_sync_handler ex cfg) r msg w1))" for msg w1
    using sound_key_change [OF key_changes(5)]
    by (auto simp: record_event_def on_store_def split: prod.split) (metis snd_conv)
  show ?thesis
  proof (cases "rq_method r = ''POST'' \<and> (\<exists>msg. read_message (the_sync_handler ex cfg) r = Inr msg)")
    case False
    then have "w' = w" using assms by (auto simp: SyncHandler_ServeHTTP_def split: sum.splits if_splits)
    then show ?thesis by simp
  next
    case True
    then obtain msg where m: "read_message (the_sync_handler ex cfg) r = Inr msg" by blast
    obtain x w1 where S: "Sync (the_engine ex cfg) (env_wall (rq_env r)) msg w = (x, w1)"
      by (cases "Sync (the_engine ex cfg) (env_wall (rq_env r)) msg w")
    have 1: "sound (w_store w) (w_store w1)" using engine_sound [of w ex cfg "env_wall (rq_env r)" msg] S by simp
    have "w' = w1 \<or> w' = record_event (the_sync_handler ex cfg) r msg w1"
      using assms True m S by (cases x) (auto simp: SyncHandler_ServeHTTP_def)
    then show ?thesis using 1 sound_trans [OF 1 ev] by auto
  qed
qed

lemma request_sound:
  assumes "server_handler ex cfg started r (log, bs, a) = (resp, (log', bs', a'))"
  shows "sound (w_store (fst a)) (w_store (fst a'))"
proof -
  have q: "quiet_app a b \<Longrightarrow> sound (w_store (fst a)) (w_store (fst b))" for b
    by (simp add: quiet_app_def sound_content)
  from assms show ?thesis
  proof (cases rule: server_cases)
    case none
    then show ?thesis by (rule q)
  next
    case router
    then show ?thesis
    proof (cases rule: router_cases)
      case none
      then show ?thesis by (rule q)
    next
      case (revoke k db1)
      then show ?thesis
        using sound_trans [OF sound_content [OF revoke(4)] sound_key_change [OF key_changes(3)]] by simp
    next
      case (sync k claims w1 resp0)
      have "sound (w_store (fst a)) (w_store w1)" using q [OF sync(5)] by simp
      then show ?thesis by (rule sound_trans) (rule sync_sound [OF sync(6)])
    qed (simp_all add: sound_key_change key_changes)
  next
    case console
    from console(2) show ?thesis
      by (cases rule: admin_mux_cases) (simp_all add: q on_db_snd sound_DeleteDoc sound_key_change key_changes)
  qed
qed

section \<open>Runs of the server\<close>

inductive server_run :: "config \<Rightarrow> int \<Rightarrow> server_state \<Rightarrow> server_state \<Rightarrow> bool" for cfg started where
  srv_start: "server_run cfg started s s"
| srv_request: "server_run cfg started s s1 \<Longrightarrow> server_run cfg started s (snd (server_handler ex cfg started r s1))"
| srv_env: "server_run cfg started s (log, bs, w, v) \<Longrightarrow>
     server_run cfg started s (log, bs, w\<lparr>w_store := (w_store w)\<lparr>faults := fs, db_now := t\<rparr>\<rparr>, v)"

definition state_db :: "server_state \<Rightarrow> database" where
  "state_db s = w_store (fst (snd (snd s)))"

text \<open>Over any sequence of requests by anybody, with any errors of the driver, the server's tables stay well
formed (operation ids unique in each log, at most one snapshot of a document), no operation
disappears from a log and no device key from the table, key ids stay unique, and the log of
requests only grows.\<close>

theorem server_invariant:
  assumes "server_run cfg started s s'" "db_ok (state_db s)" "distinct (key_ids (state_db s))"
  shows "db_ok (state_db s') \<and> durable (state_db s) (state_db s') \<and> distinct (key_ids (state_db s'))
    \<and> set (key_ids (state_db s)) \<subseteq> set (key_ids (state_db s')) \<and> (\<exists>es. fst s' = fst s @ es)"
proof -
  have "sound (state_db s) (state_db s') \<and> (\<exists>es. fst s' = fst s @ es)"
    using assms(1)
  proof (induction rule: server_run.induct)
    case (srv_request s s1 ex r)
    obtain log bs a where s1: "s1 = (log, bs, a)" by (cases s1)
    obtain resp log' bs' a' where h: "server_handler ex cfg started r (log, bs, a) = (resp, (log', bs', a'))"
      by (metis prod.collapse)
    have "sound (state_db s1) (w_store (fst a'))" using request_sound [OF h] by (simp add: state_db_def s1)
    moreover obtain e where "log' = log @ [e]" using server_logs [OF h] by blast
    ultimately show ?case using srv_request.IH h by (auto simp: state_db_def s1 intro: sound_trans)
  next
    case (srv_env s log bs w v fs t)
    then show ?case using sound_env by (auto simp: state_db_def intro: sound_trans)
  qed simp
  then show ?thesis using assms(2,3) by (simp add: sound_def ok_step_def)
qed

theorem server_invariant_witness:
  "\<exists>s'. server_run demo_cfg 0 ([], [], demo_app) s' \<and> db_ok (state_db s')
     \<and> length (log_of ''app'' ''user1'' ''ds1'' (state_db s')) = 3 \<and> ''k1'' \<in> set (key_ids (state_db s'))"
proof -
  let ?s = "([], [], demo_app) :: server_state"
  obtain resp log' a' where h: "server_handler (demo_ex sample_claims) demo_cfg 0 (demo_request ''POST'' ''/sync'') ?s
      = (resp, (log', [], a'))" "log_of ''app'' ''user1'' ''ds1'' (w_store (fst a')) = push_log 1000 three_ops []"
    using demo_served by blast
  have run: "server_run demo_cfg 0 ?s (log', [], a')"
    using srv_request [OF srv_start, of demo_cfg 0 ?s "demo_ex sample_claims" "demo_request ''POST'' ''/sync''"] h(1) by simp
  have db: "state_db ?s = key_db" by (simp add: state_db_def demo_app_def)
  have "db_ok (state_db ?s)" "distinct (key_ids (state_db ?s))" "''k1'' \<in> set (key_ids (state_db ?s))"
    unfolding db by (simp_all add: key_db_def key_ids_def sample_key_def db_ok_def empty_db_def)
  moreover from server_invariant [OF run this(1,2)] this(3)
  have "db_ok (state_db (log', [], a'))" "''k1'' \<in> set (key_ids (state_db (log', [], a')))" by auto
  ultimately show ?thesis using run h(2) demo_push by (intro exI [of _ "(log', [], a')"]) (simp add: state_db_def)
qed

end
