(* ===== verification/Event_Streams.thy ===== *)
theory Event_Streams
  imports Server_Runs
begin

text \<open>
  The event streams of the running server: which requests open one, and how a request touches
  the broadcaster the streams hang on.
\<close>

section \<open>Which handlers answer with a stream\<close>

lemma error_no_stream [simp]: "rs_body (http_error m c) \<noteq> BStream a u"
  by (simp add: http_error_def)

lemma beside_rates_body: "rs_body (fst (beside_rates h r s)) = rs_body (fst (h r (snd s)))"
  by (simp add: beside_rates_def split: prod.split)

lemma fragment_body: "\<not> is_stream (rs_body (fragment tmpl inner data))"
  by (simp add: fragment_def template_error_def html_reply_def split: sum.split)

lemma full_page_body: "\<not> is_stream (rs_body (full_page tmpl inner title data))"
  by (simp add: full_page_def renderPage_def template_error_def html_reply_def split: sum.split)

lemma html_reply_body: "\<not> is_stream (rs_body (html_reply page))"
  by (simp add: html_reply_def)

named_theorems page_bodies \<open>no page is a stream\<close>

lemmas pages = fragment_body full_page_body html_reply_body

lemma devices_list_body: "\<not> is_stream (rs_body (fst (devices_list st tmpl r w)))"
proof (cases "das_ListDevices st (rq_query r ''status'') w")
  case (Pair x w1)
  obtain y w2 where y: "das_DeviceCounts st w1 = (y, w2)" by (cases "das_DeviceCounts st w1")
  show ?thesis
    using Pair y by (cases x; cases y) (auto simp: devices_list_def Let_def full_page_body)
qed

lemma devices_revoke_body: "\<not> is_stream (rs_body (fst (devices_revoke st r w)))"
proof -
  define k where "k = after_last (CHR ''/'') (rq_path r)"
  obtain x w1 where "das_RevokeDevice st k w = (x, w1)" by (cases "das_RevokeDevice st k w")
  then show ?thesis
    unfolding devices_revoke_def Let_def k_def [symmetric] by (cases x) (simp_all add: html_reply_body)
qed

lemma devices_body [page_bodies]: "\<not> is_stream (rs_body (fst (DevicesHandler st tmpl r w)))"
  by (simp add: DevicesHandler_def devices_list_body devices_revoke_body)

lemma data_bodies:
  "\<not> is_stream (rs_body (fst (data_browse st tmpl r w)))" "\<not> is_stream (rs_body (fst (data_docsPartial st tmpl r w)))"
  "\<not> is_stream (rs_body (fst (data_docModal st tmpl r w)))" "\<not> is_stream (rs_body (fst (data_deleteDoc st r w)))"
  by (simp_all add: data_browse_def data_docsPartial_def data_docModal_def data_deleteDoc_def Let_def pages
      split: prod.split sum.split)

lemma data_body [page_bodies]: "\<not> is_stream (rs_body (fst (DataHandler st tmpl r w)))"
  by (simp add: DataHandler_def data_bodies)

lemma sync_page_body [page_bodies]: "\<not> is_stream (rs_body (fst (SyncPage st tmpl r w)))"
  by (simp add: SyncPage_def Let_def pages split: prod.split sum.split)

lemma keys_page_body [page_bodies]: "\<not> is_stream (rs_body (fst (KeysPage stale tmpl r w)))"
  by (simp add: KeysPage_def pages)

lemma metrics_page_body [page_bodies]: "\<not> is_stream (rs_body (fst (AdminMetricsHandler gather tmpl seeds r w)))"
  by (simp add: AdminMetricsHandler_def pages split: prod.split sum.split)

lemma console_body: "\<not> is_stream (rs_body (fst (mux_serve (admin_routes d seeds) r w)))"
proof (cases rule: mux_serve_cases [of "admin_routes d seeds" r w])
  case (handler m p f)
  from admin_routes_cases [OF handler(1)] show ?thesis
    by (elim disjE) (simp_all add: handler(4) page_bodies redirect_def)
qed simp

lemma write_response_body: "\<not> is_stream (rs_body (write_response h resp))"
  by (simp add: write_response_def split: sum.split option.split)

lemma read_message_body: "read_message h r = Inl resp \<Longrightarrow> \<not> is_stream (rs_body resp)"
  by (auto simp: read_message_def split: sum.splits option.splits)

lemma sync_body: "\<not> is_stream (rs_body (fst (SyncHandler_ServeHTTP h r w)))"
  by (auto simp: SyncHandler_ServeHTTP_def write_response_body dest: read_message_body split: prod.split sum.split)

lemma auth_bodies:
  "\<not> is_stream (rs_body (fst (Handlers_Register h r w)))" "\<not> is_stream (rs_body (fst (Handlers_Token h r w)))"
  "\<not> is_stream (rs_body (fst (Handlers_RotateKey h r w)))" "\<not> is_stream (rs_body (fst (Handlers_RevokeDevice h r w)))"
  by (simp_all add: Handlers_Register_def Handlers_Token_def Handlers_RotateKey_def Handlers_RevokeDevice_def writeJSON_def
      Let_def split: option.split prod.split sum.split)

lemma device_key_body:
  assumes "is_stream (rs_body (fst (RequireDeviceKey verify nxt r w)))"
  shows "\<exists>r' w'. is_stream (rs_body (fst (nxt r' w')))"
  using assms by (cases "rq_header r ''X-Device-Key''" "CHR '':''" rule: SplitN2_cases)
    (auto simp: RequireDeviceKey_def Let_def split: if_splits prod.splits sum.splits)

lemma log_app_body [simp]: "rs_body (log_app a resp) = rs_body resp"
  by (simp add: log_app_def)

lemma jwt_body:
  assumes "rs_body (fst (RequireJWT validate nxt r w)) = BStream a u"
  shows "\<exists>r' w'. admit_jwt validate r w = Some (r', w') \<and> rs_body (fst (nxt r' w')) = BStream a u"
  using assms by (auto simp: RequireJWT_def admit_jwt_def Let_def split: if_splits prod.splits sum.splits)

lemma device_key_no_stream:
  "(\<And>r w. \<not> is_stream (rs_body (fst (nxt r w)))) \<Longrightarrow> \<not> is_stream (rs_body (fst (RequireDeviceKey verify nxt r w)))"
  by (metis device_key_body)

lemma jwt_no_stream:
  assumes "\<And>r w. \<not> is_stream (rs_body (fst (nxt r w)))"
  shows "\<not> is_stream (rs_body (fst (RequireJWT validate nxt r w)))"
proof
  assume s: "is_stream (rs_body (fst (RequireJWT validate nxt r w)))"
  then obtain a u where "rs_body (fst (RequireJWT validate nxt r w)) = BStream a u"
    by (cases "rs_body (fst (RequireJWT validate nxt r w))") auto
  from jwt_body [OF this] obtain r' w' where "rs_body (fst (nxt r' w')) = BStream a u" by blast
  then have "is_stream (rs_body (fst (nxt r' w')))" by simp
  then show False using assms by blast
qed

lemma on_world_body: "(\<And>r w. \<not> is_stream (rs_body (fst (h r w)))) \<Longrightarrow> \<not> is_stream (rs_body (fst (on_world_handler h r s)))"
  by (simp add: on_world_handler_def split: prod.split) (metis fst_conv)

lemma admin_no_stream:
  "(\<And>r w. \<not> is_stream (rs_body (fst (nxt r w)))) \<Longrightarrow> \<not> is_stream (rs_body (fst (RequireAdminAuth cmp h ips nxt r s)))"
  by (simp add: RequireAdminAuth_def Let_def unauthorized_def split: prod.split bool.split)

lemma events_body:
  assumes "rs_body (fst (events_handler r w)) = BStream a u"
  shows "a = ctx_value (ctx_app_id r) \<and> u = ctx_value (ctx_user_id r)"
  using assms by (auto simp: events_handler_def SSEHandler_def split: if_splits)

lemma router_stream:
  assumes "rs_body (fst (NewRouter (the_router_deps ex cfg) r s)) = BStream a u"
  shows "\<exists>claims. token_ok ex r (snd s) claims \<and> a = cl_AppID claims \<and> u = cl_Subject claims
    \<and> rq_path r = ''/events'' \<and> rq_method r \<in> {''GET'', ''HEAD''}"
proof -
  have s: "is_stream (rs_body (fst (NewRouter (the_router_deps ex cfg) r s)))" by (simp add: assms)
  show ?thesis
  proof (cases rule: mux_serve_cases [of "app_routes (the_router_deps ex cfg)" r s])
    case (own resp)
    then show ?thesis using s by (simp add: NewRouter_def)
  next
    case (handler m p f)
    have f: "is_stream (rs_body (fst (f r s)))" "rs_body (fst (f r s)) = BStream a u"
      using handler(4) s assms by (simp_all add: NewRouter_def)
    have "m = ''GET'' \<and> p = ''/events'' \<and> f = RequireJWT (the_validate ex) events_handler"
      using app_routes_cases [OF handler(1)] f(1)
      by (elim disjE conjE) (simp_all add: auth_bodies device_key_no_stream jwt_no_stream on_world_body sync_body)
    then have m: "m = ''GET''" "p = ''/events''" and j: "rs_body (fst (RequireJWT (the_validate ex) events_handler r s)) = BStream a u"
      using f(2) by auto
    obtain r' s' where ad: "admit_jwt (the_validate ex) r s = Some (r', s')" "rs_body (fst (events_handler r' s')) = BStream a u"
      using jwt_body [OF j] by blast
    from admit_jwt_Some [OF ad(1)] events_body [OF ad(2)] show ?thesis
      using handler(2,3) m by (auto simp: ctx_value_def path_matches_def ends_slash_def method_matches_def)
  qed
qed

section \<open>The route of the streams\<close>

lemma find_events:
  "mux_find (main_routes ex cfg started) ''GET'' ''/events'' = Some (([], ''/''), beside_rates (NewRouter (the_router_deps ex cfg)))"
  "mux_find (main_routes ex cfg started) ''GET'' ''/events/'' = Some (([], ''/''), beside_rates (NewRouter (the_router_deps ex cfg)))"
  "mux_find (app_routes d) ''GET'' ''/events'' = Some ((''GET'', ''/events''), RequireJWT (rd_OIDCValidator d) events_handler)"
  by (simp_all add: mux_find_def main_routes_def app_routes_def Let_def longest_def path_matches_def ends_slash_def method_matches_def)

lemma clean_events: "cleanPath ''/events'' = ''/events''"
  by code_simp

lemma stream_served:
  assumes "rq_method r = ''GET''" "rq_path r = ''/events''" "token_ok ex r v claims"
  obtains resp log' v' tok where "server_handler ex cfg started r (log, bs, w, v) = (resp, (log', bs, w, v'))"
    "rs_body resp = BStream (cl_AppID claims) (cl_Subject claims)" "rs_status resp = 200"
    "rq_header r ''Authorization'' = ''Bearer '' @ tok" "Validate (ex_lib ex) (rq_env r) tok v = (Inr claims, v')"
proof -
  let ?d = "the_router_deps ex cfg" and ?r = "r\<lparr>rq_flusher := True\<rparr>"
  have c: "cleanPath (rq_path ?r) = rq_path ?r" by (simp add: assms clean_events)
  have "mux_find (app_routes ?d) (rq_method ?r) (rq_path ?r) = Some ((''GET'', ''/events''), RequireJWT (rd_OIDCValidator ?d) events_handler)"
    by (simp add: assms find_events)
  from serve_found [OF this c] have app: "NewRouter ?d ?r s = RequireJWT (the_validate ex) events_handler ?r s" for s
    by (simp add: NewRouter_def exact_match_def assms the_router_deps_def)
  have "mux_find (main_routes ex cfg started) (rq_method ?r) (rq_path ?r) = Some (([], ''/''), beside_rates (NewRouter ?d))"
    by (simp add: assms find_events)
  from serve_found [OF this c] have main: "mux_serve (main_routes ex cfg started) ?r s = beside_rates (NewRouter ?d) ?r s" for s
    by (simp add: exact_match_def assms find_events)
  have tok: "token_ok ex ?r (snd (w, v)) claims" using assms(3) by simp
  obtain tok v' where t: "rq_header ?r ''Authorization'' = ''Bearer '' @ tok" "Validate (ex_lib ex) (rq_env ?r) tok v = (Inr claims, v')"
    and J: "RequireJWT (the_validate ex) nxt ?r (w, v) =
      (case nxt (?r\<lparr>ctx_app_id := Some (cl_AppID claims), ctx_user_id := Some (cl_Subject claims)\<rparr>) (w, v') of
         (resp, s') \<Rightarrow> (log_app (cl_AppID claims) resp, s'))" for nxt
    by (rule jwt_passes [OF tok], unfold fst_conv snd_conv) (rule that)
  have t': "rq_header r ''Authorization'' = ''Bearer '' @ tok" "Validate (ex_lib ex) (rq_env r) tok v = (Inr claims, v')"
    using t by simp_all
  show thesis
    by (rule that [where resp = "log_app (cl_AppID claims) (reply 200 [(''Content-Type'', ''text/event-stream''),
        (''Cache-Control'', ''no-cache''), (''Connection'', ''keep-alive'')] (BStream (cl_AppID claims) (cl_Subject claims)))", OF _ _ _ t'])
      (simp_all add: server_handler_def RequestLogger_def main beside_rates_def app J events_handler_def
        SSEHandler_def ctx_value_def)
qed

section \<open>What a request does to the broadcaster\<close>

abbreviation same_notifier :: "('s, 'n) world \<Rightarrow> ('s, 'n) world \<Rightarrow> bool" where
  "same_notifier w w' \<equiv> w_notifier w' = w_notifier w"

lemma transp_same_notifier: "transp same_notifier"
  by (simp add: transp_def)

lemma store_notifier [simp]: "w_notifier (snd (on_store m w)) = w_notifier w"
  by (simp add: on_store_def split: prod.split)

lemma on_store_notifier: "keeps same_notifier (on_store m)"
  by (simp add: keeps_def)

lemma retP_notifier: "keeps same_notifier (retP x)"
  by (simp add: keeps_def)

lemmas notifier_rules = keeps_bindP [OF transp_same_notifier] on_store_notifier keeps_dropP retP_notifier

lemma bindP_run:
  assumes "bindP m k s = (r, s')"
  obtains (stop) e where "m s = (Inl e, s')" | (go) x s1 where "m s = (Inr x, s1)" "k x s1 = (r, s')"
  using assms by (auto simp: bindP_def split: prod.splits sum.splits)

text \<open>At most one notification, for the app and the user of the message.\<close>

definition notified :: "broadcaster \<Rightarrow> broadcaster \<Rightarrow> bool" where
  "notified b b' \<longleftrightarrow> b' = b \<or> (\<exists>a u. b' = snd (Notify a u b))"

lemma notified_simps [simp]: "notified b b" "notified b (snd (Notify a u b))"
  by (auto simp: notified_def)

lemma Sync_push_notified:
  assumes "Sync_push (NewEngine st Notify th) msg w = (r, w')"
  shows "notified (w_notifier w) (w_notifier w')"
proof (cases "msg_Ops msg = []")
  case True
  then show ?thesis using assms by (simp add: Sync_push_def)
next
  case False
  let ?e = "NewEngine st Notify th"
  let ?rest = "dropP () (on_store (MaybeCompact (eng_store ?e) (msg_AppID msg) (msg_UserID msg) (msg_DatasetID msg) (eng_threshold ?e)))"
  have n: "w_notifier w2 = snd (Notify (msg_AppID msg) (msg_UserID msg) (w_notifier w1))"
    if "dropP () (on_notifier (eng_notify ?e (msg_AppID msg) (msg_UserID msg))) w1 = (x, w2)" for w1 x w2
    using that by (auto simp: dropP_def on_notifier_def NewEngine_def split: prod.splits sum.splits)
  have r: "keeps same_notifier ?rest" by (intro notifier_rules)
  from assms False show ?thesis unfolding Sync_push_def
    by (auto elim!: bindP_run dest!: n keepsD' [OF r] keepsD' [OF on_store_notifier])
qed

lemma Sync_notified:
  assumes "Sync (NewEngine st Notify th) wall msg w = (r, w')"
  shows "notified (w_notifier w) (w_notifier w')"
proof -
  obtain sc clk where c: "Receive wall (msg_Clock msg) (w_clock w) = (sc, clk)"
    by (cases "Receive wall (msg_Clock msg) (w_clock w)")
  let ?e = "NewEngine st Notify th"
  from assms c have "bindP (Sync_snapshot ?e msg) (\<lambda>snapshot. bindP (Sync_push ?e msg) (\<lambda>_. Sync_delta ?e msg sc snapshot))
      (w\<lparr>w_clock := clk\<rparr>) = (r, w')"
    by (simp add: Sync_def)
  then show ?thesis
  proof (cases rule: bindP_run)
    case (stop e)
    then show ?thesis using Sync_snapshot_notifier [OF stop] by simp
  next
    case (go snap w1)
    have 1: "w_notifier w1 = w_notifier w" using Sync_snapshot_notifier [OF go(1)] by simp
    from go(2) show ?thesis
    proof (cases rule: bindP_run)
      case (stop e)
      then show ?thesis using Sync_push_notified [OF stop] 1 by simp
    next
      case (go x w2)
      then show ?thesis using Sync_push_notified [OF go(1)] Sync_delta_notifier [OF go(2)] 1 by simp
    qed
  qed
qed

lemma sync_handler_notified:
  assumes "SyncHandler_ServeHTTP (the_sync_handler ex cfg) r w = (resp, w')"
  shows "notified (w_notifier w) (w_notifier w')"
proof -
  have ev: "w_notifier (record_event (the_sync_handler ex cfg) r msg w1) = w_notifier w1" for msg w1
    by (simp add: record_event_def)
  show ?thesis
    using assms by (auto simp: SyncHandler_ServeHTTP_def ev the_engine_def dest!: Sync_notified
        split: if_splits sum.splits prod.splits)
qed

lemma request_notified:
  assumes "server_handler ex cfg started r (log, bs, a) = (resp, (log', bs', a'))"
  shows "notified (w_notifier (fst a)) (w_notifier (fst a'))"
proof -
  have q: "quiet_app a b \<Longrightarrow> notified (w_notifier (fst a)) (w_notifier (fst b))" for b
    by (simp add: quiet_app_def)
  from assms show ?thesis
  proof (cases rule: server_cases)
    case none
    then show ?thesis by (rule q)
  next
    case router
    then show ?thesis
    proof (cases rule: router_cases)
      case none
      then show ?thesis by (rule q)
    next
      case (sync k claims w1 resp0)
      have "w_notifier w1 = w_notifier (fst a)" using sync(5) by (simp add: quiet_app_def)
      then show ?thesis using sync_handler_notified [OF sync(6)] by simp
    qed simp_all
  next
    case console
    from console(2) show ?thesis
      by (cases rule: admin_mux_cases) (simp_all add: q on_db_snd)
  qed
qed

section \<open>Who opens a stream\<close>

lemma server_stream:
  assumes "server_handler ex cfg started r (log, bs, w, v) = (resp, st')" "rs_body resp = BStream a u"
  shows "\<exists>claims. token_ok ex r v claims \<and> a = cl_AppID claims \<and> u = cl_Subject claims
    \<and> rq_path r = ''/events'' \<and> rq_method r \<in> {''GET'', ''HEAD''}"
proof -
  let ?es = "main_routes ex cfg started" and ?r = "r\<lparr>rq_flusher := True\<rparr>"
  have m: "fst (mux_serve ?es ?r (bs, w, v)) = resp"
    using assms(1) by (auto simp: server_handler_def RequestLogger_def split: prod.splits)
  have s: "is_stream (rs_body resp)" by (simp add: assms(2))
  show ?thesis
  proof (cases rule: mux_serve_cases [of ?es ?r "(bs, w, v)"])
    case (own resp1)
    then show ?thesis using m s by simp
  next
    case (handler mt p f)
    have f: "fst (f ?r (bs, w, v)) = resp" using handler(4) m by simp
    have "f = beside_rates (NewRouter (the_router_deps ex cfg))"
      using handler(1) f s
      by (auto simp: main_routes_def NewAdminRouter_def Health_ServeHTTP_def metrics_handler_def
          admin_no_stream console_body beside_rates_body)
    then have "rs_body (fst (NewRouter (the_router_deps ex cfg) ?r (w, v))) = BStream a u"
      using f assms(2) by (simp add: beside_rates_def split: prod.splits)
    from router_stream [OF this] show ?thesis by simp
  qed
qed

section \<open>A sync that is answered has notified\<close>

lemma Sync_sends:
  assumes "Sync (NewEngine st Notify th) wall msg w = (Inr resp, w')" "msg_Ops msg \<noteq> []"
  shows "w_notifier w' = snd (Notify (msg_AppID msg) (msg_UserID msg) (w_notifier w))"
proof -
  obtain sc clk snap w1 w2 where "Sync_snapshot (NewEngine st Notify th) msg (w\<lparr>w_clock := clk\<rparr>) = (Inr snap, w1)"
    "Sync_push (NewEngine st Notify th) msg w1 = (Inr (), w2)" "Sync_delta (NewEngine st Notify th) msg sc snap w2 = (Inr resp, w')"
    using assms(1) by (rule Sync_Inr)
  moreover from this(2) assms(2) have "w_notifier w2 = snd (Notify (msg_AppID msg) (msg_UserID msg) (w_notifier w1))"
    by (rule Sync_push_Inr) (simp add: NewEngine_def)
  ultimately show ?thesis
    using Sync_snapshot_notifier Sync_delta_notifier by fastforce
qed

lemma answered_sync:
  assumes "SyncHandler_ServeHTTP h r w = (resp, w')" "rs_status resp = 200"
  obtains msg sresp w1 where "read_message h r = Inr msg" "Sync (sh_engine h) (env_wall (rq_env r)) msg w = (Inr sresp, w1)"
    "w' = record_event h r msg w1"
proof -
  have "rs_status e \<noteq> 200" if "read_message h r = Inl e" for e
    using that by (auto simp: read_message_def split: sum.splits option.splits)
  then show thesis
    using assms that by (auto simp: SyncHandler_ServeHTTP_def split: if_splits sum.splits prod.splits)
qed

lemma token_unique: "token_ok ex r v c \<Longrightarrow> token_ok ex r v c' \<Longrightarrow> c' = c"
  by (auto simp: token_ok_def)

lemma request_notifies:
  assumes "server_handler ex cfg started r (log, bs, a) = (resp, (log', bs', a'))" "rs_status resp = 200"
    and "rq_method r = ''POST''" "rq_path r = ''/sync''" "token_ok ex r (snd a) claims"
    and "rq_body r = Inr bytes" "Decompress (ex_compressor ex) (take body_limit bytes) = Inr raw"
      "Decode (ex_codec ex) raw zero_message = Inr msg" "msg_Ops msg \<noteq> []"
    and u: "u = (if cl_Subject claims = [] then msg_UserID msg else cl_Subject claims)"
  shows "w_notifier (fst a') = snd (Notify (cl_AppID claims) u (w_notifier (fst a)))"
proof -
  let ?h = "the_sync_handler ex cfg"
  have "RequireDeviceKey (svc_Verify (the_service ex)) (RequireJWT (the_validate ex)
      (on_world_handler (SyncHandler_ServeHTTP ?h))) (r\<lparr>rq_flusher := True\<rparr>) a = (resp, a')"
    using assms(1) by (auto simp: sync_route [OF assms(3,4)] RequestLogger_def beside_rates_def split: prod.splits)
  then show ?thesis
  proof (cases rule: guarded_sync_cases)
    case refused
    then show ?thesis using assms(2) by simp
  next
    case (served k claims' w1 resp0)
    let ?r = "r\<lparr>rq_flusher := True, ctx_device_key_id := Some k, ctx_app_id := Some (cl_AppID claims'), ctx_user_id := Some (cl_Subject claims')\<rparr>"
    have c: "claims' = claims" "cl_AppID claims \<noteq> []"
      using token_unique [OF assms(5)] served(2) assms(5) by (auto simp: token_ok_def)
    have m: "read_message ?h ?r = Inr (msg\<lparr>msg_AppID := cl_AppID claims, msg_UserID := u\<rparr>)"
      using assms(6-8) c u
      by (simp add: read_message_def trusted_def Let_def ctx_value_def the_sync_handler_def NewSyncHandler_def WithEventWriter_def)
    obtain msg' sresp w2 where "read_message ?h ?r = Inr msg'" "Sync (sh_engine ?h) (env_wall (rq_env ?r)) msg' w1 = (Inr sresp, w2)"
        "fst a' = record_event ?h ?r msg' w2"
      using served(4) by (rule answered_sync) (use served(5) assms(2) in simp)
    moreover have "w_notifier (record_event ?h ?r msg' w2) = w_notifier w2" by (simp add: record_event_def)
    moreover have "w_notifier w1 = w_notifier (fst a)" using served(3) by (simp add: quiet_app_def)
    ultimately show ?thesis
      using m Sync_sends [of _ _ _ msg' w1 sresp w2] assms(9) by (auto simp: the_engine_def)
  qed
qed

section \<open>Properties\<close>



end
