(* ===== verification/Startup.thy ===== *)
theory Startup
  imports Router
begin

text \<open>
  The start of the process: what a server finds in its database when it begins to serve.
\<close>

section \<open>Opening keeps the data\<close>

lemma ApplyMetaDDL_Inr:
  assumes "ApplyMetaDDL db = (Inr x, db')"
  shows "has_meta db' \<and> (has_meta db \<longrightarrow> same_content db db') \<and> tables db' = tables db \<and> snapshots db' = snapshots db"
proof (cases rule: sql_cases [of create_meta db])
  case (ran db1)
  then show ?thesis using assms same_contentD [OF ran(1)] ran(1)
    by (auto simp: ApplyMetaDDL_def create_meta_def split: if_splits)
next
  case (fault fs)
  then show ?thesis using assms by (simp add: ApplyMetaDDL_def)
qed

lemma NewBackend_Inr:
  assumes "NewBackend o1 o2 ext s = (Inr x, s')"
  shows "has_meta (snd s') \<and> (has_meta (snd s) \<longrightarrow> same_content (snd s) (snd s'))
    \<and> tables (snd s') = tables (snd s) \<and> snapshots (snd s') = snapshots (snd s)"
  using assms ApplyMetaDDL_Inr
  by (auto simp: NewBackend_def EnsureMeta_def split: prod.splits sum.splits) 

section \<open>What is kept\<close>

text \<open>A restart loses nothing that is stored: when the process serves, the four required variables were
set, the metadata tables are there, and a database that had them before has the same content,
while the log of requests, the failed logins, the streams, the clock and the key cache start
empty.\<close>

lemma serving_state:
  assumes "main_start getenv mkdir_ok can templates (p, db) = (Serving (log, bs, w, v), s')"
  shows "missing_keys getenv = [] \<and> has_meta (w_store w) \<and> (has_meta db \<longrightarrow> same_content db (w_store w))
    \<and> tables (w_store w) = tables db \<and> snapshots (w_store w) = snapshots db
    \<and> log = [] \<and> bs = [] \<and> w_notifier w = NewBroadcaster \<and> w_clock w = NewClock ''server'' \<and> oi_keys v = []"
proof -
  obtain cfg where cfg: "LoadConfig getenv = Inr cfg"
    and run: "Run_start mkdir_ok can templates cfg (p, db) = (Inr (log, bs, w, v), s')"
    using assms by (auto simp: main_start_def split: sum.splits prod.splits)
  have m: "missing_keys getenv = []" using cfg by (auto simp: LoadConfig_cases split: sum.splits if_splits)
  obtain s1 x where nb: "NewBackend (fst can) (snd can) (cfg_CRSQLiteExtPath cfg) (p, db) = (Inr x, s1)"
    and st: "log = []" "bs = []" "w = \<lparr>w_store = snd s1, w_notifier = NewBroadcaster, w_clock = NewClock ''server''\<rparr>"
      "v = NewOIDCValidator (cfg_KeycloakURL cfg) (cfg_KeycloakRealm cfg) (cfg_KeycloakClientID cfg)"
    using run by (auto simp: Run_start_def split: if_splits sum.splits prod.splits)
  from NewBackend_Inr [OF nb] show ?thesis using m st by (simp add: NewOIDCValidator_def Let_def)
qed

lemma serving_state_example:
  "\<exists>log bs w v s'. main_start full_env True (True, True) (Inr ()) ([], key_db) = (Serving (log, bs, w, v), s')
     \<and> same_content key_db (w_store w) \<and> find_key ''k1'' (w_store w) \<noteq> None"
proof -
  have "case fst (main_start full_env True (True, True) (Inr ()) ([], key_db)) of Serving st \<Rightarrow> True | Fatal t e \<Rightarrow> False"
    by code_simp
  then obtain log bs w v s' where s: "main_start full_env True (True, True) (Inr ()) ([], key_db) = (Serving (log, bs, w, v), s')"
    by (cases "main_start full_env True (True, True) (Inr ()) ([], key_db)") (auto split: outcome.splits)
  have "has_meta key_db" by (simp add: key_db_def)
  then have "same_content key_db (w_store w)" using serving_state [OF s] by blast
  moreover from this have "find_key ''k1'' (w_store w) = find_key ''k1'' key_db" by (rule find_key_same_content)
  moreover have "find_key ''k1'' key_db \<noteq> None" by (simp add: key_db_def find_key_def sample_key_def)
  ultimately show ?thesis using s by simp
qed

end
