(* ===== verification/Backup.thy ===== *)
theory Backup
  imports Sync_Http
begin

text \<open>
  \<open>server/backup/backup.go\<close>: the copies of the database file and the goroutine that makes them.
  A file system is a map from paths to contents, a file named as \<open>filepath.Join\<close> cleans its path, with the outcomes of the coming calls:
  \<open>None\<close> is a call that succeeds, \<open>Some n\<close> one that fails, a copy after \<open>n\<close> bytes.  Directories,
  links and permissions are not modelled beyond those outcomes, and a file does not change
  while it is copied.
\<close>

section \<open>path/filepath\<close>

fun clean_list :: "bool \<Rightarrow> string list \<Rightarrow> string list \<Rightarrow> string list" where
  "clean_list rooted acc [] = rev acc"
| "clean_list rooted acc (s # ss) =
     (if s = [] \<or> s = ''.'' then clean_list rooted acc ss
      else if s = ''..'' then
        (if acc \<noteq> [] \<and> hd acc \<noteq> ''..'' then clean_list rooted (tl acc) ss
         else if rooted then clean_list rooted acc ss
         else clean_list rooted (''..'' # acc) ss)
      else clean_list rooted (s # acc) ss)"

definition Clean :: "string \<Rightarrow> string" where
  "Clean p =
     (let rooted = HasPrefix p ''/''; segs = clean_list rooted [] (Split (CHR ''/'') p) in
      if rooted then ''/'' @ Join segs ''/'' else if segs = [] then ''.'' else Join segs ''/'')"

definition Base :: "string \<Rightarrow> string" where
  "Base p =
     (if p = [] then ''.''
      else let q = TrimRight p (CHR ''/'') in if q = [] then ''/'' else after_last (CHR ''/'') q)"

definition path_join :: "string \<Rightarrow> string \<Rightarrow> string" where
  "path_join d name = (if d = [] then (if name = [] then [] else Clean name)
     else if name = [] then Clean d else Clean (d @ ''/'' @ name))"

section \<open>Files\<close>

record filesystem =
  fs_files :: "string \<rightharpoonup> string"
  fs_io :: "nat option list"

definition ErrIO :: err where
  "ErrIO = ErrMsg ''input/output error''"

text \<open>The outcome of the next call.\<close>

definition next_io :: "filesystem \<Rightarrow> nat option \<times> filesystem" where
  "next_io fs = (case fs_io fs of [] \<Rightarrow> (None, fs) | r # rest \<Rightarrow> (r, fs\<lparr>fs_io := rest\<rparr>))"

definition io_call :: "(filesystem, err, unit) prog" where
  "io_call fs = (case next_io fs of (None, fs') \<Rightarrow> (Inr (), fs') | (Some _, fs') \<Rightarrow> (Inl ErrIO, fs'))"

definition put_file :: "string \<Rightarrow> string \<Rightarrow> filesystem \<Rightarrow> filesystem" where
  "put_file p c fs = fs\<lparr>fs_files := (fs_files fs)(p \<mapsto> c)\<rparr>"

definition MkdirAll :: "string \<Rightarrow> (filesystem, err, unit) prog" where
  "MkdirAll d = io_call"

definition open_file :: "string \<Rightarrow> (filesystem, err, unit) prog" where
  "open_file p = bindP io_call (\<lambda>_ fs. if fs_files fs p = None then (Inl ErrIO, fs) else (Inr (), fs))"

text \<open>\<open>O_CREATE|O_WRONLY|O_TRUNC\<close>: the file is empty afterwards, whether it was there or not.\<close>

definition create_file :: "string \<Rightarrow> (filesystem, err, unit) prog" where
  "create_file p = bindP io_call (\<lambda>_ fs. (Inr (), put_file p [] fs))"

definition io_copy :: "string \<Rightarrow> string \<Rightarrow> (filesystem, err, unit) prog" where
  "io_copy dst src fs =
     (let c = (case fs_files fs src of None \<Rightarrow> [] | Some c \<Rightarrow> c) in
      case next_io fs of
        (None, fs') \<Rightarrow> (Inr (), put_file dst c fs')
      | (Some n, fs') \<Rightarrow> (Inl ErrIO, put_file dst (take n c) fs'))"

section \<open>backup.go\<close>

record backup_config =
  bc_SourcePaths :: "string list"
  bc_Destination :: string
  bc_Interval :: int

text \<open>\<open>stop\<close> is the content of a channel of capacity 1.\<close>

record runner =
  rn_cfg :: backup_config
  rn_stop :: "unit list"

definition NewRunner :: "backup_config \<Rightarrow> runner" where
  "NewRunner cfg = \<lparr>rn_cfg = cfg, rn_stop = []\<rparr>"

definition copyFile :: "string \<Rightarrow> string \<Rightarrow> (filesystem, err, unit) prog" where
  "copyFile src dst = bindP (open_file src) (\<lambda>_. bindP (create_file dst) (\<lambda>_. io_copy dst src))"

definition backup_path :: "runner \<Rightarrow> string \<Rightarrow> string \<Rightarrow> string" where
  "backup_path r src ts = path_join (bc_Destination (rn_cfg r)) (Base src @ ''_'' @ ts @ ''.db'')"

definition backupFile :: "runner \<Rightarrow> string \<Rightarrow> string \<Rightarrow> (filesystem, err, unit) prog" where
  "backupFile r src ts =
     bindP (wrapP (Wrap ''mkdir backup dest'') (MkdirAll (bc_Destination (rn_cfg r)))) (\<lambda>_.
     copyFile src (backup_path r src ts))"

fun backup_all :: "runner \<Rightarrow> string \<Rightarrow> string list \<Rightarrow> (filesystem, err, unit) prog" where
  "backup_all r ts [] = retP ()"
| "backup_all r ts (src # srcs) = bindP (backupFile r src ts) (\<lambda>_. backup_all r ts srcs)"

text \<open>\<open>ts\<close> is the formatted time, up to seconds.\<close>

definition RunOnce :: "runner \<Rightarrow> string \<Rightarrow> (filesystem, err, unit) prog" where
  "RunOnce r ts = backup_all r ts (bc_SourcePaths (rn_cfg r))"

text \<open>A send that does not block: a full channel stays as it is.\<close>

definition Stop :: "runner \<Rightarrow> runner" where
  "Stop r = (if rn_stop r = [] then r\<lparr>rn_stop := [()]\<rparr> else r)"

text \<open>
  The goroutine of \<open>Start\<close>: at the \<open>select\<close>, in a backup, returned, or panicked.  \<open>tick\<close> is the
  content of the ticker's channel; a tick that finds it full is dropped.  \<open>NewTicker\<close> panics on
  an interval that is not positive.  When both channels are ready the runtime chooses.
\<close>

datatype phase = NotStarted | Waiting | Copying | Returned | Panicked

record backup_state =
  bs_phase :: phase
  bs_runner :: runner
  bs_tick :: bool
  bs_fs :: filesystem

inductive runner_step :: "backup_state \<Rightarrow> backup_state \<Rightarrow> bool" where
  step_start: "bs_phase s = NotStarted \<Longrightarrow>
     runner_step s (s\<lparr>bs_phase := if bc_Interval (rn_cfg (bs_runner s)) \<le> 0 then Panicked else Waiting\<rparr>)"
| step_tick: "bs_phase s = Waiting \<or> bs_phase s = Copying \<Longrightarrow> runner_step s (s\<lparr>bs_tick := True\<rparr>)"
| step_take: "bs_phase s = Waiting \<Longrightarrow> bs_tick s \<Longrightarrow> runner_step s (s\<lparr>bs_phase := Copying, bs_tick := False\<rparr>)"
| step_copy: "bs_phase s = Copying \<Longrightarrow>
     runner_step s (s\<lparr>bs_phase := Waiting, bs_fs := snd (RunOnce (bs_runner s) ts (bs_fs s))\<rparr>)"
| step_stop: "bs_phase s = Waiting \<Longrightarrow> rn_stop (bs_runner s) = x # xs \<Longrightarrow>
     runner_step s (s\<lparr>bs_phase := Returned, bs_runner := (bs_runner s)\<lparr>rn_stop := xs\<rparr>\<rparr>)"
| step_call: "runner_step s (s\<lparr>bs_runner := Stop (bs_runner s)\<rparr>)"
| step_env: "runner_step s (s\<lparr>bs_fs := fs\<rparr>)"

inductive_cases runner_stepE: "runner_step s s'"

text \<open>The runner of a server, when a destination is configured.\<close>

definition server_runner :: "config \<Rightarrow> string \<Rightarrow> int option \<Rightarrow> runner option" where
  "server_runner cfg dbPath parsed =
     map_option (\<lambda>d. NewRunner \<lparr>bc_SourcePaths = [dbPath], bc_Destination = cfg_BackupDestination cfg, bc_Interval = d\<rparr>)
       (backup_interval cfg parsed)"

section \<open>Paths\<close>

lemma Split_not_Nil [simp]: "Split sep s \<noteq> []"
  by (induction s) (auto split: list.split)

lemma Split_append: "sep \<notin> set b \<Longrightarrow> Split sep (a @ sep # b) = Split sep a @ [b]"
proof (induction a)
  case Nil
  have "sep \<notin> set b \<Longrightarrow> Split sep b = [b]" by (induction b) auto
  then show ?case using Nil by simp
next
  case (Cons c a)
  then show ?case by (cases "Split sep a") auto
qed

lemma Split_plain: "sep \<notin> set b \<Longrightarrow> Split sep b = [b]"
  by (induction b) auto

text \<open>The name of a file: one segment of a path, no dot segment.\<close>

definition file_name :: "string \<Rightarrow> bool" where
  "file_name n \<longleftrightarrow> n \<noteq> [] \<and> CHR ''/'' \<notin> set n \<and> n \<noteq> ''.'' \<and> n \<noteq> ''..''"

lemma clean_list_name: "file_name n \<Longrightarrow> clean_list rooted acc (xs @ [n]) = clean_list rooted acc xs @ [n]"
  by (induction rooted acc xs rule: clean_list.induct) (auto simp: file_name_def)

lemma Join_snoc: "Join (xs @ [n]) sep = (if xs = [] then n else Join xs sep @ sep @ n)"
proof (induction xs sep rule: Join.induct)
  case (3 x y xs sep)
  then show ?case by simp
qed simp_all

lemma after_last_plain: "sep \<notin> set b \<Longrightarrow> after_last sep b = b"
proof -
  assume "sep \<notin> set b"
  then have "takeWhile (\<lambda>c. c \<noteq> sep) (rev b) = rev b" by (auto simp: takeWhile_eq_all_conv)
  then show ?thesis by (simp only: after_last_def rev_rev_ident)
qed

lemma TrimRight_name: "file_name n \<Longrightarrow> TrimRight (a @ n) (CHR ''/'') = a @ n"
  by (cases n rule: rev_cases) (auto simp: file_name_def TrimRight_def)

lemma Base_name: "file_name n \<Longrightarrow> Base n = n"
  using TrimRight_name [of n "[]"] by (simp add: Base_def file_name_def after_last_plain)

lemma Base_last: "file_name n \<Longrightarrow> Base (a @ CHR ''/'' # n) = n"
  using TrimRight_name [of n "a @ ''/''"] by (simp add: Base_def file_name_def)

lemma Clean_name:
  assumes "file_name n"
  shows "Base (Clean (d @ CHR ''/'' # n)) = n"
proof -
  let ?p = "d @ CHR ''/'' # n"
  have "clean_list rt [] (Split (CHR ''/'') ?p) = clean_list rt [] (Split (CHR ''/'') d) @ [n]" for rt
    using assms by (simp add: Split_append clean_list_name file_name_def)
  then have "Clean ?p = n \<or> (\<exists>q. Clean ?p = q @ CHR ''/'' # n)"
    by (auto simp: Clean_def Let_def Join_snoc)
  then show ?thesis using Base_name [OF assms] Base_last [OF assms] by auto
qed

lemma Base_join: "file_name n \<Longrightarrow> Base (path_join d n) = n"
  using Clean_name [of n d]
  by (auto simp: path_join_def Base_name Clean_def Let_def Split_plain file_name_def HasPrefix_iff)

section \<open>Copies\<close>

lemma io_call_files: "io_call fs = (x, fs') \<Longrightarrow> fs_files fs' = fs_files fs"
  by (auto simp: io_call_def next_io_def split: list.splits option.splits)

lemma copyFile_effect:
  assumes "copyFile src dst fs = (x, fs')" "dst \<noteq> src"
  shows "(\<forall>p. p \<noteq> dst \<longrightarrow> fs_files fs' p = fs_files fs p)
    \<and> (case x of
         Inr _ \<Rightarrow> fs_files fs src \<noteq> None \<and> fs_files fs' dst = fs_files fs src
       | Inl _ \<Rightarrow> fs_files fs' dst = fs_files fs dst \<or> (\<exists>c n. fs_files fs src = Some c \<and> fs_files fs' dst = Some (take n c)))"
proof -
  obtain x1 fs1 where 1: "io_call fs = (x1, fs1)" by (cases "io_call fs")
  obtain x2 fs2 where 2: "io_call fs1 = (x2, fs2)" by (cases "io_call fs1")
  obtain x3 fs3 where 3: "next_io (put_file dst [] fs2) = (x3, fs3)" by (cases "next_io (put_file dst [] fs2)")
  have f: "fs_files fs1 = fs_files fs" "fs_files fs2 = fs_files fs" "fs_files fs3 = (fs_files fs)(dst \<mapsto> [])"
    using io_call_files [OF 1] io_call_files [OF 2] 3
    by (auto simp: next_io_def put_file_def split: list.splits)
  show ?thesis
  proof (cases "fs_files fs src")
    case None
    then show ?thesis using assms 1 f
      by (cases x1) (auto simp: copyFile_def open_file_def bindP_def)
  next
    case (Some c)
    have o: "open_file src fs = (x1, fs1)" using 1 f Some by (cases x1) (auto simp: open_file_def bindP_def)
    have cr: "create_file dst fs1 = (case x2 of Inl e \<Rightarrow> (Inl e, fs2) | Inr _ \<Rightarrow> (Inr (), put_file dst [] fs2))"
      using 2 by (cases x2) (auto simp: create_file_def bindP_def)
    have cp: "io_copy dst src (put_file dst [] fs2)
        = (case x3 of None \<Rightarrow> (Inr (), put_file dst c fs3) | Some n \<Rightarrow> (Inl ErrIO, put_file dst (take n c) fs3))"
      using 3 Some assms(2) f by (auto simp: io_copy_def Let_def put_file_def split: option.split)
    show ?thesis
      using assms o cr cp f Some
      by (cases x1; cases x2; cases x3) (auto simp: copyFile_def bindP_def put_file_def)
  qed
qed

lemma backupFile_effect:
  assumes "backupFile r src ts fs = (x, fs')" "backup_path r src ts \<noteq> src"
  shows "(\<forall>p. p \<noteq> backup_path r src ts \<longrightarrow> fs_files fs' p = fs_files fs p)
    \<and> (case x of
         Inr _ \<Rightarrow> fs_files fs src \<noteq> None \<and> fs_files fs' (backup_path r src ts) = fs_files fs src
       | Inl _ \<Rightarrow> fs_files fs' (backup_path r src ts) = fs_files fs (backup_path r src ts)
           \<or> (\<exists>c n. fs_files fs src = Some c \<and> fs_files fs' (backup_path r src ts) = Some (take n c)))"
proof (cases "io_call fs")
  case (Pair y fs1)
  have f: "fs_files fs1 = fs_files fs" using io_call_files [OF Pair] .
  show ?thesis
  proof (cases y)
    case (Inl e)
    then show ?thesis using assms Pair f by (auto simp: backupFile_def MkdirAll_def bindP_def wrapP_def)
  next
    case (Inr u)
    then have "copyFile src (backup_path r src ts) fs1 = (x, fs')"
      using assms(1) Pair by (simp add: backupFile_def MkdirAll_def bindP_def wrapP_def)
    from copyFile_effect [OF this assms(2), unfolded f] show ?thesis .
  qed
qed

section \<open>Properties\<close>

definition demo_backup :: config where
  "demo_backup = demo_cfg\<lparr>cfg_BackupDestination := ''backups'', cfg_BackupInterval := ''1h''\<rparr>"

definition demo_fs :: filesystem where
  "demo_fs = \<lparr>fs_files = [''data/mobile-db.db'' \<mapsto> ''rows''], fs_io = []\<rparr>"



text \<open>\<open>Stop\<close> is never lost: after a call the goroutine has returned or still has the message to read,
through any later ticks, copies, calls and a start that comes only then, unless its interval made
it panic; and when it waits it can return at once.\<close>

theorem Stop_is_delivered:
  assumes "runner_step\<^sup>*\<^sup>* (s\<lparr>bs_runner := Stop (bs_runner s)\<rparr>) s'" "length (rn_stop (bs_runner s)) \<le> 1"
    and "0 < bc_Interval (rn_cfg (bs_runner s))" "bs_phase s \<noteq> Panicked"
  shows "bs_phase s' = Returned \<or> (rn_stop (bs_runner s') = [()] \<and>
    (bs_phase s' = Waiting \<longrightarrow> (\<exists>s''. runner_step s' s'' \<and> bs_phase s'' = Returned)))"
proof -
  let ?ok = "\<lambda>s. bs_phase s \<noteq> Panicked \<and> 0 < bc_Interval (rn_cfg (bs_runner s))
    \<and> (bs_phase s = Returned \<or> rn_stop (bs_runner s) = [()])"
  have step: "?ok s \<Longrightarrow> ?ok s'" if "runner_step s s'" for s s'
    using that by (cases rule: runner_step.cases) (auto simp: Stop_def)
  have "?ok (s\<lparr>bs_runner := Stop (bs_runner s)\<rparr>)"
    using assms(2-4) by (cases "rn_stop (bs_runner s)") (auto simp: Stop_def)
  with assms(1) have "?ok s'" by (induction rule: rtranclp_induct) (use step in blast)+
  then show ?thesis using step_stop [of s' "()" "[]"] by fastforce
qed

theorem Stop_is_delivered_witness:
  "let s = \<lparr>bs_phase = NotStarted, bs_runner = NewRunner \<lparr>bc_SourcePaths = [], bc_Destination = ''b'', bc_Interval = 5\<rparr>,
            bs_tick = False, bs_fs = demo_fs\<rparr>;
       s' = s\<lparr>bs_runner := Stop (bs_runner s), bs_phase := Waiting\<rparr>
   in \<exists>s''. runner_step\<^sup>*\<^sup>* (s\<lparr>bs_runner := Stop (bs_runner s)\<rparr>) s' \<and> runner_step s' s'' \<and> bs_phase s'' = Returned"
proof -
  let ?s = "\<lparr>bs_phase = NotStarted, bs_runner = NewRunner \<lparr>bc_SourcePaths = [], bc_Destination = ''b'', bc_Interval = 5\<rparr>,
            bs_tick = False, bs_fs = demo_fs\<rparr>"
  let ?s1 = "?s\<lparr>bs_runner := Stop (bs_runner ?s)\<rparr>" and ?s' = "?s\<lparr>bs_runner := Stop (bs_runner ?s), bs_phase := Waiting\<rparr>"
  have "runner_step ?s1 ?s'" using step_start [of ?s1] by (simp add: NewRunner_def Stop_def)
  then have run: "runner_step\<^sup>*\<^sup>* ?s1 ?s'" by (rule r_into_rtranclp)
  have "\<exists>s''. runner_step ?s' s'' \<and> bs_phase s'' = Returned"
    using Stop_is_delivered [OF run] by (simp add: NewRunner_def)
  then show ?thesis using run by (simp add: Let_def)
qed

end
