(* ===== verification/Process.thy ===== *)
theory Process
  imports Event_Streams Startup Backup
begin

text \<open>
  The running process: \<open>Run\<close> of \<open>server/server.go\<close> from the moment it listens, and what \<open>main\<close>
  makes of its result.  Requests are accepted, served one at a time by the server's handler,
  and may turn into event streams, which share the broadcaster with the sync requests; the
  backup goroutine takes its steps; \<open>Run\<close> waits for an error of the listener or for the end of
  its context, shuts the server down and runs its deferred calls.
  \<^item> \<open>Shutdown\<close> as \<open>net/http\<close> documents it: it closes the listener, so that \<open>ListenAndServe\<close> returns
    \<open>ErrServerClosed\<close>, takes no new request, and waits until none is in flight; when its context expires first it
    returns the context's error.  It does not cancel the contexts of the requests.
  \<^item> \<open>lerr\<close> is the set of errors \<open>ListenAndServe\<close> may report by itself.
  \<^item> A panic of the backup goroutine ends the process.
\<close>

section \<open>The process\<close>

text \<open>
  \<open>Selecting\<close>: at the \<open>select\<close>; \<open>Draining\<close>: in \<open>Shutdown\<close>; then the deferred calls in their order, with
  the result \<open>Run\<close> is going to return.
\<close>

datatype run_phase =
    Selecting
  | Draining
  | Deferring "err option"
  | Closing "err option"
  | Ended "err option"

record process =
  pr_phase :: run_phase
  pr_state :: server_state
  pr_inflight :: nat
  pr_streams :: "nat \<Rightarrow> stream option"
  pr_backup :: "backup_state option"
  pr_errs :: "err list"
  pr_cancelled :: bool
  pr_listening :: bool
  pr_shutdown :: bool
  pr_waited :: int
  pr_store_open :: bool

definition ErrServerClosed :: err where
  "ErrServerClosed = ErrMsg ''http: Server closed''"

definition DeadlineExceeded :: err where
  "DeadlineExceeded = ErrMsg ''context deadline exceeded''"

definition shutdown_timeout :: int where
  "shutdown_timeout = 10000000000"

definition state_world :: "server_state \<Rightarrow> (database, broadcaster) world" where
  "state_world st = fst (snd (snd st))"

definition set_world :: "(database, broadcaster) world \<Rightarrow> server_state \<Rightarrow> server_state" where
  "set_world w st = (fst st, fst (snd st), w, snd (snd (snd st)))"

text \<open>The streams of the process, with the broadcaster of the engine.\<close>

definition sse_view :: "process \<Rightarrow> sse_system" where
  "sse_view s = \<lparr>bc = w_notifier (state_world (pr_state s)), streams = pr_streams s, pending = []\<rparr>"

definition new_stream :: "string \<Rightarrow> string \<Rightarrow> stream" where
  "new_stream a u = \<lparr>str_app = a, str_user = u, str_chan = None, str_open = True, str_out = []\<rparr>"

definition answered :: "nat \<Rightarrow> body \<Rightarrow> (nat \<Rightarrow> stream option) \<Rightarrow> nat \<Rightarrow> stream option" where
  "answered c b ss = (case b of BStream a u \<Rightarrow> ss(c \<mapsto> new_stream a u) | _ \<Rightarrow> ss)"

definition drained :: "process \<Rightarrow> bool" where
  "drained s \<longleftrightarrow> pr_inflight s = 0 \<and> (\<forall>c st. pr_streams s c = Some st \<longrightarrow> \<not> str_open st)"

definition stop_backup :: "backup_state option \<Rightarrow> backup_state option" where
  "stop_backup b = map_option (\<lambda>b. b\<lparr>bs_runner := Stop (bs_runner b)\<rparr>) b"

definition alive :: "process \<Rightarrow> bool" where
  "alive s \<longleftrightarrow> (\<forall>b. pr_backup s = Some b \<longrightarrow> bs_phase b \<noteq> Panicked)"

text \<open>The process when \<open>Run\<close> reaches its \<open>select\<close>.\<close>

definition Run_process :: "config \<Rightarrow> int option \<Rightarrow> filesystem \<Rightarrow> server_state \<Rightarrow> process" where
  "Run_process cfg parsed fs st =
     \<lparr>pr_phase = Selecting, pr_state = st, pr_inflight = 0, pr_streams = (\<lambda>_. None),
      pr_backup = map_option (\<lambda>r. \<lparr>bs_phase = NotStarted, bs_runner = r, bs_tick = False, bs_fs = fs\<rparr>)
        (server_runner cfg (path_join (cfg_DataDir cfg) ''mobile-db.db'') parsed),
      pr_errs = [], pr_cancelled = False, pr_listening = True, pr_shutdown = False, pr_waited = 0, pr_store_open = True\<rparr>"

text \<open>
  \<open>env_accept\<close> to \<open>env_wait\<close> are steps of clients, handlers and the environment; the others are
  those of \<open>Run\<close>.  A request that is still in flight when the store is closed ends with the
  process.
\<close>

inductive process_move :: "config \<Rightarrow> int \<Rightarrow> err set \<Rightarrow> process \<Rightarrow> process \<Rightarrow> bool" for cfg started lerr where
  env_accept: "\<not> pr_shutdown s \<Longrightarrow> process_move cfg started lerr s (s\<lparr>pr_inflight := Suc (pr_inflight s)\<rparr>)"
| env_serve: "pr_inflight s = Suc n \<Longrightarrow> pr_store_open s \<Longrightarrow>
     server_handler ex cfg started r (pr_state s) = (resp, st) \<Longrightarrow>
     (is_stream (rs_body resp) \<longrightarrow> pr_streams s c = None) \<Longrightarrow>
     process_move cfg started lerr s
       (s\<lparr>pr_inflight := n, pr_state := st, pr_streams := answered c (rs_body resp) (pr_streams s)\<rparr>)"
| env_stream: "sse_step (sse_view s) t \<Longrightarrow> dom (streams t) = dom (pr_streams s) \<Longrightarrow> pending t = [] \<Longrightarrow>
     process_move cfg started lerr s
       (s\<lparr>pr_streams := streams t, pr_state := set_world ((state_world (pr_state s))\<lparr>w_notifier := bc t\<rparr>) (pr_state s)\<rparr>)"
| env_driver: "process_move cfg started lerr s
     (s\<lparr>pr_state := set_world ((state_world (pr_state s))\<lparr>w_store := (state_db (pr_state s))\<lparr>faults := fs, db_now := t\<rparr>\<rparr>)
        (pr_state s)\<rparr>)"
| env_backup: "pr_backup s = Some b \<Longrightarrow> runner_step b b' \<Longrightarrow>
     length (rn_stop (bs_runner b')) \<le> length (rn_stop (bs_runner b)) \<Longrightarrow>
     process_move cfg started lerr s (s\<lparr>pr_backup := Some b'\<rparr>)"
| env_listener: "pr_listening s \<Longrightarrow> e \<in> lerr \<Longrightarrow>
     process_move cfg started lerr s (s\<lparr>pr_listening := False, pr_errs := pr_errs s @ [e]\<rparr>)"
| env_signal: "process_move cfg started lerr s (s\<lparr>pr_cancelled := True\<rparr>)"
| env_wait: "pr_phase s = Draining \<Longrightarrow> 0 < dt \<Longrightarrow> process_move cfg started lerr s (s\<lparr>pr_waited := pr_waited s + dt\<rparr>)"
| run_error: "pr_phase s = Selecting \<Longrightarrow> pr_errs s = e # es \<Longrightarrow>
     process_move cfg started lerr s (s\<lparr>pr_phase := Deferring (Some e), pr_errs := es\<rparr>)"
| run_shutdown: "pr_phase s = Selecting \<Longrightarrow> pr_cancelled s \<Longrightarrow>
     process_move cfg started lerr s (s\<lparr>pr_phase := Draining, pr_listening := False, pr_shutdown := True,
       pr_errs := (if pr_listening s then pr_errs s @ [ErrServerClosed] else pr_errs s)\<rparr>)"
| run_drained: "pr_phase s = Draining \<Longrightarrow> drained s \<Longrightarrow> process_move cfg started lerr s (s\<lparr>pr_phase := Deferring None\<rparr>)"
| run_timeout: "pr_phase s = Draining \<Longrightarrow> shutdown_timeout \<le> pr_waited s \<Longrightarrow>
     process_move cfg started lerr s (s\<lparr>pr_phase := Deferring (Some DeadlineExceeded)\<rparr>)"
| run_stop: "pr_phase s = Deferring r \<Longrightarrow>
     process_move cfg started lerr s (s\<lparr>pr_phase := Closing r, pr_backup := stop_backup (pr_backup s)\<rparr>)"
| run_close: "pr_phase s = Closing r \<Longrightarrow>
     process_move cfg started lerr s (s\<lparr>pr_phase := Ended r, pr_store_open := False\<rparr>)"

definition process_step :: "config \<Rightarrow> int \<Rightarrow> err set \<Rightarrow> process \<Rightarrow> process \<Rightarrow> bool" where
  "process_step cfg started lerr s s' \<longleftrightarrow> alive s \<and> process_move cfg started lerr s s'"

abbreviation process_run :: "config \<Rightarrow> int \<Rightarrow> err set \<Rightarrow> process \<Rightarrow> process \<Rightarrow> bool" where
  "process_run cfg started lerr \<equiv> (process_step cfg started lerr)\<^sup>*\<^sup>*"

text \<open>\<open>main\<close>: a returned error is a fatal log line, which exits with status 1.\<close>

definition main_end :: "err option \<Rightarrow> (string \<times> err) option" where
  "main_end r = map_option (Pair ''server stopped'') r"

section \<open>Data and streams\<close>

lemma world_simps [simp]:
  "state_world (set_world w st) = w" "state_db (set_world w st) = w_store w"
  by (simp_all add: state_world_def set_world_def state_db_def)

lemma state_db_world: "state_db st = w_store (state_world st)"
  by (simp add: state_db_def state_world_def)

definition data_ok :: "database \<Rightarrow> process \<Rightarrow> bool" where
  "data_ok db s \<longleftrightarrow> sound db (state_db (pr_state s)) \<and> sse_ok (sse_view s)"

lemma Notify_next [simp]: "next_chan (snd (Notify a u b)) = next_chan b"
  by (simp add: Notify_def)

lemma sse_ok_notified:
  assumes "sse_ok \<lparr>bc = b, streams = ss, pending = []\<rparr>" "notified b b'"
  shows "sse_ok \<lparr>bc = b', streams = ss, pending = []\<rparr>"
proof -
  have "length (chans (snd (Notify a u b)) ch) \<le> 1" for a u ch
    using sse_ok_buffer [OF assms(1), of ch] by (simp add: Notify_chans)
  then show ?thesis
    using assms(2) sse_ok_buffer [OF assms(1)]
    by (intro sse_ok_same_subs [OF assms(1)]) (auto simp: notified_def)
qed

lemma sse_ok_answered:
  assumes "sse_ok \<lparr>bc = b, streams = ss, pending = []\<rparr>" "is_stream body \<longrightarrow> ss c = None"
  shows "sse_ok \<lparr>bc = b, streams = answered c body ss, pending = []\<rparr>"
  using sse_ok_open [OF assms(1), of c "new_stream a u" for a u] assms
  by (cases body) (auto simp: answered_def new_stream_def)

lemma serve_data:
  assumes "data_ok db s" "server_handler ex cfg started r (pr_state s) = (resp, st)"
    "is_stream (rs_body resp) \<longrightarrow> pr_streams s c = None"
  shows "data_ok db (s\<lparr>pr_inflight := n, pr_state := st, pr_streams := answered c (rs_body resp) (pr_streams s)\<rparr>)"
proof -
  obtain log bs a log' bs' a' where st: "pr_state s = (log, bs, a)" "st = (log', bs', a')" by (metis prod_cases3)
  note h = assms(2) [unfolded st]
  have "sound (state_db (pr_state s)) (state_db st)" using request_sound [OF h] by (simp add: st state_db_def)
  moreover have "notified (w_notifier (state_world (pr_state s))) (w_notifier (state_world st))"
    using request_notified [OF h] by (simp add: st state_world_def)
  ultimately show ?thesis
    using assms(1,3) sound_trans
    by (auto simp: data_ok_def sse_view_def intro!: sse_ok_answered intro: sse_ok_notified)
qed

lemma process_data:
  assumes "process_move cfg started lerr s s'" "data_ok db s"
  shows "data_ok db s'"
  using assms(1)
proof cases
  case (env_serve n ex r resp st c)
  then show ?thesis using serve_data [OF assms(2)] by simp
next
  case (env_stream t)
  have "t = \<lparr>bc = bc t, streams = streams t, pending = []\<rparr>" using env_stream(4) by simp
  then have "sse_ok \<lparr>bc = bc t, streams = streams t, pending = []\<rparr>"
    using sse_ok_step [OF env_stream(2)] assms(2) by (simp add: data_ok_def)
  then show ?thesis using assms(2) env_stream(1) by (simp add: data_ok_def sse_view_def state_db_world)
next
  case (env_driver fs t)
  then show ?thesis using assms(2) sound_trans [OF _ sound_env]
    by (auto simp: data_ok_def sse_view_def state_db_world)
qed (use assms(2) in \<open>auto simp: data_ok_def sse_view_def\<close>)

section \<open>The phases\<close>

definition stop_sent :: "process \<Rightarrow> bool" where
  "stop_sent s \<longleftrightarrow>
     (\<forall>b. pr_backup s = Some b \<longrightarrow> bs_phase b = Returned \<or> bs_phase b = Panicked \<or> rn_stop (bs_runner b) \<noteq> [])"

definition result_ok :: "err set \<Rightarrow> err option \<Rightarrow> process \<Rightarrow> bool" where
  "result_ok lerr r s \<longleftrightarrow>
     \<not> pr_listening s
     \<and> (case r of
          None \<Rightarrow> pr_shutdown s \<and> pr_cancelled s \<and> drained s
        | Some e \<Rightarrow> e \<in> lerr \<or> (e = DeadlineExceeded \<and> pr_cancelled s \<and> shutdown_timeout \<le> pr_waited s))"

definition phase_ok :: "err set \<Rightarrow> process \<Rightarrow> bool" where
  "phase_ok lerr s \<longleftrightarrow>
     (case pr_phase s of
        Selecting \<Rightarrow> pr_store_open s \<and> set (pr_errs s) \<subseteq> lerr
      | Draining \<Rightarrow> pr_store_open s \<and> \<not> pr_listening s \<and> pr_shutdown s \<and> pr_cancelled s
      | Deferring r \<Rightarrow> pr_store_open s \<and> result_ok lerr r s
      | Closing r \<Rightarrow> pr_store_open s \<and> result_ok lerr r s \<and> stop_sent s
      | Ended r \<Rightarrow> \<not> pr_store_open s \<and> result_ok lerr r s \<and> stop_sent s)"

definition control_ok :: "err set \<Rightarrow> process \<Rightarrow> bool" where
  "control_ok lerr s \<longleftrightarrow> phase_ok lerr s \<and> length (pr_errs s) \<le> 1 \<and> (pr_listening s \<longrightarrow> pr_errs s = [])"

text \<open>What each phase relies on is kept by every step of the others.\<close>

lemma closed_stays: "sse_step s t \<Longrightarrow> streams s c = Some st \<Longrightarrow> \<not> str_open st \<Longrightarrow> streams t c = Some st"
  by (cases rule: sse_stepE) auto

lemma drained_stream:
  assumes "drained s" "sse_step (sse_view s) t" "dom (streams t) = dom (pr_streams s)"
  shows "\<forall>c st. streams t c = Some st \<longrightarrow> \<not> str_open st"
proof (intro allI impI)
  fix c st
  assume "streams t c = Some st"
  then obtain st0 where st0: "pr_streams s c = Some st0" using assms(3) by (metis domD domI)
  then have "\<not> str_open st0" using assms(1) by (simp add: drained_def)
  then have "streams t c = Some st0" using closed_stays [OF assms(2)] st0 by (simp add: sse_view_def)
  then show "\<not> str_open st" using \<open>streams t c = Some st\<close> \<open>\<not> str_open st0\<close> by simp
qed

lemma runner_stop_kept:
  assumes "runner_step b b'" "bs_phase b = Returned \<or> bs_phase b = Panicked \<or> rn_stop (bs_runner b) \<noteq> []"
  shows "bs_phase b' = Returned \<or> bs_phase b' = Panicked \<or> rn_stop (bs_runner b') \<noteq> []"
  using assms by (cases rule: runner_stepE) (auto simp: Stop_def split: if_splits)

lemma Stop_sends [simp]: "rn_stop (Stop r) \<noteq> []"
  by (simp add: Stop_def)

lemma stop_sent_Stop [simp]: "stop_sent (s\<lparr>pr_phase := ph, pr_backup := stop_backup (pr_backup s)\<rparr>)"
  by (auto simp: stop_sent_def stop_backup_def)

lemma result_kept:
  assumes "process_move cfg started lerr s s'" "result_ok lerr r s" "pr_phase s \<noteq> Selecting" "pr_phase s \<noteq> Draining"
  shows "result_ok lerr r s'"
  using assms(1)
proof cases
  case (env_stream t)
  then show ?thesis
    using assms(2) drained_stream [OF _ env_stream(2,3)] by (auto simp: result_ok_def drained_def split: option.splits)
qed (use assms(2-) in \<open>auto simp: result_ok_def drained_def split: option.splits\<close>)

lemma stop_kept:
  assumes "process_move cfg started lerr s s'" "stop_sent s"
  shows "stop_sent s'"
  using assms(1)
proof cases
  case (env_backup b b')
  then show ?thesis using assms(2) runner_stop_kept [OF env_backup(3)] by (simp add: stop_sent_def)
qed (use assms(2) in \<open>auto simp: stop_sent_def stop_backup_def\<close>)

lemma phase_kept:
  assumes "process_move cfg started lerr s s'" "control_ok lerr s"
  shows "phase_ok lerr s'"
proof -
  have p: "phase_ok lerr s" and l: "pr_listening s \<longrightarrow> pr_errs s = []" using assms(2) by (simp_all add: control_ok_def)
  from assms(1) show ?thesis
  proof cases
    case (run_error e es)
    then show ?thesis using p l by (auto simp: phase_ok_def result_ok_def)
  next
    case run_drained
    then show ?thesis using p by (simp add: phase_ok_def result_ok_def drained_def)
  next
    case run_timeout
    then show ?thesis using p by (simp add: phase_ok_def result_ok_def)
  next
    case (run_stop r)
    then show ?thesis using p by (auto simp: phase_ok_def result_ok_def drained_def split: option.splits)
  next
    case (run_close r)
    then show ?thesis using p by (auto simp: phase_ok_def result_ok_def drained_def stop_sent_def split: option.splits)
  qed (use p result_kept [OF assms(1)] stop_kept [OF assms(1)] in \<open>auto simp: phase_ok_def split: run_phase.splits\<close>)
qed

lemma control_kept:
  assumes "process_move cfg started lerr s s'" "control_ok lerr s"
  shows "control_ok lerr s'"
proof -
  have "length (pr_errs s') \<le> 1 \<and> (pr_listening s' \<longrightarrow> pr_errs s' = [])"
    using assms by (cases rule: process_move.cases) (auto simp: control_ok_def)
  then show ?thesis using phase_kept [OF assms] by (simp add: control_ok_def)
qed

section \<open>Runs\<close>

lemma process_run_keeps:
  assumes "process_run cfg started lerr s s'" "control_ok lerr s" "data_ok db s"
  shows "control_ok lerr s' \<and> data_ok db s'"
  using assms by (induction rule: rtranclp_induct) (auto simp: process_step_def intro: control_kept process_data)

lemma control_start: "control_ok lerr (Run_process cfg parsed fs st)"
  by (simp add: control_ok_def phase_ok_def Run_process_def)

lemma data_start:
  assumes "w_notifier (state_world st) = NewBroadcaster" "sound db (state_db st)"
  shows "data_ok db (Run_process cfg parsed fs st)"
  using assms sse_ok_start by (simp add: data_ok_def sse_view_def Run_process_def sse_start_def)

lemma run_control:
  assumes "process_run cfg started lerr (Run_process cfg' parsed fs st) s"
  shows "control_ok lerr s"
  using assms control_start
  by (induction rule: rtranclp_induct) (auto simp: process_step_def intro: control_kept)

section \<open>Run returns\<close>

fun run_rank :: "run_phase \<Rightarrow> nat" where
  "run_rank Selecting = 4"
| "run_rank Draining = 3"
| "run_rank (Deferring r) = 2"
| "run_rank (Closing r) = 1"
| "run_rank (Ended r) = 0"

lemma rank_falls: "process_move cfg started lerr s s' \<Longrightarrow> run_rank (pr_phase s') \<le> run_rank (pr_phase s)"
  by (cases rule: process_move.cases) auto

definition can_go_on :: "process \<Rightarrow> bool" where
  "can_go_on s \<longleftrightarrow>
     (case pr_phase s of
        Selecting \<Rightarrow> pr_cancelled s \<or> pr_errs s \<noteq> []
      | Draining \<Rightarrow> drained s \<or> shutdown_timeout \<le> pr_waited s
      | Ended r \<Rightarrow> False
      | _ \<Rightarrow> True)"

lemma alive_stop_backup: "alive (s\<lparr>pr_backup := stop_backup (pr_backup s), pr_phase := ph\<rparr>) = alive s"
  by (auto simp: alive_def stop_backup_def)

text \<open>A step of \<open>Run\<close> itself; it touches neither the state of the server nor the clock.\<close>

lemma run_goes_on:
  assumes "can_go_on s" "alive s"
  shows "\<exists>s'. process_step cfg started lerr s s' \<and> run_rank (pr_phase s') < run_rank (pr_phase s) \<and> alive s'
    \<and> pr_state s' = pr_state s \<and> pr_streams s' = pr_streams s \<and> pr_waited s' = pr_waited s"
proof (cases "pr_phase s")
  case Selecting
  then show ?thesis
    using assms run_shutdown [of s cfg started lerr] run_error [of s "hd (pr_errs s)" "tl (pr_errs s)" cfg started lerr]
    by (cases "pr_cancelled s") (fastforce simp: can_go_on_def process_step_def alive_def)+
next
  case Draining
  then show ?thesis
    using assms run_drained [of s cfg started lerr] run_timeout [of s cfg started lerr]
    by (fastforce simp: can_go_on_def process_step_def alive_def)
next
  case (Deferring r)
  have "alive (s\<lparr>pr_phase := Closing r, pr_backup := stop_backup (pr_backup s)\<rparr>)"
    using assms(2) by (auto simp: alive_def stop_backup_def)
  then show ?thesis
    using assms(2) run_stop [OF Deferring, of cfg started lerr] Deferring by (fastforce simp: process_step_def)
next
  case (Closing r)
  then show ?thesis
    using assms(2) run_close [OF Closing, of cfg started lerr] by (fastforce simp: process_step_def alive_def)
next
  case (Ended r)
  then show ?thesis using assms by (simp add: can_go_on_def)
qed

lemma run_ends:
  assumes "alive s" "pr_phase s = Selecting \<Longrightarrow> pr_cancelled s \<or> pr_errs s \<noteq> []"
  shows "\<exists>s' r. process_run cfg started lerr s s' \<and> pr_phase s' = Ended r \<and> pr_state s' = pr_state s \<and> pr_streams s' = pr_streams s
    \<and> pr_waited s' \<le> max (pr_waited s) shutdown_timeout"
  using assms
proof (induction "run_rank (pr_phase s)" arbitrary: s rule: less_induct)
  case less
  show ?case
  proof (cases "\<exists>r. pr_phase s = Ended r")
    case True
    then show ?thesis by auto
  next
    case False
    define t where "t = (if pr_phase s = Draining \<and> pr_waited s < shutdown_timeout
      then s\<lparr>pr_waited := pr_waited s + (shutdown_timeout - pr_waited s)\<rparr> else s)"
    have "process_run cfg started lerr s t"
      using env_wait [of s "shutdown_timeout - pr_waited s" cfg started lerr] less.prems(1)
      by (auto simp: t_def process_step_def)
    moreover have t: "pr_phase t = pr_phase s" "pr_state t = pr_state s" "pr_streams t = pr_streams s" "alive t" "pr_cancelled t = pr_cancelled s"
      "pr_errs t = pr_errs s" "pr_waited t \<le> max (pr_waited s) shutdown_timeout"
      using less.prems(1) by (simp_all add: t_def alive_def)
    have "can_go_on t"
      using False less.prems(2) t by (auto simp: can_go_on_def t_def split: run_phase.splits)
    then obtain t1 where t1: "process_step cfg started lerr t t1" "run_rank (pr_phase t1) < run_rank (pr_phase s)" "alive t1"
        "pr_state t1 = pr_state s" "pr_streams t1 = pr_streams s" "pr_waited t1 = pr_waited t"
      using run_goes_on [of t cfg started lerr] t by auto
    have "pr_phase t1 \<noteq> Selecting" using t1(2) by (cases "pr_phase s") auto
    then obtain s' r where "process_run cfg started lerr t1 s'" "pr_phase s' = Ended r" "pr_state s' = pr_state s"
        "pr_streams s' = pr_streams s"
        "pr_waited s' \<le> max (pr_waited s) shutdown_timeout"
      using less.hyps [OF t1(2,3)] t1(4-6) t(7) by auto
    ultimately show ?thesis using t1(1) by (meson rtranclp.rtrancl_into_rtrancl rtranclp_trans)
  qed
qed

section \<open>Examples\<close>

text \<open>
  A run of the sample server in which one client has opened its event stream and subscribed, and
  the request of another is in flight.
\<close>

definition demo_validator :: oidc_validator where
  "demo_validator = snd (Validate (ex_lib (demo_ex sample_claims)) sample_env ''t'' sample_validator)"

lemma demo_token_again: "token_ok (demo_ex sample_claims) (demo_request m p) demo_validator sample_claims"
proof -
  have "fst (Validate (ex_lib (demo_ex sample_claims)) sample_env ''t'' demo_validator) = Inr sample_claims"
    unfolding demo_validator_def by code_simp
  then obtain v where "Validate (ex_lib (demo_ex sample_claims)) sample_env ''t'' demo_validator = (Inr sample_claims, v)"
    by (metis prod.collapse)
  then show ?thesis by (auto simp: token_ok_def demo_request_def sample_claims_def)
qed

definition demo_stream :: stream where
  "demo_stream = (new_stream ''app'' ''user1'')\<lparr>str_chan := Some 0\<rparr>"

definition demo_world :: "(database, broadcaster) world" where
  "demo_world = (fst demo_app)\<lparr>w_notifier := snd (Subscribe ''app'' ''user1'' NewBroadcaster)\<rparr>"

abbreviation demo_start :: process where
  "demo_start \<equiv> Run_process demo_cfg None demo_fs ([], [], demo_app)"

lemma demo_stream_run:
  obtains s log where "process_run demo_cfg 0 {} demo_start s" "alive s" "pr_phase s = Selecting" "pr_store_open s"
    "pr_inflight s = Suc 0" "pr_streams s 0 = Some demo_stream" "pr_state s = (log, [], demo_world, demo_validator)"
proof -
  let ?r = "demo_request ''GET'' ''/events''" and ?ex = "demo_ex sample_claims"
  have m: "rq_method ?r = ''GET''" "rq_path ?r = ''/events''" by (simp_all add: demo_request_def)
  from stream_served [OF m demo_token] obtain resp log v' tok
    where h: "server_handler ?ex demo_cfg 0 ?r ([], [], fst demo_app, snd demo_app) = (resp, (log, [], fst demo_app, v'))"
      and b: "rs_body resp = BStream (cl_AppID sample_claims) (cl_Subject sample_claims)"
      and t: "rq_header ?r ''Authorization'' = ''Bearer '' @ tok"
        "Validate (ex_lib ?ex) (rq_env ?r) tok (snd demo_app) = (Inr sample_claims, v')"
    by metis
  have v': "v' = demo_validator" using t by (simp add: demo_validator_def demo_request_def demo_app_def)
  have b': "rs_body resp = BStream ''app'' ''user1''" using b by (simp add: sample_claims_def)
  have al: "alive demo_start" by (simp add: alive_def Run_process_def server_runner_def backup_interval_def demo_cfg_def)
  let ?s1 = "demo_start\<lparr>pr_inflight := Suc (Suc 0)\<rparr>"
  let ?s2 = "?s1\<lparr>pr_inflight := Suc 0, pr_state := (log, [], fst demo_app, v'), pr_streams := [0 \<mapsto> new_stream ''app'' ''user1'']\<rparr>"
  let ?s3 = "?s2\<lparr>pr_streams := [0 \<mapsto> demo_stream], pr_state := (log, [], demo_world, v')\<rparr>"
  have "process_step demo_cfg 0 {} (demo_start\<lparr>pr_inflight := n\<rparr>) (demo_start\<lparr>pr_inflight := Suc n\<rparr>)" for n
    using env_accept [of "demo_start\<lparr>pr_inflight := n\<rparr>" demo_cfg 0 "{}"] al
    by (simp add: process_step_def alive_def Run_process_def)
  from this [of 0] this [of "Suc 0"] have 1: "process_run demo_cfg 0 {} demo_start ?s1"
    by (simp add: Run_process_def)
  have "process_move demo_cfg 0 {} ?s1 ?s2"
    using env_serve [of ?s1 "Suc 0" ?ex demo_cfg 0 ?r resp "(log, [], fst demo_app, v')" 0 "{}"] h b'
    by (simp add: Run_process_def answered_def)
  then have 2: "process_step demo_cfg 0 {} ?s1 ?s2" using al by (simp add: process_step_def alive_def)
  have n0: "w_notifier (fst demo_app) = NewBroadcaster" by (simp add: demo_app_def fresh_world_def)
  let ?t = "(sse_view ?s2)\<lparr>bc := snd (Subscribe ''app'' ''user1'' NewBroadcaster), streams := [0 \<mapsto> demo_stream]\<rparr>"
  have "sse_step (sse_view ?s2) ?t"
    using sse_subscribe [of "sse_view ?s2" 0 "new_stream ''app'' ''user1''" 0 "snd (Subscribe ''app'' ''user1'' NewBroadcaster)"]
    by (simp add: sse_view_def state_world_def n0 new_stream_def demo_stream_def Subscribe_def NewBroadcaster_def Let_def)
  from env_stream [OF this, of demo_cfg 0 "{}"] have "process_move demo_cfg 0 {} ?s2 ?s3"
    by (simp add: sse_view_def state_world_def set_world_def demo_world_def)
  then have 3: "process_step demo_cfg 0 {} ?s2 ?s3" using al by (simp add: process_step_def alive_def)
  have "process_run demo_cfg 0 {} demo_start ?s3" using 1 2 3 by (meson rtranclp.rtrancl_into_rtrancl)
  then show thesis
    by (rule that) (use al v' in \<open>simp_all add: alive_def Run_process_def\<close>)
qed

section \<open>Properties\<close>

text \<open>C10: A sync that carries operations and is answered with 200 reaches the event streams: every stream of the
token's app and the user that is subscribed when the request is served has a message waiting afterwards, and
its handler can write one more event at once.\<close>

theorem push_wakes_streams:
  assumes "process_run cfg started lerr (Run_process cfg parsed fs st0) s" "alive s" "w_notifier (state_world st0) = NewBroadcaster"
    and stm: "pr_streams s c = Some stm" "str_open stm" "str_chan stm = Some ch" "str_app stm = cl_AppID claims"
      "str_user stm = (if cl_Subject claims = [] then msg_UserID msg else cl_Subject claims)"
    and run: "pr_inflight s = Suc n" "pr_store_open s" "server_handler ex cfg started r (pr_state s) = (resp, st)"
    and sync: "rs_status resp = 200" "rq_method r = ''POST''" "rq_path r = ''/sync''"
      "token_ok ex r (snd (snd (snd (pr_state s)))) claims" "rq_body r = Inr bytes"
      "Decompress (ex_compressor ex) (take body_limit bytes) = Inr raw"
      "Decode (ex_codec ex) raw zero_message = Inr msg" "msg_Ops msg \<noteq> []"
  shows "\<exists>s1 s2 stm'. process_step cfg started lerr s s1 \<and> pr_state s1 = st \<and> process_step cfg started lerr s1 s2
    \<and> pr_streams s2 c = Some stm' \<and> (\<exists>m. str_out stm' = str_out stm @ [event_text m])"
proof -
  obtain log bs a log' bs' a' where st: "pr_state s = (log, bs, a)" "st = (log', bs', a')" by (metis prod_cases3)
  obtain w v where a: "a = (w, v)" by (cases a)
  note h = run(3) [unfolded st]
  have n: "w_notifier (state_world st) = snd (Notify (str_app stm) (str_user stm) (w_notifier (state_world (pr_state s))))"
    using request_notifies [OF h sync(1-3) _ sync(5-8) refl, of claims] sync(4) stm(4,5) st by (simp add: state_world_def)
  have ns: "\<not> is_stream (rs_body resp)"
  proof
    assume "is_stream (rs_body resp)"
    then obtain a0 u0 where "rs_body resp = BStream a0 u0" by (cases "rs_body resp") auto
    from server_stream [OF h [unfolded a] this] show False using sync(3) by simp
  qed
  have "data_ok (state_db st0) s"
    using assms(1) control_start data_start [OF assms(3) sound_refl] process_run_keeps by blast
  then have ok: "sse_ok (sse_view s)" by (simp add: data_ok_def)
  have "owns (sse_view s) c (subKey (str_app stm) (str_user stm)) ch" using stm(1-3) by (simp add: owns_def sse_view_def)
  then have "ch \<in> set (subs_at (w_notifier (state_world (pr_state s))) (subKey (str_app stm) (str_user stm)))"
    using sse_ok_owned [OF ok] by (auto simp: sse_view_def)
  then obtain m ms where m: "chans (w_notifier (state_world st)) ch = m # ms"
    unfolding n by (cases "chans (w_notifier (state_world (pr_state s))) ch") (auto simp: Notify_chans)
  let ?s1 = "s\<lparr>pr_inflight := n, pr_state := st, pr_streams := answered c (rs_body resp) (pr_streams s)\<rparr>"
  have s1: "pr_streams ?s1 = pr_streams s" using ns by (cases "rs_body resp") (auto simp: answered_def)
  have "process_move cfg started lerr s ?s1" using env_serve [OF run, of c] ns by simp
  then have 1: "process_step cfg started lerr s ?s1" using assms(2) by (simp add: process_step_def)
  let ?b = "w_notifier (state_world st)" and ?stm = "stm\<lparr>str_out := str_out stm @ [event_text m]\<rparr>"
  let ?t = "(sse_view ?s1)\<lparr>bc := ?b\<lparr>chans := (chans ?b)(ch := ms)\<rparr>, streams := (pr_streams s)(c \<mapsto> ?stm)\<rparr>"
  have r: "sse_step (sse_view ?s1) ?t"
    using sse_receive [of "sse_view ?s1" c stm ch m ms] stm(1-3) m s1 by (simp add: sse_view_def)
  have d: "dom (streams ?t) = dom (pr_streams ?s1)" "pending ?t = []" using stm(1) s1 by (auto simp: sse_view_def)
  have "alive ?s1" using assms(2) by (simp add: alive_def)
  let ?s2 = "?s1\<lparr>pr_streams := streams ?t,
      pr_state := set_world ((state_world (pr_state ?s1))\<lparr>w_notifier := bc ?t\<rparr>) (pr_state ?s1)\<rparr>"
  have 2: "process_step cfg started lerr ?s1 ?s2"
    using env_stream [OF r d] \<open>alive ?s1\<close> by (simp only: process_step_def simp_thms)
  have "pr_state ?s1 = st" "pr_streams ?s2 c = Some ?stm" "str_out ?stm = str_out stm @ [event_text m]" by simp_all
  with 1 2 show ?thesis by blast
qed

theorem push_wakes_streams_witness:
  "\<exists>s1 s2 stm' m. process_run demo_cfg 0 {} demo_start s1 \<and> process_step demo_cfg 0 {} s1 s2
     \<and> pr_streams s2 0 = Some stm' \<and> str_out stm' = [event_text m]"
proof -
  let ?r = "demo_request ''POST'' ''/sync''" and ?ex = "demo_ex sample_claims" and ?msg = "message ''victim'' zero_hlc three_ops"
  let ?a = "(demo_world, demo_validator)"
  obtain s log where s: "process_run demo_cfg 0 {} demo_start s" "alive s" "pr_phase s = Selecting" "pr_store_open s"
    "pr_inflight s = Suc 0" "pr_streams s 0 = Some demo_stream" "pr_state s = (log, [], ?a)"
    by (rule demo_stream_run)
  have db: "w_store (fst ?a) = w_store (fst demo_app)" by (simp add: demo_world_def)
  have r: "rq_method ?r = ''POST''" "rq_path ?r = ''/sync''" "rq_body ?r = Inr ''body''" by (simp_all add: demo_request_def)
  have m: "Decompress (ex_compressor ?ex) (take body_limit ''body'') = Inr ''body''" "Decode (ex_codec ?ex) ''body'' zero_message = Inr ?msg"
    by (simp_all add: demo_ex_def body_limit_def)
  have o: "\<forall>op \<in> set (msg_Ops ?msg). marshalable (Value op)" "msg_Ops ?msg \<noteq> []"
    using three_ops_marshalable by (simp_all add: three_ops_def)
  have dev: "device_ok ?ex ?r (w_store (fst ?a)) ''k1''" and tok: "token_ok ?ex ?r (snd ?a) sample_claims"
    and std: "steady (w_store (fst ?a))"
    unfolding db snd_conv by (rule demo_device demo_token_again demo_steady)+
  obtain resp log' a' where h: "server_handler ?ex demo_cfg 0 ?r (pr_state s) = (resp, (log', [], a'))" "rs_status resp = 200"
    using authenticated_sync [OF r(1,2) dev tok std demo_encodes r(3) m o(1) refl, of demo_cfg 0 log "[]"] s(7) by auto
  have n: "w_notifier (state_world ([], [], demo_app)) = NewBroadcaster"
    by (simp add: state_world_def demo_app_def fresh_world_def)
  have stm: "str_open demo_stream" "str_chan demo_stream = Some 0" "str_app demo_stream = cl_AppID sample_claims"
    "str_user demo_stream = (if cl_Subject sample_claims = [] then msg_UserID ?msg else cl_Subject sample_claims)"
    and out: "str_out demo_stream = []"
    by (simp_all add: demo_stream_def new_stream_def sample_claims_def)
  have tok': "token_ok ?ex ?r (snd (snd (snd (pr_state s)))) sample_claims" using tok s(7) by simp
  from push_wakes_streams [OF s(1,2) n s(6) stm s(5,4) h(1,2) r(1,2) tok' r(3) m o(2)]
  obtain s1 s2 stm' x where "process_step demo_cfg 0 {} s s1" "process_step demo_cfg 0 {} s1 s2" "pr_streams s2 0 = Some stm'"
    "str_out stm' = [event_text x]"
    by (auto simp: out)
  moreover from s(1) this(1) have "process_run demo_cfg 0 {} demo_start s1" by (rule rtranclp.rtrancl_into_rtrancl)
  ultimately show ?thesis by blast
qed

text \<open>C23: Once its context is cancelled or the listener has reported an error \<open>Run\<close> always comes to its end,
whatever the clients do: no step of anybody takes it back a phase, it can take its own next step at once
except while \<open>Shutdown\<close> waits, and that wait lasts at most ten seconds.\<close>

theorem Run_returns:
  assumes "alive s" "pr_phase s = Selecting \<Longrightarrow> pr_cancelled s \<or> pr_errs s \<noteq> []"
  shows "(\<forall>s'. process_step cfg started lerr s s' \<longrightarrow> run_rank (pr_phase s') \<le> run_rank (pr_phase s))
    \<and> (0 < run_rank (pr_phase s) \<and> (pr_phase s = Draining \<longrightarrow> drained s \<or> shutdown_timeout \<le> pr_waited s) \<longrightarrow>
        (\<exists>s'. process_step cfg started lerr s s' \<and> run_rank (pr_phase s') < run_rank (pr_phase s)))
    \<and> (\<exists>s' r. process_run cfg started lerr s s' \<and> pr_phase s' = Ended r \<and> pr_state s' = pr_state s \<and> pr_streams s' = pr_streams s
        \<and> pr_waited s' \<le> max (pr_waited s) shutdown_timeout)"
proof (intro conjI allI impI)
  fix s'
  assume "process_step cfg started lerr s s'"
  then show "run_rank (pr_phase s') \<le> run_rank (pr_phase s)" by (auto simp: process_step_def dest: rank_falls)
next
  assume "0 < run_rank (pr_phase s) \<and> (pr_phase s = Draining \<longrightarrow> drained s \<or> shutdown_timeout \<le> pr_waited s)"
  then have "can_go_on s" using assms(2) by (cases "pr_phase s") (auto simp: can_go_on_def)
  from run_goes_on [OF this assms(1)]
  show "\<exists>s'. process_step cfg started lerr s s' \<and> run_rank (pr_phase s') < run_rank (pr_phase s)" by blast
next
  show "\<exists>s' r. process_run cfg started lerr s s' \<and> pr_phase s' = Ended r \<and> pr_state s' = pr_state s \<and> pr_streams s' = pr_streams s
      \<and> pr_waited s' \<le> max (pr_waited s) shutdown_timeout"
    using run_ends assms by blast
qed

definition stuck :: process where
  "stuck = (Run_process demo_cfg None demo_fs ([], [], demo_app))
     \<lparr>pr_phase := Draining, pr_cancelled := True, pr_listening := False, pr_errs := [ErrServerClosed], pr_inflight := 1\<rparr>"

theorem Run_returns_witness:
  "\<exists>s' r. process_run demo_cfg 0 {} stuck s' \<and> pr_phase s' = Ended r \<and> pr_waited s' \<le> shutdown_timeout
     \<and> \<not> drained stuck"
proof -
  have a: "alive stuck" and p: "pr_phase stuck = Selecting \<Longrightarrow> pr_cancelled stuck \<or> pr_errs stuck \<noteq> []"
    by (simp_all add: stuck_def alive_def Run_process_def server_runner_def backup_interval_def demo_cfg_def)
  have "pr_waited stuck = 0" "\<not> drained stuck" by (simp_all add: stuck_def Run_process_def drained_def)
  then show ?thesis
    using Run_returns [OF a p, of demo_cfg 0 "{}"] by (auto simp: shutdown_timeout_def)
qed



text \<open>C5: The life of a process: from the database it finds at its start, through any requests of anybody, event
streams, backups and errors of the driver, up to the end of its shutdown, the tables stay well formed, no
operation and no device key disappears, key ids stay unique, and the broadcaster holds exactly the open
streams, each once, with at most one message waiting.\<close>

theorem process_keeps_data:
  assumes "LoadConfig getenv = Inr cfg" "main_start getenv mkdir_ok can templates (p, db) = (Serving st, s0)"
    and "process_run cfg started lerr (Run_process cfg parsed fs st) s"
    and "has_meta db" "db_ok db" "distinct (key_ids db)"
  shows "db_ok (state_db (pr_state s)) \<and> durable db (state_db (pr_state s))
    \<and> distinct (key_ids (state_db (pr_state s))) \<and> set (key_ids db) \<subseteq> set (key_ids (state_db (pr_state s)))
    \<and> length (chans (w_notifier (state_world (pr_state s))) ch) \<le> 1
    \<and> distinct (subs_at (w_notifier (state_world (pr_state s))) k)
    \<and> (ch \<in> set (subs_at (w_notifier (state_world (pr_state s))) k) \<longleftrightarrow>
        (\<exists>c stm. pr_streams s c = Some stm \<and> str_open stm \<and> str_chan stm = Some ch
          \<and> k = subKey (str_app stm) (str_user stm)))"
proof -
  obtain log bs w v where st: "st = (log, bs, w, v)" by (metis prod_cases4)
  from serving_state [OF assms(2) [unfolded st]] assms(4)
  have "w_notifier (state_world st) = NewBroadcaster" "sound db (state_db st)"
    by (auto simp: st state_world_def state_db_def sound_content)
  then have "data_ok db s"
    using process_run_keeps [OF assms(3)] control_start data_start by blast
  then have d: "sound db (state_db (pr_state s))" "sse_ok (sse_view s)" by (simp_all add: data_ok_def)
  then show ?thesis
    using assms(5,6) sse_ok_buffer [OF d(2), of ch] sse_ok_distinct [OF d(2), of k] sse_ok_owned [OF d(2), of ch k]
    by (auto simp: sound_def ok_step_def sse_view_def owns_def)
qed

theorem process_keeps_data_witness:
  "\<exists>cfg st s0 s r. LoadConfig full_env = Inr cfg
     \<and> main_start full_env True (True, True) (Inr ()) ([], key_db) = (Serving st, s0)
     \<and> process_run cfg 0 {} (Run_process cfg None demo_fs st) s \<and> pr_phase s = Ended r
     \<and> db_ok (state_db (pr_state s)) \<and> ''k1'' \<in> set (key_ids (state_db (pr_state s)))"
proof -
  have "case fst (main_start full_env True (True, True) (Inr ()) ([], key_db)) of Serving st \<Rightarrow> True | Fatal t e \<Rightarrow> False"
    by code_simp
  then obtain st s0 where m: "main_start full_env True (True, True) (Inr ()) ([], key_db) = (Serving st, s0)"
    by (cases "main_start full_env True (True, True) (Inr ()) ([], key_db)") (auto split: outcome.splits)
  then obtain cfg where cfg: "LoadConfig full_env = Inr cfg" by (auto simp: main_start_def split: sum.splits)
  let ?s = "Run_process cfg None demo_fs st"
  have al: "alive ?s" by (auto simp: alive_def Run_process_def)
  have 1: "process_step cfg 0 {} ?s (?s\<lparr>pr_cancelled := True\<rparr>)"
    using env_signal [of cfg 0 "{}" ?s] al by (simp add: process_step_def)
  obtain s r where 2: "process_run cfg 0 {} (?s\<lparr>pr_cancelled := True\<rparr>) s" "pr_phase s = Ended r"
    using run_ends [of "?s\<lparr>pr_cancelled := True\<rparr>" cfg 0 "{}"] al by (auto simp: alive_def)
  have run: "process_run cfg 0 {} ?s s" using 1 2(1) by (rule converse_rtranclp_into_rtranclp)
  have db: "has_meta key_db" "db_ok key_db" "distinct (key_ids key_db)" "''k1'' \<in> set (key_ids key_db)"
    by (simp_all add: key_db_def key_ids_def sample_key_def db_ok_def empty_db_def)
  from process_keeps_data [OF cfg m run db(1-3)] show ?thesis using cfg m run 2(2) db(4) by blast
qed

end
