(* ===== verification/Connections.thy ===== *)
theory Connections
  imports Meta_Store "HOL-Library.Multiset"
begin

text \<open>
  Who owns a connection: \<open>Handle\<close>, \<open>Backend\<close> and \<open>MetaDB\<close> of \<open>storage/crsqlite\<close> as values that hold
  a connection, with the connections the process has open.  \<open>Meta_Store\<close> models what opening does
  to the registered driver and to the database; here each \<open>sql.Open\<close> is counted and each \<open>Close\<close>
  undoes one.  The lemmas show that forgetting the connections gives the definitions of
  \<open>Meta_Store\<close>, that an opening that fails leaves no connection behind, and that only the owner
  of a connection closes it.

  \<^item> \<open>cn_driver\<close> is \<open>driverPath\<close>; a driver is registered when it is not empty.
  \<^item> \<open>cn_open\<close> are the connections that are open, \<open>cn_next\<close> the number of the next one.
  \<^item> \<open>ping\<close> is the driver's answer to \<open>PingContext\<close>, \<open>ans\<close> its answer to closing.
\<close>

section \<open>Connections\<close>

record conns =
  cn_driver :: string
  cn_next :: nat
  cn_open :: "nat list"

definition fresh_conns :: conns where
  "fresh_conns = \<lparr>cn_driver = [], cn_next = 0, cn_open = []\<rparr>"

definition on_driver :: "(string, err, 'a) prog \<Rightarrow> (conns, err, 'a) prog" where
  "on_driver m c = (case m (cn_driver c) of (res, d) \<Rightarrow> (res, c\<lparr>cn_driver := d\<rparr>))"

text \<open>\<open>sql.Open\<close> connects to nothing yet; it fails only for a driver name nobody registered.\<close>

definition sql_Open :: "(conns, err, nat) prog" where
  "sql_Open c =
     (if cn_driver c = [] then (Inl ErrDriver, c)
      else (Inr (cn_next c), c\<lparr>cn_next := Suc (cn_next c), cn_open := cn_next c # cn_open c\<rparr>))"

text \<open>\<open>sql.DB.Close\<close>: the pool is closed whatever the driver answers; a second call returns no error.\<close>

definition db_Close :: "(err + unit) \<Rightarrow> nat \<Rightarrow> (conns, err, unit) prog" where
  "db_Close ans i c = (if i \<in> set (cn_open c) then ans else Inr (), c\<lparr>cn_open := removeAll i (cn_open c)\<rparr>)"

section \<open>Handles\<close>

record Handle = hd_db :: nat

definition Open_Handle :: "bool \<Rightarrow> string \<Rightarrow> (conns, err, Handle) prog" where
  "Open_Handle ping extPath =
     bindP (on_driver (ensureDriver extPath)) (\<lambda>_.
     bindP (wrapP (Wrap ''open db'') sql_Open) (\<lambda>db c.
     if \<not> ping then (Inl (Wrap ''ping'' ErrDriver), snd (db_Close (Inr ()) db c))
     else (Inr \<lparr>hd_db = db\<rparr>, c)))"

definition Handle_Close :: "(err + unit) \<Rightarrow> Handle \<Rightarrow> (conns, err, unit) prog" where
  "Handle_Close ans h = db_Close ans (hd_db h)"

record Backend = bk_handle :: Handle

definition Open_Backend :: "bool \<Rightarrow> string \<Rightarrow> (conns \<times> database, err, Backend) prog" where
  "Open_Backend ping extPath s =
     (case Open_Handle ping extPath (fst s) of
        (Inl e, c) \<Rightarrow> (Inl (Wrap ''new backend'' e), (c, snd s))
      | (Inr h, c) \<Rightarrow>
          (case EnsureMeta (snd s) of
             (Inl e, db) \<Rightarrow> (Inl (Wrap ''ensure meta'' e), (snd (Handle_Close (Inr ()) h c), db))
           | (Inr _, db) \<Rightarrow> (Inr \<lparr>bk_handle = h\<rparr>, (c, db))))"

definition Backend_Close :: "(err + unit) \<Rightarrow> Backend \<Rightarrow> (conns, err, unit) prog" where
  "Backend_Close ans b = Handle_Close ans (bk_handle b)"

definition Backend_DB :: "Backend \<Rightarrow> nat" where
  "Backend_DB b = hd_db (bk_handle b)"

record MetaDB =
  md_db :: nat
  md_owner :: bool

definition Backend_Meta :: "Backend \<Rightarrow> MetaDB" where
  "Backend_Meta b = \<lparr>md_db = hd_db (bk_handle b), md_owner = False\<rparr>"

definition Open_MetaDB :: "bool \<Rightarrow> string \<Rightarrow> (conns \<times> database, err, MetaDB) prog" where
  "Open_MetaDB ping extPath s =
     (case Open_Handle ping extPath (fst s) of
        (Inl e, c) \<Rightarrow> (Inl (Wrap ''open meta db'' e), (c, snd s))
      | (Inr h, c) \<Rightarrow>
          (case EnsureMeta (snd s) of
             (Inl e, db) \<Rightarrow> (Inl (Wrap ''ensure meta schema'' e), (snd (Handle_Close (Inr ()) h c), db))
           | (Inr _, db) \<Rightarrow> (Inr \<lparr>md_db = hd_db h, md_owner = True\<rparr>, (c, db))))"

definition MetaDB_Close :: "(err + unit) \<Rightarrow> MetaDB \<Rightarrow> (conns, err, unit) prog" where
  "MetaDB_Close ans m = (if md_owner m then db_Close ans (md_db m) else retP ())"

section \<open>Forgetting the connections\<close>

definition forget :: "('a \<Rightarrow> 'b) \<Rightarrow> (err + 'a) \<times> conns \<times> database \<Rightarrow> (err + 'b) \<times> string \<times> database" where
  "forget f = (\<lambda>(res, c, db). (map_sum id f res, cn_driver c, db))"

lemma ensureDriver_cases:
  obtains e where "ensureDriver extPath d = (Inl e, d)" "d \<noteq> []" "d \<noteq> extPath"
    | "ensureDriver extPath d = (Inr (), extPath)"
  by (cases "d = extPath"; cases "d = []") (auto simp: ensureDriver_def)

text \<open>\<open>Open\<close> with the answers of a driver that is registered, or not.\<close>

lemma Open_Handle_forget:
  "(case Open_Handle ping extPath c of (res, c') \<Rightarrow> (map_sum id (\<lambda>_. ()) res, cn_driver c'))
     = Open (extPath \<noteq> []) ping extPath (cn_driver c)"
  by (rule ensureDriver_cases [of extPath "cn_driver c"])
    (auto simp: Open_Handle_def Open_def on_driver_def bindP_def wrapP_def sql_Open_def db_Close_def failP_def retP_def)

lemma Open_Handle_Inl:
  assumes "Open_Handle ping extPath c = (Inl e, c')"
  shows "Open (extPath \<noteq> []) ping extPath (cn_driver c) = (Inl e, cn_driver c')"
  using Open_Handle_forget [of ping extPath c] assms by simp

lemma Open_Handle_Inr:
  assumes "Open_Handle ping extPath c = (Inr h, c')"
  shows "Open (extPath \<noteq> []) ping extPath (cn_driver c) = (Inr (), cn_driver c')"
  using Open_Handle_forget [of ping extPath c] assms by simp

lemma Close_driver [simp]: "cn_driver (snd (Handle_Close ans h c)) = cn_driver c"
  by (simp add: Handle_Close_def db_Close_def)

lemma Open_Backend_forget:
  "forget (\<lambda>_. ()) (Open_Backend ping extPath (c, db)) = NewBackend (extPath \<noteq> []) ping extPath (cn_driver c, db)"
  by (auto simp: forget_def Open_Backend_def NewBackend_def dest!: Open_Handle_Inl Open_Handle_Inr split: prod.splits sum.splits)

lemma Open_MetaDB_forget:
  "forget (\<lambda>_. ()) (Open_MetaDB ping extPath (c, db)) = OpenMeta (extPath \<noteq> []) ping extPath (cn_driver c, db)"
  by (auto simp: forget_def Open_MetaDB_def OpenMeta_def dest!: Open_Handle_Inl Open_Handle_Inr split: prod.splits sum.splits)

section \<open>No connection is left behind\<close>

definition conns_ok :: "conns \<Rightarrow> bool" where
  "conns_ok c \<longleftrightarrow> distinct (cn_open c) \<and> (\<forall>i \<in> set (cn_open c). i < cn_next c)"

lemma removeAll_fresh: "conns_ok c \<Longrightarrow> removeAll (cn_next c) (cn_open c) = cn_open c"
  by (auto simp: conns_ok_def intro: removeAll_id)

lemma Open_Handle_opens:
  assumes "Open_Handle ping extPath c = (res, c')" "conns_ok c"
  shows "case res of Inl e \<Rightarrow> cn_open c' = cn_open c \<and> cn_next c \<le> cn_next c'
    | Inr h \<Rightarrow> hd_db h = cn_next c \<and> cn_open c' = cn_next c # cn_open c \<and> cn_next c' = Suc (cn_next c)"
  using assms removeAll_fresh [OF assms(2)]
  by (cases rule: ensureDriver_cases [of extPath "cn_driver c"])
    (auto simp: Open_Handle_def on_driver_def bindP_def wrapP_def sql_Open_def db_Close_def split: if_splits)

lemma Open_Backend_opens:
  assumes "Open_Backend ping extPath (c, db) = (res, (c', db'))" "conns_ok c"
  shows "case res of Inl e \<Rightarrow> cn_open c' = cn_open c \<and> cn_next c \<le> cn_next c'
    | Inr b \<Rightarrow> Backend_DB b = cn_next c \<and> cn_open c' = cn_next c # cn_open c \<and> cn_next c' = Suc (cn_next c)"
  using assms removeAll_fresh [OF assms(2)]
  by (auto simp: Open_Backend_def Backend_DB_def Handle_Close_def db_Close_def split: prod.splits sum.splits
      dest!: Open_Handle_opens)

lemma Open_MetaDB_opens:
  assumes "Open_MetaDB ping extPath (c, db) = (res, (c', db'))" "conns_ok c"
  shows "case res of Inl e \<Rightarrow> cn_open c' = cn_open c \<and> cn_next c \<le> cn_next c'
    | Inr m \<Rightarrow> md_owner m \<and> md_db m = cn_next c \<and> cn_open c' = cn_next c # cn_open c \<and> cn_next c' = Suc (cn_next c)"
  using assms removeAll_fresh [OF assms(2)]
  by (auto simp: Open_MetaDB_def Handle_Close_def db_Close_def split: prod.splits sum.splits
      dest!: Open_Handle_opens)

section \<open>Users of connections\<close>

text \<open>
  A program that opens backends and metadata databases, takes views of its backends and closes what
  it has, in any order and as often as it likes.  The lists hold what it was given, newest last.
\<close>

record users =
  us_state :: "conns \<times> database"
  us_backends :: "Backend list"
  us_metas :: "MetaDB list"

inductive use :: "users \<Rightarrow> users \<Rightarrow> bool" where
  use_backend: "Open_Backend ping extPath (us_state u) = (Inr b, s) \<Longrightarrow>
    use u (u\<lparr>us_state := s, us_backends := us_backends u @ [b]\<rparr>)"
| use_backend_fails: "Open_Backend ping extPath (us_state u) = (Inl e, s) \<Longrightarrow> use u (u\<lparr>us_state := s\<rparr>)"
| use_view: "b \<in> set (us_backends u) \<Longrightarrow> use u (u\<lparr>us_metas := us_metas u @ [Backend_Meta b]\<rparr>)"
| use_meta: "Open_MetaDB ping extPath (us_state u) = (Inr m, s) \<Longrightarrow>
    use u (u\<lparr>us_state := s, us_metas := us_metas u @ [m]\<rparr>)"
| use_meta_fails: "Open_MetaDB ping extPath (us_state u) = (Inl e, s) \<Longrightarrow> use u (u\<lparr>us_state := s\<rparr>)"
| use_close_meta: "m \<in> set (us_metas u) \<Longrightarrow> MetaDB_Close ans m (fst (us_state u)) = (res, c) \<Longrightarrow>
    use u (u\<lparr>us_state := (c, snd (us_state u))\<rparr>)"

inductive use_close :: "nat \<Rightarrow> users \<Rightarrow> users \<Rightarrow> bool" for i where
  use_close_backend: "b \<in> set (us_backends u) \<Longrightarrow> Backend_DB b = i \<Longrightarrow> Backend_Close ans b (fst (us_state u)) = (res, c) \<Longrightarrow>
    use_close i u (u\<lparr>us_state := (c, snd (us_state u))\<rparr>)"

text \<open>\<open>uses I\<close>: a run in which only backends whose connection is in \<open>I\<close> are closed.\<close>

inductive uses :: "nat set \<Rightarrow> users \<Rightarrow> users \<Rightarrow> bool" for I where
  uses_start: "uses I u u"
| uses_use: "uses I u v \<Longrightarrow> use v w \<Longrightarrow> uses I u w"
| uses_close: "uses I u v \<Longrightarrow> i \<in> I \<Longrightarrow> use_close i v w \<Longrightarrow> uses I u w"

text \<open>No two owners have the same connection.\<close>

definition owners :: "users \<Rightarrow> nat list" where
  "owners u = map Backend_DB (us_backends u) @ map md_db (filter md_owner (us_metas u))"

definition users_ok :: "users \<Rightarrow> bool" where
  "users_ok u \<longleftrightarrow> conns_ok (fst (us_state u)) \<and> distinct (owners u) \<and> (\<forall>i \<in> set (owners u). i < cn_next (fst (us_state u)))
     \<and> set (cn_open (fst (us_state u))) \<subseteq> set (owners u)"

lemma users_ok_start: "users_ok \<lparr>us_state = (fresh_conns, db), us_backends = [], us_metas = []\<rparr>"
  by (simp add: users_ok_def conns_ok_def owners_def fresh_conns_def)

lemma users_ok_opened:
  assumes "users_ok u" "cn_open c = cn_next (fst (us_state u)) # cn_open (fst (us_state u))"
    "cn_next c = Suc (cn_next (fst (us_state u)))" "fst (us_state v) = c"
    "mset (owners v) = add_mset (cn_next (fst (us_state u))) (mset (owners u))"
  shows "users_ok v"
proof -
  have "set (owners v) = insert (cn_next (fst (us_state u))) (set (owners u))" "distinct (owners v)"
    using assms(1,5) mset_eq_setD [of "owners v" "cn_next (fst (us_state u)) # owners u"]
      mset_eq_imp_distinct_iff [of "owners v" "cn_next (fst (us_state u)) # owners u"]
    by (auto simp: users_ok_def)
  then show ?thesis using assms(1-4) by (auto simp: users_ok_def conns_ok_def less_Suc_eq)
qed

lemma users_ok_fewer:
  assumes "users_ok u" "set (cn_open (fst (us_state v))) \<subseteq> set (cn_open (fst (us_state u)))"
    "distinct (cn_open (fst (us_state v)))" "cn_next (fst (us_state u)) \<le> cn_next (fst (us_state v))" "owners v = owners u"
  shows "users_ok v"
  using assms by (auto simp: users_ok_def conns_ok_def) (meson order.strict_trans2 subsetD)+

lemma db_Close_state: "db_Close ans i c = (res, c') \<Longrightarrow> c' = c\<lparr>cn_open := removeAll i (cn_open c)\<rparr>"
  by (auto simp: db_Close_def)

lemma use_ok:
  assumes "use u v" "users_ok u"
  shows "users_ok v"
proof -
  have ok: "conns_ok (fst (us_state u))" using assms(2) by (simp add: users_ok_def)
  from assms(1) show ?thesis
  proof cases
    case (use_backend ping extPath b s)
    then show ?thesis using Open_Backend_opens [OF _ ok, of ping extPath "snd (us_state u)" "Inr b" "fst s" "snd s"]
      by (auto intro!: users_ok_opened [OF assms(2)] simp: owners_def)
  next
    case (use_meta ping extPath m s)
    then show ?thesis using Open_MetaDB_opens [OF _ ok, of ping extPath "snd (us_state u)" "Inr m" "fst s" "snd s"]
      by (auto intro!: users_ok_opened [OF assms(2)] simp: owners_def)
  next
    case (use_backend_fails ping extPath e s)
    then show ?thesis using Open_Backend_opens [OF _ ok, of ping extPath "snd (us_state u)" "Inl e" "fst s" "snd s"] ok
      by (auto intro!: users_ok_fewer [OF assms(2)] simp: owners_def conns_ok_def)
  next
    case (use_meta_fails ping extPath e s)
    then show ?thesis using Open_MetaDB_opens [OF _ ok, of ping extPath "snd (us_state u)" "Inl e" "fst s" "snd s"] ok
      by (auto intro!: users_ok_fewer [OF assms(2)] simp: owners_def conns_ok_def)
  next
    case (use_view b)
    then show ?thesis using assms(2) by (simp add: users_ok_def owners_def Backend_Meta_def)
  next
    case (use_close_meta m ans res c)
    then show ?thesis using ok
      by (auto intro!: users_ok_fewer [OF assms(2)] simp: owners_def conns_ok_def MetaDB_Close_def distinct_removeAll
          dest!: db_Close_state split: if_splits)
  qed
qed

lemma use_close_state:
  assumes "use_close i u v"
  shows "v = u\<lparr>us_state := ((fst (us_state u))\<lparr>cn_open := removeAll i (cn_open (fst (us_state u)))\<rparr>, snd (us_state u))\<rparr>"
  using assms by cases (auto simp: Backend_Close_def Handle_Close_def Backend_DB_def dest!: db_Close_state)

lemma use_close_ok: "use_close i u v \<Longrightarrow> users_ok u \<Longrightarrow> users_ok v"
  by (rule users_ok_fewer [of u]) (auto simp: users_ok_def conns_ok_def owners_def distinct_removeAll dest!: use_close_state)

lemma uses_ok: "uses I u v \<Longrightarrow> users_ok u \<Longrightarrow> users_ok v"
  by (induction rule: uses.induct) (auto dest: use_ok use_close_ok)

text \<open>A step that is not the backend's own \<open>Close\<close> leaves its connection as it is.\<close>

lemma use_keeps_open:
  assumes "use u v" "users_ok u" "b \<in> set (us_backends u)"
  shows "Backend_DB b \<in> set (cn_open (fst (us_state v))) \<longleftrightarrow> Backend_DB b \<in> set (cn_open (fst (us_state u)))"
    "b \<in> set (us_backends v)"
proof -
  have ok: "conns_ok (fst (us_state u))" using assms(2) by (simp add: users_ok_def)
  have lt: "Backend_DB b < cn_next (fst (us_state u))" using assms(2,3) by (auto simp: users_ok_def owners_def)
  have ow: "md_db m \<noteq> Backend_DB b" if "m \<in> set (us_metas u)" "md_owner m" for m
    using assms(2,3) that by (auto simp: users_ok_def owners_def)
  show "b \<in> set (us_backends v)" using assms(1,3) by cases auto
  from assms(1) show "Backend_DB b \<in> set (cn_open (fst (us_state v))) \<longleftrightarrow> Backend_DB b \<in> set (cn_open (fst (us_state u)))"
  proof cases
    case (use_backend ping extPath b' s)
    then show ?thesis using Open_Backend_opens [OF _ ok, of ping extPath "snd (us_state u)" "Inr b'" "fst s" "snd s"] lt by auto
  next
    case (use_meta ping extPath m s)
    then show ?thesis using Open_MetaDB_opens [OF _ ok, of ping extPath "snd (us_state u)" "Inr m" "fst s" "snd s"] lt by auto
  next
    case (use_backend_fails ping extPath e s)
    then show ?thesis using Open_Backend_opens [OF _ ok, of ping extPath "snd (us_state u)" "Inl e" "fst s" "snd s"] by auto
  next
    case (use_meta_fails ping extPath e s)
    then show ?thesis using Open_MetaDB_opens [OF _ ok, of ping extPath "snd (us_state u)" "Inl e" "fst s" "snd s"] by auto
  next
    case (use_close_meta m ans res c)
    then show ?thesis using ow [of m] by (auto simp: MetaDB_Close_def dest!: db_Close_state split: if_splits)
  qed simp
qed

text \<open>
  A backend's connection stays open until that backend is closed, whatever is opened, viewed or
  closed beside it, the views of the backend itself included.
\<close>

theorem open_until_closed:
  assumes "uses I u v" "users_ok u" "b \<in> set (us_backends u)" "Backend_DB b \<notin> I"
  shows "b \<in> set (us_backends v)
    \<and> (Backend_DB b \<in> set (cn_open (fst (us_state v))) \<longleftrightarrow> Backend_DB b \<in> set (cn_open (fst (us_state u))))"
  using assms
proof (induction rule: uses.induct)
  case (uses_use u v w)
  then show ?case using use_keeps_open [OF uses_use(2) uses_ok [OF uses_use(1)]] by blast
next
  case (uses_close u v i w)
  then have "Backend_DB b \<noteq> i" by blast
  then show ?case using uses_close use_close_state [OF uses_close(3)] by auto
qed simp

text \<open>Once a backend is closed, its connection is never open again.\<close>

lemma stays_closed:
  assumes "uses I u v" "users_ok u" "b \<in> set (us_backends u)" "Backend_DB b \<notin> set (cn_open (fst (us_state u)))"
  shows "b \<in> set (us_backends v) \<and> Backend_DB b \<notin> set (cn_open (fst (us_state v)))"
  using assms
proof (induction rule: uses.induct)
  case (uses_use u v w)
  then show ?case using use_keeps_open [OF uses_use(2) uses_ok [OF uses_use(1)]] by blast
next
  case (uses_close u v i w)
  then show ?case using use_close_state [OF uses_close(3)] by auto
qed simp

theorem closed_for_good:
  assumes "use_close (Backend_DB b) u v" "users_ok u" "b \<in> set (us_backends u)" "uses I v w"
  shows "Backend_DB b \<notin> set (cn_open (fst (us_state w)))"
  using stays_closed [OF assms(4) use_close_ok [OF assms(1,2)]] use_close_state [OF assms(1)] assms(3) by auto

end
