(* ===== verification/Threads.thy ===== *)
theory Threads
  imports Prelude
begin

text \<open>
  Goroutines over a shared state.  A \<open>prog\<close> runs as a whole; a \<open>thread\<close> is the same program cut at
  the points where another goroutine can run: it is finished, or it takes one atomic step and goes
  on.  \<open>runT\<close> runs a thread alone, and the lemmas \<open>runT_\<dots>\<close> say that cutting changes nothing then.
  A \<open>pool\<close> is a state and the threads that share it; a step of the pool is a step of any one of
  them, a change by the outside, or a new thread.

  The locale \<open>interference\<close> is the contract between threads: a relation \<open>R\<close> every step of every
  thread keeps.  \<open>okT R Q t s\<close> says that \<open>t\<close>, from \<open>s\<close> on and with the others changing the state by
  \<open>R\<close> before each of its steps, keeps \<open>R\<close> itself and ends with a result and a state in \<open>Q\<close>, which
  stays true.
\<close>

section \<open>Threads\<close>

datatype ('s, 'a) thread = Done 'a | Step "'s \<Rightarrow> 's \<times> ('s, 'a) thread"

primrec runT :: "('s, 'a) thread \<Rightarrow> 's \<Rightarrow> 'a \<times> 's" where
  "runT (Done r) = (\<lambda>s. (r, s))"
| "runT (Step f) = (\<lambda>s. case map_prod id runT (f s) of (s', g) \<Rightarrow> g s')"

primrec bindT :: "('s, 'e + 'a) thread \<Rightarrow> ('a \<Rightarrow> ('s, 'e + 'b) thread) \<Rightarrow> ('s, 'e + 'b) thread" where
  "bindT (Done r) k = (case r of Inl e \<Rightarrow> Done (Inl e) | Inr x \<Rightarrow> k x)"
| "bindT (Step f) k = Step (\<lambda>s. map_prod id (\<lambda>t. bindT t k) (f s))"

primrec mapT :: "('a \<Rightarrow> 'b) \<Rightarrow> ('s, 'a) thread \<Rightarrow> ('s, 'b) thread" where
  "mapT h (Done r) = Done (h r)"
| "mapT h (Step f) = Step (\<lambda>s. map_prod id (mapT h) (f s))"

text \<open>A thread on a part of the state.\<close>

primrec partT :: "('w \<Rightarrow> 's) \<Rightarrow> ('s \<Rightarrow> 'w \<Rightarrow> 'w) \<Rightarrow> ('s, 'a) thread \<Rightarrow> ('w, 'a) thread" where
  "partT g p (Done r) = Done r"
| "partT g p (Step f) = Step (\<lambda>w. case map_prod id (partT g p) (f (g w)) of (s, t) \<Rightarrow> (p s w, t))"

definition atomT :: "('s, 'e, 'a) prog \<Rightarrow> ('s, 'e + 'a) thread" where
  "atomT m = Step (\<lambda>s. case m s of (r, s') \<Rightarrow> (s', Done r))"

definition retT :: "'a \<Rightarrow> ('s, 'e + 'a) thread" where
  "retT x = Done (Inr x)"

definition failT :: "'e \<Rightarrow> ('s, 'e + 'a) thread" where
  "failT e = Done (Inl e)"

definition wrapT :: "('e \<Rightarrow> 'e) \<Rightarrow> ('s, 'e + 'a) thread \<Rightarrow> ('s, 'e + 'a) thread" where
  "wrapT h = mapT (map_sum h id)"

lemma thread_induct [case_names Done Step]:
  assumes "\<And>r. P (Done r)" "\<And>f. (\<And>s. P (snd (f s))) \<Longrightarrow> P (Step f)"
  shows "P t"
proof (induction t)
  case (Step f)
  have "P (snd (f s))" for s by (rule Step [of "f s"]) (auto intro: snds.intros)
  then show ?case by (rule assms(2))
qed (rule assms(1))

section \<open>A thread alone\<close>

lemma runT_Step [simp]: "runT (Step f) s = runT (snd (f s)) (fst (f s))"
  by (simp add: split_beta)

lemma runT_Done [simp]: "runT (Done r) s = (r, s)"
  by simp

declare runT.simps [simp del]

lemma runT_bindT [simp]: "runT (bindT t k) = bindP (runT t) (\<lambda>x. runT (k x))"
proof
  show "runT (bindT t k) s = bindP (runT t) (\<lambda>x. runT (k x)) s" for s
    by (induction t arbitrary: s rule: thread_induct) (auto simp: bindP_def split: sum.split)
qed

lemma runT_mapT: "runT (mapT h t) s = map_prod h id (runT t s)"
  by (induction t arbitrary: s rule: thread_induct) simp_all

lemma runT_wrapT [simp]: "runT (wrapT h t) = wrapP h (runT t)"
  by (rule ext) (auto simp: wrapT_def runT_mapT wrapP_def split: prod.split sum.split)

lemma runT_atomT [simp]: "runT (atomT m) = m"
  by (rule ext) (simp add: atomT_def split_beta)

lemma runT_retT [simp]: "runT (retT x) = retP x"
  by (rule ext) (simp add: retT_def)

lemma runT_failT [simp]: "runT (failT e) = failP e"
  by (rule ext) (simp add: failT_def)

text \<open>The part is read back from where it is put.\<close>

lemma runT_partT:
  assumes "\<And>s w. g (p s w) = s" "\<And>s s' w. p s (p s' w) = p s w" "\<And>w. p (g w) w = w"
  shows "runT (partT g p t) w = (case runT t (g w) of (r, s) \<Rightarrow> (r, p s w))"
proof (induction t arbitrary: w rule: thread_induct)
  case (Step f)
  then show ?case by (simp add: split_beta assms(1,2))
qed (simp add: assms(3))

section \<open>Pools\<close>

type_synonym ('s, 'a) pool = "'s \<times> ('s, 'a) thread list"

text \<open>\<open>env\<close> is what the outside may do to the state, \<open>arrive\<close> which threads may start in it.\<close>

inductive pool_step :: "('s \<Rightarrow> 's \<Rightarrow> bool) \<Rightarrow> (('s, 'a) thread \<Rightarrow> bool) \<Rightarrow> ('s, 'a) pool \<Rightarrow> ('s, 'a) pool \<Rightarrow> bool"
  for env arrive where
  pool_turn: "i < length ts \<Longrightarrow> ts ! i = Step f \<Longrightarrow> f s = (s', t') \<Longrightarrow> pool_step env arrive (s, ts) (s', ts[i := t'])"
| pool_env: "env s s' \<Longrightarrow> pool_step env arrive (s, ts) (s', ts)"
| pool_arrive: "arrive t \<Longrightarrow> pool_step env arrive (s, ts) (s, ts @ [t])"

inductive pool_run :: "('s \<Rightarrow> 's \<Rightarrow> bool) \<Rightarrow> (('s, 'a) thread \<Rightarrow> bool) \<Rightarrow> ('s, 'a) pool \<Rightarrow> ('s, 'a) pool \<Rightarrow> bool"
  for env arrive where
  pool_start: "pool_run env arrive p p"
| pool_then: "pool_run env arrive p p1 \<Longrightarrow> pool_step env arrive p1 p2 \<Longrightarrow> pool_run env arrive p p2"

lemma pool_run_trans: "pool_run env arrive q r \<Longrightarrow> pool_run env arrive p q \<Longrightarrow> pool_run env arrive p r"
  by (induction rule: pool_run.induct) (auto intro: pool_then)

text \<open>The only thread of a pool can run to its end.\<close>

lemma pool_runs_alone:
  "pool_run env arrive (s, [t]) (snd (runT t s), [Done (fst (runT t s))])"
proof (induction t arbitrary: s rule: thread_induct)
  case (Step f)
  have "pool_step env arrive (s, [Step f]) (fst (f s), [snd (f s)])"
    using pool_turn [of 0 "[Step f]" f s "fst (f s)" "snd (f s)"] by simp
  then have "pool_run env arrive (s, [Step f]) (fst (f s), [snd (f s)])" by (rule pool_then [OF pool_start])
  then show ?case using Step [of "fst (f s)" s] pool_run_trans by fastforce
qed (simp add: pool_start)

lemma pool_run_length: "pool_run env arrive (s, ts) (s', ts') \<Longrightarrow> length ts \<le> length ts'"
  by (induction "(s, ts)" "(s', ts')" arbitrary: s' ts' rule: pool_run.induct) (auto elim!: pool_step.cases)

text \<open>\<open>turns\<close> runs the threads of a pool by a schedule; a turn of a finished thread is none.\<close>

fun turns :: "nat list \<Rightarrow> ('s, 'a) pool \<Rightarrow> ('s, 'a) pool" where
  "turns [] p = p"
| "turns (i # is) (s, ts) =
     (if i < length ts
      then (case ts ! i of Done r \<Rightarrow> turns is (s, ts) | Step f \<Rightarrow> turns is (fst (f s), ts[i := snd (f s)]))
      else turns is (s, ts))"

lemma turns_run: "pool_run env arrive p (turns is p)"
proof (induction "is" p rule: turns.induct)
  case (2 i "is" s ts)
  show ?case
  proof (cases "i < length ts \<and> (\<exists>f. ts ! i = Step f)")
    case True
    then obtain f where f: "i < length ts" "ts ! i = Step f" by blast
    then have "pool_run env arrive (s, ts) (fst (f s), ts[i := snd (f s)])"
      using pool_then [OF pool_start pool_turn [of i ts f s "fst (f s)" "snd (f s)"]] by simp
    then show ?thesis using 2(2) [OF f(1,2)] f pool_run_trans by fastforce
  next
    case False
    then show ?thesis using 2(1,3) by (cases "ts ! i") auto
  qed
qed (simp add: pool_start)

section \<open>Interference\<close>

primrec okT :: "('s \<Rightarrow> 's \<Rightarrow> bool) \<Rightarrow> ('a \<Rightarrow> 's \<Rightarrow> bool) \<Rightarrow> ('s, 'a) thread \<Rightarrow> 's \<Rightarrow> bool" where
  "okT R Q (Done r) = (\<lambda>s. \<forall>s1. R s s1 \<longrightarrow> Q r s1)"
| "okT R Q (Step f) = (\<lambda>s. \<forall>s1. R s s1 \<longrightarrow> (case map_prod id (okT R Q) (f s1) of (s2, ok) \<Rightarrow> R s1 s2 \<and> ok s2))"

lemma okT_Done [simp]: "okT R Q (Done r) s \<longleftrightarrow> (\<forall>s1. R s s1 \<longrightarrow> Q r s1)"
  by simp

lemma okT_Step [simp]: "okT R Q (Step f) s \<longleftrightarrow> (\<forall>s1. R s s1 \<longrightarrow> R s1 (fst (f s1)) \<and> okT R Q (snd (f s1)) (fst (f s1)))"
  by (simp add: split_beta)

declare okT.simps [simp del]

text \<open>A thread on one part of the state, seen from that part and from another one.\<close>

lemma okT_partT:
  assumes "\<And>s w. g (p s w) = s" "okT R Q t (g w)"
  shows "okT (\<lambda>w w'. R (g w) (g w')) (\<lambda>r w. Q r (g w)) (partT g p t) w"
  using assms(2)
proof (induction t arbitrary: w rule: thread_induct)
  case (Step f)
  then show ?case by (simp add: assms(1) split_beta)
qed simp

lemma okT_other_part:
  assumes "\<And>s w. g (p s w) = g w" "\<And>s. R s s"
  shows "okT (\<lambda>w w'. R (g w) (g w')) (\<lambda>r w. True) (partT h p t) w"
proof (induction t arbitrary: w rule: thread_induct)
  case (Step f)
  then show ?case by (simp add: assms split_beta)
qed simp

locale interference =
  fixes R :: "'s \<Rightarrow> 's \<Rightarrow> bool"
  assumes refl: "reflp R" and trans: "transp R"
begin

lemma R_refl [simp]: "R s s"
  using refl by (rule reflpD)

lemma R_trans: "R a b \<Longrightarrow> R b c \<Longrightarrow> R a c"
  using trans by (rule transpD)

lemma okT_later: "okT R Q t s \<Longrightarrow> R s s' \<Longrightarrow> okT R Q t s'"
  by (induction t rule: thread_induct) (auto intro: R_trans)

lemma okT_bind:
  assumes "okT R (\<lambda>r s. case r of Inl e \<Rightarrow> Q (Inl e) s | Inr x \<Rightarrow> okT R Q (k x) s) t s"
  shows "okT R Q (bindT t k) s"
  using assms
proof (induction t arbitrary: s rule: thread_induct)
  case (Done r)
  then show ?case by (cases r) auto
next
  case (Step f)
  then show ?case by simp
qed

lemma okT_weaken: "okT R Q t s \<Longrightarrow> (\<And>r s1. R s s1 \<Longrightarrow> Q r s1 \<Longrightarrow> Q' r s1) \<Longrightarrow> okT R Q' t s"
proof (induction t arbitrary: s rule: thread_induct)
  case (Step f)
  have "okT R Q' (snd (f s1)) (fst (f s1))" if "R s s1" for s1
  proof (rule Step.IH)
    have g: "R s1 (fst (f s1))" "okT R Q (snd (f s1)) (fst (f s1))" using Step.prems(1) that by simp_all
    then show "okT R Q (snd (f s1)) (fst (f s1))" by blast
    show "Q' r s2" if "R (fst (f s1)) s2" "Q r s2" for r s2
      using Step.prems(2) R_trans [OF R_trans [OF \<open>R s s1\<close> g(1)] that(1)] that(2) by blast
  qed
  then show ?case using Step.prems(1) by simp
qed auto

lemma okT_map: "okT R Q (mapT h t) s \<longleftrightarrow> okT R (\<lambda>r. Q (h r)) t s"
  by (induction t arbitrary: s rule: thread_induct) simp_all

lemma okT_wrap: "okT R Q (wrapT h t) s \<longleftrightarrow> okT R (\<lambda>r. Q (map_sum h id r)) t s"
  by (simp add: wrapT_def okT_map)

lemma okT_atom:
  assumes "\<And>s1. R s s1 \<Longrightarrow> R s1 (snd (m s1))" "\<And>s1 s2. R s s1 \<Longrightarrow> R (snd (m s1)) s2 \<Longrightarrow> Q (fst (m s1)) s2"
  shows "okT R Q (atomT m) s"
  using assms by (simp add: atomT_def split_beta)

text \<open>A thread that only keeps \<open>R\<close>.\<close>

definition calm :: "('s, 'a) thread \<Rightarrow> bool" where
  "calm t \<longleftrightarrow> (\<forall>s. okT R (\<lambda>r s. True) t s)"

lemma calmI: "(\<And>s. okT R (\<lambda>r s. True) t s) \<Longrightarrow> calm t"
  by (simp add: calm_def)

lemma calm_Done [simp]: "calm (Done r)"
  by (simp add: calm_def)

lemma calm_ret [simp]: "calm (retT x)"
  by (simp add: retT_def)

lemma calm_fail [simp]: "calm (failT e)"
  by (simp add: failT_def)

lemma calm_atom: "keeps R m \<Longrightarrow> calm (atomT m)"
  by (auto simp: calm_def keeps_def intro!: okT_atom)

lemma calm_bind:
  assumes "calm t" "\<And>x. calm (k x)"
  shows "calm (bindT t k)"
  unfolding calm_def
proof
  show "okT R (\<lambda>r s. True) (bindT t k) s" for s
    by (rule okT_bind, rule okT_weaken [of "\<lambda>r s. True"]) (use assms in \<open>auto simp: calm_def split: sum.split\<close>)
qed

lemma calm_map [simp]: "calm (mapT h t) = calm t"
  by (simp add: calm_def okT_map)

lemma calm_wrap [simp]: "calm (wrapT h t) = calm t"
  by (simp add: wrapT_def)

lemma calm_okT: "calm t \<Longrightarrow> okT R (\<lambda>r s. True) t s"
  by (simp add: calm_def)

text \<open>What a thread ends with, when its parts do what they should.\<close>

lemma okT_bind_post:
  assumes "okT R P t s" "\<And>x s1. R s s1 \<Longrightarrow> P (Inr x) s1 \<Longrightarrow> okT R Q (k x) s1"
    and "\<And>e s1. R s s1 \<Longrightarrow> P (Inl e) s1 \<Longrightarrow> Q (Inl e) s1"
  shows "okT R Q (bindT t k) s"
  by (rule okT_bind, rule okT_weaken [OF assms(1)]) (auto intro: assms(2,3) split: sum.split)

lemma okT_bind_calm:
  assumes "calm t" "\<And>x s1. R s s1 \<Longrightarrow> okT R Q (k x) s1" "\<And>e s1. Q (Inl e) s1"
  shows "okT R Q (bindT t k) s"
  by (rule okT_bind_post [OF calm_okT [OF assms(1)]]) (auto intro: assms(2,3))

lemma okT_stable: "calm t \<Longrightarrow> (\<And>s1. R s s1 \<Longrightarrow> Q s1) \<Longrightarrow> okT R (\<lambda>r. Q) t s"
  by (rule okT_weaken [OF calm_okT]) auto

text \<open>
  The contract of a pool: when every thread is in order and so is every one that arrives, all
  threads stay so, and the state has changed by \<open>R\<close>.  Threads are named by their position;
  arriving ones come last.
\<close>

theorem pool_ok:
  assumes "pool_run env arrive (s, ts) (s', ts')"
    and "\<And>a b. env a b \<Longrightarrow> R a b"
    and "\<And>i. i < length ts \<Longrightarrow> okT R (Q i) (ts ! i) s"
    and "\<And>t i a. arrive t \<Longrightarrow> length ts \<le> i \<Longrightarrow> R s a \<Longrightarrow> okT R (Q i) t a"
  shows "R s s' \<and> (\<forall>i < length ts'. okT R (Q i) (ts' ! i) s')"
  using assms(1)
proof (induction "(s, ts)" "(s', ts')" arbitrary: s' ts' rule: pool_run.induct)
  case pool_start
  then show ?case using assms(3) by simp
next
  case (pool_then p1)
  obtain s1 ts1 where p1: "p1 = (s1, ts1)" by (cases p1)
  have IH: "R s s1" "\<And>i. i < length ts1 \<Longrightarrow> okT R (Q i) (ts1 ! i) s1"
    using pool_then.hyps(2) p1 by auto
  have len: "length ts \<le> length ts1" using pool_run_length pool_then.hyps(1) p1 by fast
  from pool_then.hyps(3) show ?case
    unfolding p1
  proof (cases rule: pool_step.cases)
    case (pool_turn i f t')
    then have "R s1 s' \<and> okT R (Q i) t' s'" using IH(2) [of i] by (auto dest!: spec [of _ s1])
    then show ?thesis using pool_turn IH R_trans by (auto simp: nth_list_update intro: okT_later)
  next
    case pool_env
    then show ?thesis using assms(2) IH R_trans by (auto intro: okT_later)
  next
    case (pool_arrive t)
    then have "okT R (Q (length ts1)) t s1" using assms(4) len IH(1) by blast
    then show ?thesis using pool_arrive IH by (auto simp: nth_append less_Suc_eq)
  qed
qed

text \<open>A pool that starts with no thread.\<close>

lemma new_pool_ok:
  assumes "pool_run env arrive (s, []) (s', ts)"
    and "\<And>a b. env a b \<Longrightarrow> R a b" "\<And>t a. arrive t \<Longrightarrow> R s a \<Longrightarrow> okT R Q t a"
  shows "R s s'" "t \<in> set ts \<Longrightarrow> okT R Q t s'"
proof -
  have "R s s' \<and> (\<forall>i < length ts. okT R Q (ts ! i) s')"
    by (rule pool_ok [OF assms(1)]) (auto intro: assms(2,3))
  then show "R s s'" "t \<in> set ts \<Longrightarrow> okT R Q t s'" by (auto simp: in_set_conv_nth)
qed

end

end
