(* ===== verification/Interleaving.thy ===== *)
theory Interleaving
  imports Threads Server_Runs
begin

text \<open>
  The methods of the store, the device service and the engine as threads.  The connection pool of
  \<open>open.go\<close> has one connection, so a statement, and a transaction from \<open>BeginTx\<close> to \<open>Commit\<close>, is one
  step; between two of them any other goroutine can run.  The clock is read and advanced under its
  mutex, the list of subscribers is copied under the broadcaster's, and each send is a step.
  \<open>runT_\<dots>\<close> show that a method that nothing interrupts is the definition of the other theories.
\<close>

section \<open>Statements\<close>

type_synonym 'a dbthread = "(database, err + 'a) thread"

definition stmtT :: "'a dbprog \<Rightarrow> 'a dbthread" where
  "stmtT stmt = atomT (sql stmt)"

definition txT :: "'a dbprog \<Rightarrow> 'a dbthread" where
  "txT body = atomT (with_tx body)"

lemma runT_stmtT [simp]: "runT (stmtT stmt) = sql stmt" "runT (txT body) = with_tx body"
  by (simp_all add: stmtT_def txT_def)

section \<open>data.go, meta.go and backend.go\<close>

definition EnsureDatasetT :: "string \<Rightarrow> string \<Rightarrow> string \<Rightarrow> unit dbthread" where
  "EnsureDatasetT appID userID datasetID =
     bindT (wrapT (Wrap ''create snapshots table'') (stmtT create_snapshots)) (\<lambda>_.
     let tbl = datasetTable appID userID datasetID in
     bindT (wrapT (Wrap (''create op_log table '' @ tbl)) (stmtT (create_op_log tbl))) (\<lambda>_.
     bindT (wrapT (Wrap ''check crsql shadow table'') (stmtT (count_master (tbl @ ''__crsql_clock'')))) (\<lambda>count.
     if count > 0 then retT ()
     else wrapT (Wrap (''crsql_as_crr '' @ tbl)) (stmtT (crsql_as_crr tbl)))))"

definition InsertOpsT :: "string \<Rightarrow> string \<Rightarrow> string \<Rightarrow> crdt_op list \<Rightarrow> unit dbthread" where
  "InsertOpsT appID userID datasetID ops =
     (let tbl = datasetTable appID userID datasetID in
      txT (bindP (wrapP (Wrap ''prepare insert'') (sql (prepare tbl)))
             (\<lambda>_. exec_ops ''insert'' tbl insert_ignore ops)))"

definition ReactivateOpsT :: "string \<Rightarrow> string \<Rightarrow> string \<Rightarrow> crdt_op list \<Rightarrow> unit dbthread" where
  "ReactivateOpsT appID userID datasetID ops =
     (let tbl = datasetTable appID userID datasetID in
      txT (bindP (wrapP (Wrap ''prepare reactivate'') (sql (prepare tbl)))
             (\<lambda>_. exec_ops ''reactivate'' tbl insert_activate ops)))"

definition QueryOpsT :: "string \<Rightarrow> string \<Rightarrow> string \<Rightarrow> hlc \<Rightarrow> crdt_op list dbthread" where
  "QueryOpsT appID userID datasetID since =
     (let tbl = datasetTable appID userID datasetID in
      bindT (wrapT (Wrap ''query ops'') (stmtT (read_table tbl (select_ops since)))) (\<lambda>rows.
      bindT (stmtT (retP ())) (\<lambda>_.
      retT (map row_to_op rows))))"

definition CountOpsT :: "string \<Rightarrow> string \<Rightarrow> string \<Rightarrow> int dbthread" where
  "CountOpsT appID userID datasetID =
     wrapT (Wrap ''count ops'')
       (stmtT (read_table (datasetTable appID userID datasetID)
          (\<lambda>rows. int (length (filter (\<lambda>r. row_status r = ''active'') rows)))))"

definition ArchiveOpsT :: "string \<Rightarrow> string \<Rightarrow> string \<Rightarrow> unit dbthread" where
  "ArchiveOpsT appID userID datasetID =
     wrapT (Wrap ''archive ops'')
       (stmtT (on_table (datasetTable appID userID datasetID) (\<lambda>rows. ((), map archive_row rows))))"

definition WriteSnapshotT ::
    "string \<Rightarrow> string \<Rightarrow> string \<Rightarrow> json \<Rightarrow> 64 word \<Rightarrow> 32 word \<Rightarrow> string \<Rightarrow> unit dbthread" where
  "WriteSnapshotT datasetID userID docID data wallTime logical deviceID =
     wrapT (Wrap ''write snapshot'')
       (stmtT (replace_snapshot
          \<lparr>sn_dataset_id = datasetID, sn_user_id = userID, sn_doc_id = docID, sn_data = data,
           sn_wall_time = wallTime, sn_logical = logical, sn_device_id = deviceID, sn_created_at = 0\<rparr>))"

definition SchemaVersionT :: "string \<Rightarrow> string \<Rightarrow> int dbthread" where
  "SchemaVersionT appID datasetID =
     mapT (\<lambda>r. case r of
        Inl e \<Rightarrow> if e = ErrNoRows then Inr 1 else Inl (Wrap ''get schema version'' e)
      | Inr version \<Rightarrow> Inr version) (stmtT (on_meta (select_version appID datasetID)))"

definition MergeOpsT :: "string \<Rightarrow> string \<Rightarrow> string \<Rightarrow> crdt_op list \<Rightarrow> unit dbthread" where
  "MergeOpsT appID userID datasetID ops =
     bindT (wrapT (Wrap ''MergeOps ensure dataset'') (EnsureDatasetT appID userID datasetID)) (\<lambda>_.
     InsertOpsT appID userID datasetID ops)"

definition GetDeltaT :: "string \<Rightarrow> string \<Rightarrow> string \<Rightarrow> hlc \<Rightarrow> (crdt_op list \<times> hlc) dbthread" where
  "GetDeltaT appID userID datasetID since =
     bindT (wrapT (Wrap ''GetDelta ensure dataset'') (EnsureDatasetT appID userID datasetID)) (\<lambda>_.
     bindT (QueryOpsT appID userID datasetID since) (\<lambda>ops.
     retT (ops, max_hlc ops)))"

definition GetSnapshotT :: "ranges \<Rightarrow> string \<Rightarrow> string \<Rightarrow> string \<Rightarrow> ((string, goval) gomap \<times> hlc) dbthread" where
  "GetSnapshotT rg appID userID datasetID =
     bindT (wrapT (Wrap ''GetSnapshot ensure dataset'') (EnsureDatasetT appID userID datasetID)) (\<lambda>_.
     bindT (QueryOpsT appID userID datasetID zero_hlc) (\<lambda>ops.
     retT (flatten_docs rg (mergeOpsLocal ops), max_hlc ops)))"

definition OpCountT :: "string \<Rightarrow> string \<Rightarrow> string \<Rightarrow> int dbthread" where
  "OpCountT appID userID datasetID =
     bindT (wrapT (Wrap ''OpCount ensure dataset'') (EnsureDatasetT appID userID datasetID)) (\<lambda>_.
     CountOpsT appID userID datasetID)"

fun write_snapshotsT :: "string \<Rightarrow> string \<Rightarrow> (string \<times> doc_state) list \<Rightarrow> unit dbthread" where
  "write_snapshotsT datasetID userID [] = retT ()"
| "write_snapshotsT datasetID userID ((docID, ds) # rest) =
     (case json_marshal (GMap (st_fields ds)) of
        None \<Rightarrow> failT (Wrap (''Compact marshal snapshot for doc '' @ docID) ErrMarshal)
      | Some data \<Rightarrow>
          bindT (wrapT (Wrap ''Compact write snapshot'')
                   (WriteSnapshotT datasetID userID docID data
                      (WallTime (st_hlc ds)) (Logical (st_hlc ds)) (st_devID ds)))
            (\<lambda>_. write_snapshotsT datasetID userID rest))"

definition CompactT :: "ranges \<Rightarrow> string \<Rightarrow> string \<Rightarrow> string \<Rightarrow> unit dbthread" where
  "CompactT rg appID userID datasetID =
     bindT (wrapT (Wrap ''Compact ensure dataset'') (EnsureDatasetT appID userID datasetID)) (\<lambda>_.
     bindT (wrapT (Wrap ''Compact query'') (QueryOpsT appID userID datasetID zero_hlc)) (\<lambda>ops.
     let kept = kept_ops rg ops;
         docMap = doc_map kept
     in bindT (write_snapshotsT datasetID userID (shuffle (rg_doc_states rg) docMap)) (\<lambda>_.
        bindT (wrapT (Wrap ''Compact archive'') (ArchiveOpsT appID userID datasetID)) (\<lambda>_.
        if kept \<noteq> []
        then wrapT (Wrap ''Compact reactivate winners'') (ReactivateOpsT appID userID datasetID kept)
        else retT ()))))"

section \<open>engine.go, compaction.go, schema.go and sse.go\<close>

type_synonym server_world = "(database, broadcaster) world"

definition storeT :: "'a dbthread \<Rightarrow> (server_world, err + 'a) thread" where
  "storeT = partT w_store (\<lambda>s w. w\<lparr>w_store := s\<rparr>)"

definition dropT :: "'a \<Rightarrow> ('s, err + 'a) thread \<Rightarrow> ('s, err + 'a) thread" where
  "dropT zero = mapT (\<lambda>r. case r of Inl e \<Rightarrow> Inr zero | Inr x \<Rightarrow> Inr x)"

fun sendsT :: "nat list \<Rightarrow> (broadcaster, err + unit) thread" where
  "sendsT [] = retT ()"
| "sendsT (ch # chs) = bindT (atomT (\<lambda>b. (Inr (), try_send ch b))) (\<lambda>_. sendsT chs)"

definition NotifyT :: "string \<Rightarrow> string \<Rightarrow> (broadcaster, err + unit) thread" where
  "NotifyT appID userID = bindT (atomT (\<lambda>b. (Inr (subs_at b (subKey appID userID)), b))) sendsT"

definition notifierT :: "(broadcaster, err + 'a) thread \<Rightarrow> (server_world, err + 'a) thread" where
  "notifierT = partT w_notifier (\<lambda>n w. w\<lparr>w_notifier := n\<rparr>)"

definition MaybeCompactT :: "ranges \<Rightarrow> string \<Rightarrow> string \<Rightarrow> string \<Rightarrow> int \<Rightarrow> unit dbthread" where
  "MaybeCompactT rg appID userID datasetID threshold =
     bindT (OpCountT appID userID datasetID) (\<lambda>count.
     if count > threshold then CompactT rg appID userID datasetID else retT ())"

definition NeedsSnapshotT :: "string \<Rightarrow> string \<Rightarrow> int \<Rightarrow> bool dbthread" where
  "NeedsSnapshotT appID datasetID clientVersion =
     bindT (SchemaVersionT appID datasetID) (\<lambda>serverVersion.
     retT (serverVersion > clientVersion))"

definition ReceiveT :: "64 word \<Rightarrow> hlc \<Rightarrow> (server_world, err + hlc) thread" where
  "ReceiveT wall remote =
     atomT (\<lambda>w. case Receive wall remote (w_clock w) of (serverClock, clk) \<Rightarrow> (Inr serverClock, w\<lparr>w_clock := clk\<rparr>))"

definition Sync_snapshotT :: "ranges \<Rightarrow> sync_message \<Rightarrow> (server_world, err + (string, goval) gomap option) thread" where
  "Sync_snapshotT rg msg =
     bindT (storeT (NeedsSnapshotT (msg_AppID msg) (msg_DatasetID msg) (msg_ClientSchemaVersion msg))) (\<lambda>needsSnap.
     if needsSnap then
       bindT (storeT (GetSnapshotT rg (msg_AppID msg) (msg_UserID msg) (msg_DatasetID msg)))
         (\<lambda>(snap, _). retT (Some snap))
     else retT None)"

definition Sync_pushT :: "ranges \<Rightarrow> int \<Rightarrow> sync_message \<Rightarrow> (server_world, err + unit) thread" where
  "Sync_pushT rg threshold msg =
     (if msg_Ops msg \<noteq> [] then
        bindT (storeT (MergeOpsT (msg_AppID msg) (msg_UserID msg) (msg_DatasetID msg) (msg_Ops msg))) (\<lambda>_.
        bindT (dropT () (notifierT (NotifyT (msg_AppID msg) (msg_UserID msg)))) (\<lambda>_.
        dropT () (storeT (MaybeCompactT rg (msg_AppID msg) (msg_UserID msg) (msg_DatasetID msg) threshold))))
      else retT ())"

definition Sync_deltaT :: "sync_message \<Rightarrow> hlc \<Rightarrow> (string, goval) gomap option
    \<Rightarrow> (server_world, err + sync_response) thread" where
  "Sync_deltaT msg serverClock snapshot =
     bindT (storeT (GetDeltaT (msg_AppID msg) (msg_UserID msg) (msg_DatasetID msg) (msg_Clock msg))) (\<lambda>(delta, newClock).
     bindT (dropT 0 (storeT (SchemaVersionT (msg_AppID msg) (msg_DatasetID msg)))) (\<lambda>schemaVer.
     retT \<lparr>resp_NewClock = (if WallTime newClock = 0 then serverClock else newClock),
           resp_Ops = delta, resp_Snapshot = snapshot, resp_SchemaVersion = schemaVer\<rparr>))"

definition SyncT :: "ranges \<Rightarrow> int \<Rightarrow> 64 word \<Rightarrow> sync_message \<Rightarrow> (server_world, err + sync_response) thread" where
  "SyncT rg threshold wall msg =
     bindT (ReceiveT wall (msg_Clock msg)) (\<lambda>serverClock.
     bindT (Sync_snapshotT rg msg) (\<lambda>snapshot.
     bindT (Sync_pushT rg threshold msg) (\<lambda>_.
     Sync_deltaT msg serverClock snapshot)))"

section \<open>device.go, authstore.go and adminstore.go\<close>

definition GetDeviceKeyT :: "string \<Rightarrow> device_key dbthread" where
  "GetDeviceKeyT deviceKeyID =
     wrapT (\<lambda>e. if e = ErrNoRows then ErrDeviceNotFound else e) (stmtT (on_meta (select_key deviceKeyID)))"

definition CreateDeviceKeyT :: "device_key \<Rightarrow> unit dbthread" where
  "CreateDeviceKeyT dk = stmtT (on_meta (insert_key dk))"

definition UpdateDeviceKeyT :: "int \<Rightarrow> device_key \<Rightarrow> unit dbthread" where
  "UpdateDeviceKeyT now dk = stmtT (on_meta (update_key now dk))"

definition RegisterT :: "(string \<Rightarrow> err + string) \<Rightarrow> err + string \<Rightarrow> string \<Rightarrow> int
    \<Rightarrow> string \<Rightarrow> string \<Rightarrow> (string \<times> string) dbthread" where
  "RegisterT gen rand uuid now appID deviceID =
     (case randomHex rand of
        Inl e \<Rightarrow> failT (Wrap ''generate secret'' e)
      | Inr secret \<Rightarrow>
          (case gen secret of
             Inl e \<Rightarrow> failT (Wrap ''hash secret'' e)
           | Inr hash \<Rightarrow>
               bindT (CreateDeviceKeyT
                 \<lparr>dk_DeviceKeyID = uuid, dk_DeviceID = deviceID, dk_AppID = appID, dk_KeyHash = hash,
                  dk_Status = ''active'', dk_RegisteredAt = now, dk_LastSeenAt = None\<rparr>)
                 (\<lambda>_. retT (uuid, secret))))"

definition VerifyT :: "(string \<Rightarrow> string \<Rightarrow> bool) \<Rightarrow> string \<Rightarrow> string \<Rightarrow> unit dbthread" where
  "VerifyT cmp deviceKeyID secret =
     bindT (wrapT (\<lambda>_. ErrDeviceNotFound) (GetDeviceKeyT deviceKeyID)) (\<lambda>dk.
     if dk_Status dk \<noteq> ''active'' then failT ErrDeviceRevoked
     else if \<not> cmp (dk_KeyHash dk) secret then failT ErrInvalidSecret
     else retT ())"

definition RotateKeyT :: "(string \<Rightarrow> string \<Rightarrow> bool) \<Rightarrow> (string \<Rightarrow> err + string) \<Rightarrow> int
    \<Rightarrow> string \<Rightarrow> string \<Rightarrow> string \<Rightarrow> unit dbthread" where
  "RotateKeyT cmp gen now deviceKeyID oldSecret newSecret =
     bindT (wrapT (\<lambda>_. ErrDeviceNotFound) (GetDeviceKeyT deviceKeyID)) (\<lambda>dk.
     if dk_Status dk \<noteq> ''active'' then failT ErrDeviceRevoked
     else if \<not> cmp (dk_KeyHash dk) oldSecret then failT ErrInvalidSecret
     else (case gen newSecret of
             Inl e \<Rightarrow> failT e
           | Inr hash \<Rightarrow> UpdateDeviceKeyT now (dk\<lparr>dk_KeyHash := hash\<rparr>)))"

definition RevokeT :: "int \<Rightarrow> string \<Rightarrow> unit dbthread" where
  "RevokeT now deviceKeyID =
     bindT (wrapT (\<lambda>_. ErrDeviceNotFound) (GetDeviceKeyT deviceKeyID)) (\<lambda>dk.
     UpdateDeviceKeyT now (dk\<lparr>dk_Status := ''revoked''\<rparr>))"

definition RevokeDeviceT :: "string \<Rightarrow> unit dbthread" where
  "RevokeDeviceT deviceKeyID =
     bindT (stmtT (on_meta (revoke_row deviceKeyID))) (\<lambda>n. if n = 0 then failT ErrDeviceNotFound else retT ())"

definition DeleteDocT :: "string \<Rightarrow> string \<Rightarrow> string \<Rightarrow> unit dbthread" where
  "DeleteDocT datasetID userID docID =
     stmtT (on_snapshots (\<lambda>rs. (Inr (), filter (\<lambda>r. \<not> is_doc datasetID userID docID r) rs)))"

definition WriteSyncEventT :: "string \<Rightarrow> string \<Rightarrow> string \<Rightarrow> string \<Rightarrow> int \<Rightarrow> unit dbthread" where
  "WriteSyncEventT appID datasetID userID deviceKeyID opCount =
     stmtT (on_meta (\<lambda>db. (Inr (), db\<lparr>sync_events := sync_events db @
       [\<lparr>ev_id = next_event_id db, ev_app_id = appID, ev_dataset_id = datasetID, ev_user_id = userID,
         ev_device_key_id = deviceKeyID, ev_op_count = opCount, ev_synced_at = db_now db\<rparr>],
       next_event_id := next_event_id db + 1\<rparr>)))"

section \<open>Alone, a thread is the method\<close>

lemma runT_EnsureDatasetT [simp]: "runT (EnsureDatasetT a u d) = EnsureDataset a u d"
  by (rule ext) (simp add: EnsureDatasetT_def EnsureDataset_def Let_def if_distrib [of runT] cong: if_cong)

lemma runT_log [simp]:
  "runT (InsertOpsT a u d ops) = InsertOps a u d ops" "runT (ReactivateOpsT a u d ops) = ReactivateOps a u d ops"
  "runT (QueryOpsT a u d since) = QueryOps a u d since" "runT (CountOpsT a u d) = CountOps a u d"
  "runT (ArchiveOpsT a u d) = ArchiveOps a u d" "runT (WriteSnapshotT d u k data t l dev) = WriteSnapshot d u k data t l dev"
  by (simp_all add: InsertOpsT_def InsertOps_def ReactivateOpsT_def ReactivateOps_def QueryOpsT_def QueryOps_def
      CountOpsT_def CountOps_def ArchiveOpsT_def ArchiveOps_def WriteSnapshotT_def WriteSnapshot_def Let_def)

lemma runT_SchemaVersionT [simp]: "runT (SchemaVersionT a d) = SchemaVersion a d"
  by (rule ext) (auto simp: SchemaVersionT_def SchemaVersion_def GetSchemaVersion_def runT_mapT split: prod.split sum.split)

lemma runT_backend [simp]:
  "runT (MergeOpsT a u d ops) = MergeOps a u d ops" "runT (GetDeltaT a u d since) = GetDelta a u d since"
  "runT (GetSnapshotT rg a u d) = GetSnapshot rg a u d" "runT (OpCountT a u d) = OpCount a u d"
  by (simp_all add: MergeOpsT_def MergeOps_def GetDeltaT_def GetDelta_def GetSnapshotT_def GetSnapshot_def
      OpCountT_def OpCount_def Let_def)

lemma runT_write_snapshotsT [simp]: "runT (write_snapshotsT d u docs) = write_snapshots d u docs"
proof (induction d u docs rule: write_snapshots.induct)
  case (2 d u doc ds rest)
  then show ?case by (cases "json_marshal (GMap (st_fields ds))") (simp_all add: failP_def)
qed simp

lemma runT_CompactT [simp]: "runT (CompactT rg a u d) = Compact rg a u d"
  by (simp add: CompactT_def Compact_def Let_def if_distrib [of runT] cong: if_cong)

lemma runT_storeT [simp]: "runT (storeT t) = on_store (runT t)"
  by (rule ext) (simp add: storeT_def runT_partT on_store_def)

lemma runT_notifierT [simp]: "runT (notifierT t) = on_notifier (runT t)"
  by (rule ext) (simp add: notifierT_def runT_partT on_notifier_def)

lemma runT_dropT [simp]: "runT (dropT zero t) = dropP zero (runT t)"
  by (rule ext) (auto simp: dropT_def runT_mapT dropP_def split: prod.split sum.split)

lemma runT_NotifyT [simp]: "runT (NotifyT a u) = Notify a u"
proof -
  have "runT (sendsT chs) b = (Inr (), foldl (\<lambda>b ch. try_send ch b) b chs)" for chs b
    by (induction chs arbitrary: b) (simp_all add: bindP_def)
  then show ?thesis by (auto simp: NotifyT_def Notify_def bindP_def)
qed

lemma crsqlite_sel:
  "sb_MergeOps (crsqlite rg) = MergeOps" "sb_GetDelta (crsqlite rg) = GetDelta" "sb_GetSnapshot (crsqlite rg) = GetSnapshot rg"
  "sb_SchemaVersion (crsqlite rg) = SchemaVersion" "sb_OpCount (crsqlite rg) = OpCount" "sb_Compact (crsqlite rg) = Compact rg"
  by (simp_all add: crsqlite_def)

lemma runT_engine [simp]:
  "runT (MaybeCompactT rg a u d th) = MaybeCompact (crsqlite rg) a u d th"
  "NeedsSnapshot (crsqlite rg) a d v = runT (NeedsSnapshotT a d v)"
  by (simp_all add: MaybeCompactT_def MaybeCompact_def NeedsSnapshotT_def NeedsSnapshot_def crsqlite_def
      if_distrib [of runT] cong: if_cong)

theorem runT_SyncT: "runT (SyncT rg th wall msg) = Sync (NewEngine (crsqlite rg) Notify th) wall msg"
proof
  let ?e = "NewEngine (crsqlite rg) Notify th"
  note sel = NewEngine_def crsqlite_sel
  have snap: "runT (Sync_snapshotT rg msg) = Sync_snapshot ?e msg"
    by (simp add: Sync_snapshotT_def Sync_snapshot_def sel split_def if_distrib [of runT] cong: if_cong)
  have push: "runT (Sync_pushT rg th msg) = Sync_push ?e msg"
    by (simp add: Sync_pushT_def Sync_push_def sel if_distrib [of runT] cong: if_cong)
  have delta: "runT (Sync_deltaT msg c s) = Sync_delta ?e msg c s" for c s
    by (simp add: Sync_deltaT_def Sync_delta_def sel split_def)
  show "runT (SyncT rg th wall msg) w = Sync ?e wall msg w" for w
    by (simp add: SyncT_def Sync_def snap push delta ReceiveT_def bindP_def split: prod.split)
qed

lemma runT_devices [simp]:
  "runT (RegisterT gen rand uuid now app dev) = Register (NewAuthStore now') gen rand uuid now app dev"
  "runT (VerifyT cmp k secret) = Verify (NewAuthStore now') cmp k secret"
  "runT (RotateKeyT cmp gen now k old new) = RotateKey (NewAuthStore now) cmp gen k old new"
  "runT (RevokeT now k) = Revoke (NewAuthStore now) k"
proof -
  have store: "runT (GetDeviceKeyT k) = db_GetDeviceKey k" "runT (CreateDeviceKeyT dk) = db_CreateDeviceKey dk"
    "runT (UpdateDeviceKeyT now dk) = db_UpdateDeviceKey now dk" for k dk now
    by (auto simp: GetDeviceKeyT_def db_GetDeviceKey_def CreateDeviceKeyT_def db_CreateDeviceKey_def UpdateDeviceKeyT_def
        db_UpdateDeviceKey_def wrapP_def fun_eq_iff split: prod.split sum.split)
  note defs = store NewAuthStore_def if_distrib [of runT] sum.case_distrib [of runT]
  show "runT (RegisterT gen rand uuid now app dev) = Register (NewAuthStore now') gen rand uuid now app dev"
    by (simp add: RegisterT_def Register_def defs cong: sum.case_cong)
  show "runT (VerifyT cmp k secret) = Verify (NewAuthStore now') cmp k secret"
    by (simp add: VerifyT_def Verify_def defs cong: if_cong)
  show "runT (RotateKeyT cmp gen now k old new) = RotateKey (NewAuthStore now) cmp gen k old new"
    by (simp add: RotateKeyT_def RotateKey_def defs cong: if_cong sum.case_cong)
  show "runT (RevokeT now k) = Revoke (NewAuthStore now) k"
    by (simp add: RevokeT_def Revoke_def defs)
qed

lemma runT_admin [simp]:
  "runT (RevokeDeviceT k) = RevokeDevice k" "runT (DeleteDocT d u k) = DeleteDoc d u k"
  "runT (WriteSyncEventT a d u k n) = WriteSyncEvent a d u k n"
  by (simp_all add: RevokeDeviceT_def RevokeDevice_def DeleteDocT_def DeleteDoc_def WriteSyncEventT_def WriteSyncEvent_def
      if_distrib [of runT] cong: if_cong)

end
