(* ===== verification/Concurrency.thy ===== *)
theory Concurrency
  imports Interleaving
begin

text \<open>
  The calls of the server's handlers as threads of one pool: any number of syncs, registrations,
  verifications, rotations, revocations and admin calls at once, cut at every statement, with any
  errors of the driver and with event streams that come and go.  A relation every single statement
  keeps is a contract between them (\<open>statement_relation\<close> gives \<open>interference\<close>), so what holds for
  statements holds for every interleaving of handlers.
\<close>

section \<open>Statements keep their relation\<close>

sublocale statement_relation < threads: interference R
  by unfold_locales (rule refl trans)+

sublocale statement_relation < worlds: interference "store_rel R :: server_world \<Rightarrow> server_world \<Rightarrow> bool"
  by unfold_locales (auto simp: reflp_def transp_def store_rel_def intro: R_trans)

context statement_relation
begin

lemma calm_stmtT: "keeps R stmt \<Longrightarrow> threads.calm (stmtT stmt)"
  unfolding stmtT_def by (intro threads.calm_atom keeps_sql_R)

lemma calm_txT: "keeps R body \<Longrightarrow> threads.calm (txT body)"
  unfolding txT_def by (intro threads.calm_atom keeps_tx_R)

lemma keeps_pure: "(\<And>db. snd (m db) = db) \<Longrightarrow> keeps R m"
  by (simp add: keeps_def)

lemma calm_SchemaVersionT: "threads.calm (SchemaVersionT a' d')"
  unfolding SchemaVersionT_def threads.calm_map
  by (intro calm_stmtT keeps_pure) (simp add: on_meta_def select_version_def split: option.split)

lemma okT_storeT: "okT R Q t (w_store w) \<Longrightarrow> okT (store_rel R) (\<lambda>r w. Q r (w_store w)) (storeT t) w"
  unfolding storeT_def store_rel_def [abs_def] by (rule okT_partT) simp_all

lemma calm_storeT: "threads.calm t \<Longrightarrow> worlds.calm (storeT t)"
  by (intro worlds.calmI okT_storeT [of "\<lambda>r s. True"] threads.calm_okT)

lemma calm_notifierT: "worlds.calm (notifierT t)"
  by (rule worlds.calmI, unfold notifierT_def store_rel_def [abs_def]) (rule okT_other_part, simp_all)

lemma calm_dropT: "worlds.calm t \<Longrightarrow> worlds.calm (dropT zero t)"
  by (simp add: dropT_def)

lemma calm_ReceiveT: "worlds.calm (ReceiveT wall remote)"
  unfolding ReceiveT_def by (rule worlds.calm_atom) (simp add: keeps_def store_rel_def split: prod.split)

end

context dataset_invariant
begin

lemma calm_EnsureDatasetT: "threads.calm (EnsureDatasetT a u d)"
  unfolding EnsureDatasetT_def Let_def
  by (intro threads.calm_bind) (simp_all add: calm_stmtT snapshots_step op_log_step crr_step keeps_count_master_R)

lemma calm_InsertOpsT: "threads.calm (InsertOpsT a u d ops)"
  unfolding InsertOpsT_def Let_def prepare_def
  by (intro calm_txT keeps_bind_R keeps_wrapP keeps_sql_R keeps_read_R keeps_exec_ops
      keeps_on_table_R insert_step; assumption)

lemma calm_ReactivateOpsT: "threads.calm (ReactivateOpsT a u d ops)"
  unfolding ReactivateOpsT_def Let_def prepare_def
  by (intro calm_txT keeps_bind_R keeps_wrapP keeps_sql_R keeps_read_R keeps_exec_ops
      keeps_on_table_R activate_step; assumption)

lemma calm_QueryOpsT: "threads.calm (QueryOpsT a u d since)"
  unfolding QueryOpsT_def Let_def
  by (intro threads.calm_bind) (simp_all add: calm_stmtT keeps_read_R)

lemma calm_CountOpsT: "threads.calm (CountOpsT a u d)"
  by (simp add: CountOpsT_def calm_stmtT keeps_read_R)

lemma calm_ArchiveOpsT: "threads.calm (ArchiveOpsT a u d)"
  by (simp add: ArchiveOpsT_def calm_stmtT keeps_on_table_R archive_step)

lemma calm_write_snapshotsT: "threads.calm (write_snapshotsT d' u' docs)"
  by (induction d' u' docs rule: write_snapshotsT.induct)
    (simp_all add: WriteSnapshotT_def threads.calm_bind calm_stmtT replace_step split: option.split)

lemma calm_MergeOpsT: "threads.calm (MergeOpsT a u d ops)"
  unfolding MergeOpsT_def by (intro threads.calm_bind) (simp_all add: calm_EnsureDatasetT calm_InsertOpsT)

lemma calm_GetDeltaT: "threads.calm (GetDeltaT a u d since)"
  unfolding GetDeltaT_def by (intro threads.calm_bind) (simp_all add: calm_EnsureDatasetT calm_QueryOpsT)

lemma calm_GetSnapshotT: "threads.calm (GetSnapshotT rg a u d)"
  unfolding GetSnapshotT_def by (intro threads.calm_bind) (simp_all add: calm_EnsureDatasetT calm_QueryOpsT)

lemma calm_CompactT: "threads.calm (CompactT rg a u d)"
  unfolding CompactT_def Let_def
  by (intro threads.calm_bind)
    (simp_all add: calm_EnsureDatasetT calm_QueryOpsT calm_write_snapshotsT calm_ArchiveOpsT calm_ReactivateOpsT)

lemma calm_MaybeCompactT: "threads.calm (MaybeCompactT rg a u d threshold)"
  unfolding MaybeCompactT_def OpCountT_def
  by (intro threads.calm_bind) (simp_all add: calm_EnsureDatasetT calm_CountOpsT calm_CompactT)

lemmas calm_store = calm_MergeOpsT calm_GetDeltaT calm_GetSnapshotT calm_MaybeCompactT calm_SchemaVersionT

text \<open>A sync keeps the relation; what holds when its push has ended holds when it is answered.\<close>

lemma okT_SyncT:
  assumes msg: "msg_AppID msg = a" "msg_UserID msg = u" "msg_DatasetID msg = d"
    and "\<And>w w'. Q w \<Longrightarrow> store_rel R w w' \<Longrightarrow> Q w'"
    and merged: "\<And>w. okT (store_rel R) (\<lambda>r w. (\<exists>x. r = Inr x) \<longrightarrow> Q w) (storeT (MergeOpsT a u d (msg_Ops msg))) w"
    and "msg_Ops msg = [] \<Longrightarrow> Q w"
  shows "okT (store_rel R) (\<lambda>r w. (\<exists>resp. r = Inr resp) \<longrightarrow> Q w) (SyncT rg threshold wall msg) w"
proof -
  have needs: "worlds.calm (storeT (NeedsSnapshotT a d v))" for v
    unfolding NeedsSnapshotT_def by (intro calm_storeT threads.calm_bind calm_store threads.calm_ret)
  have get: "worlds.calm (bindT (storeT (GetSnapshotT rg a u d)) (\<lambda>(snap, _). retT (Some snap)))"
    unfolding split_def by (intro worlds.calm_bind calm_storeT calm_store worlds.calm_ret)
  have snapshot: "worlds.calm (Sync_snapshotT rg msg)"
    unfolding Sync_snapshotT_def msg by (rule worlds.calm_bind [OF needs]) (simp add: get)
  have tail: "worlds.calm (bindT (dropT () (notifierT (NotifyT a u))) (\<lambda>_. dropT () (storeT (MaybeCompactT rg a u d threshold))))"
    by (intro worlds.calm_bind calm_dropT calm_notifierT calm_storeT calm_store)
  have push: "okT (store_rel R) (\<lambda>r w. (\<exists>x. r = Inr x) \<longrightarrow> Q w) (Sync_pushT rg threshold msg) w1" if "store_rel R w w1" for w1
  proof (cases "msg_Ops msg = []")
    case True
    then show ?thesis using assms(4) [OF assms(6)] worlds.R_trans [OF that] by (simp add: Sync_pushT_def retT_def)
  next
    case False
    have "okT (store_rel R) (\<lambda>r w. (\<exists>x. r = Inr x) \<longrightarrow> Q w)
        (bindT (dropT () (notifierT (NotifyT a u))) (\<lambda>_. dropT () (storeT (MaybeCompactT rg a u d threshold)))) w2" if "Q w2" for w2
      by (rule worlds.okT_weaken [OF worlds.okT_stable [OF tail, where Q = Q]]) (use that assms(4) in blast)+
    then show ?thesis
      using False by (auto simp: Sync_pushT_def msg intro!: worlds.okT_bind_post [OF merged])
  qed
  have delta: "worlds.calm (Sync_deltaT msg c s)" for c s
    unfolding Sync_deltaT_def msg split_def
    by (intro worlds.calm_bind calm_dropT calm_storeT calm_store worlds.calm_ret)
  show ?thesis
    unfolding SyncT_def
  proof (rule worlds.okT_bind_calm [OF calm_ReceiveT])
    fix c w1
    assume 1: "store_rel R w w1"
    show "okT (store_rel R) (\<lambda>r w. (\<exists>resp. r = Inr resp) \<longrightarrow> Q w)
      (bindT (Sync_snapshotT rg msg) (\<lambda>snapshot. bindT (Sync_pushT rg threshold msg) (\<lambda>_. Sync_deltaT msg c snapshot))) w1"
    proof (rule worlds.okT_bind_calm [OF snapshot])
      fix snap w2
      assume 2: "store_rel R w1 w2"
      show "okT (store_rel R) (\<lambda>r w. (\<exists>resp. r = Inr resp) \<longrightarrow> Q w)
          (bindT (Sync_pushT rg threshold msg) (\<lambda>_. Sync_deltaT msg c snap)) w2"
        by (rule worlds.okT_bind_post [OF push [OF worlds.R_trans [OF 1 2]]])
          (auto intro!: worlds.okT_weaken [OF worlds.okT_stable [OF delta, where Q = Q]] intro: assms(4))
    qed simp
  qed simp
qed

lemma calm_SyncT:
  assumes "msg_AppID msg = a" "msg_UserID msg = u" "msg_DatasetID msg = d"
  shows "worlds.calm (SyncT rg threshold wall msg)"
proof -
  have "okT (store_rel R) (\<lambda>r w. (\<exists>x. r = Inr x) \<longrightarrow> True) (storeT (MergeOpsT a u d (msg_Ops msg))) w" for w
    using worlds.calm_okT [OF calm_storeT [OF calm_MergeOpsT]] by simp
  then show ?thesis
    by (intro worlds.calmI) (use okT_SyncT [OF assms, where Q = "\<lambda>_. True"] in simp)
qed

end

section \<open>The calls of the handlers\<close>

datatype call =
    SyncCall ranges int "64 word" sync_message
  | DeviceCall device_call
  | DeleteDocCall string string string
  | EventCall string string string string int

text \<open>What a call ends with, as far as the properties speak of it.\<close>

datatype outcome = Synced sync_message "err + sync_response" | Verified string "err + unit" | Ended

fun device_callT :: "(string \<Rightarrow> string \<Rightarrow> bool) \<Rightarrow> device_call \<Rightarrow> (database, outcome) thread" where
  "device_callT cmp (CallRegister gen rand uuid now app dev) = mapT (\<lambda>_. Ended) (RegisterT gen rand uuid now app dev)"
| "device_callT cmp (CallVerify k secret) = mapT (Verified k) (VerifyT cmp k secret)"
| "device_callT cmp (CallRotate gen now k old new) = mapT (\<lambda>_. Ended) (RotateKeyT cmp gen now k old new)"
| "device_callT cmp (CallRevoke now k) = mapT (\<lambda>_. Ended) (RevokeT now k)"
| "device_callT cmp (CallAdminRevoke k) = mapT (\<lambda>_. Ended) (RevokeDeviceT k)"

definition store_callT :: "(database, outcome) thread \<Rightarrow> (server_world, outcome) thread" where
  "store_callT = partT w_store (\<lambda>s w. w\<lparr>w_store := s\<rparr>)"

fun callT :: "(string \<Rightarrow> string \<Rightarrow> bool) \<Rightarrow> call \<Rightarrow> (server_world, outcome) thread" where
  "callT cmp (SyncCall rg threshold wall msg) = mapT (Synced msg) (SyncT rg threshold wall msg)"
| "callT cmp (DeviceCall c) = store_callT (device_callT cmp c)"
| "callT cmp (DeleteDocCall d u k) = store_callT (mapT (\<lambda>_. Ended) (DeleteDocT d u k))"
| "callT cmp (EventCall a d u k n) = store_callT (mapT (\<lambda>_. Ended) (WriteSyncEventT a d u k n))"

context statement_relation
begin

lemma okT_store_callT:
  assumes "threads.calm t" "\<And>r w. Q (h r) w"
  shows "okT (store_rel R) Q (store_callT (mapT h t)) w"
proof -
  have "okT R (\<lambda>r db. \<forall>w. Q r w) (mapT h t) db" for db
    unfolding threads.okT_map by (rule threads.okT_weaken [OF threads.calm_okT [OF assms(1)]]) (use assms(2) in blast)
  then have "okT (store_rel R) (\<lambda>r w. \<forall>w. Q r w) (store_callT (mapT h t)) w"
    unfolding store_callT_def store_rel_def [abs_def] by (intro okT_partT) simp_all
  then show ?thesis by (rule worlds.okT_weaken) blast
qed

end

definition handler_call :: "(string \<Rightarrow> string \<Rightarrow> bool) \<Rightarrow> (server_world, outcome) thread \<Rightarrow> bool" where
  "handler_call cmp t \<longleftrightarrow> (\<exists>c. t = callT cmp c)"

text \<open>
  The outside: the driver's errors to come and the time, and the event streams, which subscribe,
  read and leave.
\<close>

definition outside :: "server_world \<Rightarrow> server_world \<Rightarrow> bool" where
  "outside w w' \<longleftrightarrow> (\<exists>fs t n. w' = w\<lparr>w_store := (w_store w)\<lparr>faults := fs, db_now := t\<rparr>, w_notifier := n\<rparr>)"

section \<open>What every interleaving keeps\<close>

lemma keeps_sound:
  "keeps ok_step m \<Longrightarrow> keeps durable m \<Longrightarrow> keeps (frame_other tbl) m \<Longrightarrow> keeps sound m"
  by (auto simp: keeps_def sound_def frame_other_def key_ids_def)

lemma sound_frame: "ok_step db db' \<Longrightarrow> durable db db' \<Longrightarrow> frame_other tbl db db' \<Longrightarrow> sound db db'"
  by (auto simp: sound_def frame_other_def key_ids_def)

interpretation sound_inv: dataset_invariant sound a u d
proof unfold_locales
  show "reflp sound" "transp sound" by (auto simp: reflp_def transp_def intro: sound_trans)
  note all = ok_inv.insert_step durable_inv.insert_step frame_inv.insert_step
    ok_inv.activate_step durable_inv.activate_step frame_inv.activate_step
    ok_inv.archive_step durable_inv.archive_step frame_inv.archive_step
  show "sound db (db\<lparr>faults := fs\<rparr>)" "sound db (db\<lparr>faults := faults db'\<rparr>)" for db db' fs
    by (simp_all add: sound_content)
  show "keeps sound create_snapshots" "keeps sound (create_op_log (datasetTable a u d))"
    "keeps sound (crsql_as_crr (datasetTable a u d))" "keeps sound (replace_snapshot sn)" for sn
    by (rule keeps_sound [OF ok_inv.snapshots_step durable_inv.snapshots_step frame_inv.snapshots_step]
        keeps_sound [OF ok_inv.op_log_step durable_inv.op_log_step frame_inv.op_log_step]
        keeps_sound [OF ok_inv.crr_step durable_inv.crr_step frame_inv.crr_step]
        keeps_sound [OF ok_inv.replace_step durable_inv.replace_step frame_inv.replace_step])+
  fix db rows and r :: op_row
  assume rows: "table_rows (datasetTable a u d) db = Some rows"
  show "sound db (set_rows (datasetTable a u d) (map archive_row rows) db)"
    using rows by (intro sound_frame [of _ _ "datasetTable a u d"] all)
  assume "row_status r = ''active''"
  note step = all(1-6) [OF rows this]
  show "sound db (set_rows (datasetTable a u d) (snd (insert_ignore r rows)) db)" by (rule sound_frame [OF step(1-3)])
  show "sound db (set_rows (datasetTable a u d) (snd (insert_activate r rows)) db)" by (rule sound_frame [OF step(4-6)])
qed

lemma calm_sound_stmt: "keeps key_change (sql stmt) \<Longrightarrow> sound_inv.threads.calm (stmtT stmt)"
  unfolding stmtT_def by (rule sound_inv.threads.calm_atom, rule keeps_weaken [where R = key_change]) (auto intro: sound_key_change)

lemma calm_sound_keys:
  "sound_inv.threads.calm (GetDeviceKeyT k)" "sound_inv.threads.calm (CreateDeviceKeyT dk)"
  "sound_inv.threads.calm (UpdateDeviceKeyT now dk)" "sound_inv.threads.calm (stmtT (on_meta (revoke_row k)))"
  "sound_inv.threads.calm (WriteSyncEventT a d u k n)"
proof -
  show "sound_inv.threads.calm (GetDeviceKeyT k)"
    unfolding GetDeviceKeyT_def sound_inv.threads.calm_wrap
    by (rule sound_inv.calm_stmtT, rule sound_inv.keeps_pure) (simp add: on_meta_def select_key_def split: option.split)
  have "keeps key_change (sql (on_meta (revoke_row k)))"
    unfolding revoke_row_def by (rule keeps_meta_keys) (auto simp: key_ids_def intro!: key_change_update)
  then show "sound_inv.threads.calm (stmtT (on_meta (revoke_row k)))" by (rule calm_sound_stmt)
qed (use key_store_changes in \<open>auto simp: CreateDeviceKeyT_def UpdateDeviceKeyT_def WriteSyncEventT_def WriteSyncEvent_def
  NewAuthStore_def db_CreateDeviceKey_def db_UpdateDeviceKey_def intro!: calm_sound_stmt\<close>)

lemma calm_sound_device: "sound_inv.threads.calm (device_callT cmp c)"
proof (cases c)
  case (CallRegister gen rand uuid now app dev)
  then show ?thesis
    by (auto simp: RegisterT_def split: sum.split intro!: sound_inv.threads.calm_bind calm_sound_keys)
next
  case (CallRotate gen now k old new)
  then show ?thesis
    by (auto simp: RotateKeyT_def split: sum.split intro!: sound_inv.threads.calm_bind calm_sound_keys)
qed (auto simp: VerifyT_def RevokeT_def RevokeDeviceT_def intro!: sound_inv.threads.calm_bind calm_sound_keys)

lemma calm_sound_DeleteDocT: "sound_inv.threads.calm (DeleteDocT d u k)"
  unfolding DeleteDocT_def stmtT_def
  by (rule sound_inv.threads.calm_atom) (use sound_DeleteDoc in \<open>simp add: keeps_def DeleteDoc_def\<close>)

text \<open>What a sync that was answered has done.\<close>

fun synced_ok :: "outcome \<Rightarrow> server_world \<Rightarrow> bool" where
  "synced_ok (Synced msg (Inr resp)) w \<longleftrightarrow>
     (\<forall>op \<in> set (msg_Ops msg). accepted (msg_AppID msg) (msg_UserID msg) (msg_DatasetID msg) op (w_store w))"
| "synced_ok _ w \<longleftrightarrow> True"

lemma synced_okI:
  "((\<exists>resp. r = Inr resp) \<longrightarrow> (\<forall>op \<in> set (msg_Ops msg).
     accepted (msg_AppID msg) (msg_UserID msg) (msg_DatasetID msg) op (w_store w))) \<Longrightarrow> synced_ok (Synced msg r) w"
  by (cases r) auto

lemma okT_MergeOpsT:
  "okT sound (\<lambda>r db. (\<exists>x. r = Inr x) \<longrightarrow> (\<forall>op \<in> set ops. accepted a u d op db)) (MergeOpsT a u d ops) db"
  unfolding MergeOpsT_def
proof (rule sound_inv.threads.okT_bind_calm)
  show "sound_inv.threads.calm (wrapT (Wrap ''MergeOps ensure dataset'') (EnsureDatasetT a u d))"
    by (simp add: sound_inv.calm_EnsureDatasetT)
  fix db1
  show "okT sound (\<lambda>r db. (\<exists>x. r = Inr x) \<longrightarrow> (\<forall>op \<in> set ops. accepted a u d op db)) (InsertOpsT a u d ops) db1"
    unfolding InsertOpsT_def Let_def txT_def
  proof (rule sound_inv.threads.okT_atom)
    let ?m = "with_tx (bindP (wrapP (Wrap ''prepare insert'') (sql (prepare (datasetTable a u d))))
       (\<lambda>_. exec_ops ''insert'' (datasetTable a u d) insert_ignore ops))"
    have m: "?m = InsertOps a u d ops" by (simp add: InsertOps_def Let_def fun_eq_iff)
    show "sound db2 (snd (?m db2))" for db2
      unfolding m using sound_inv.InsertOps_keeps by (simp add: keeps_def)
    fix db2 db3
    assume "sound (snd (?m db2)) db3"
    moreover have "accepted a u d op (snd (?m db2))" if "fst (?m db2) = Inr x" "op \<in> set ops" for x op
    proof -
      have "InsertOps a u d ops db2 = (Inr x, snd (?m db2))" using that(1) m by (simp add: prod_eq_iff)
      from InsertOps_Inr [OF this] obtain rows where
        "same_content (set_rows (datasetTable a u d) (apply_ops insert_ignore ops rows) db2) (snd (?m db2))" by blast
      then show ?thesis
        using that(2) by (simp add: accepted_def log_of_same_content) (simp add: log_of_def row_op_ids_apply_insert)
    qed
    ultimately show "(\<exists>x. fst (?m db2) = Inr x) \<longrightarrow> (\<forall>op \<in> set ops. accepted a u d op db3)"
      using durable_accepted unfolding sound_def by blast
  qed
qed simp

lemma sound_call: "okT (store_rel sound) synced_ok (callT cmp c) w"
proof (cases c)
  case (SyncCall rg th wall msg)
  let ?Q = "\<lambda>w. \<forall>op \<in> set (msg_Ops msg). accepted (msg_AppID msg) (msg_UserID msg) (msg_DatasetID msg) op (w_store w)"
  have "okT (store_rel sound) (\<lambda>r w. (\<exists>resp. r = Inr resp) \<longrightarrow> ?Q w) (SyncT rg th wall msg) w"
  proof (rule sound_inv.okT_SyncT)
    show "?Q w'" if "?Q w" "store_rel sound w w'" for w w' :: server_world
      using that durable_accepted by (auto simp: store_rel_def sound_def)
    show "okT (store_rel sound) (\<lambda>r w. (\<exists>x. r = Inr x) \<longrightarrow> ?Q w)
        (storeT (MergeOpsT (msg_AppID msg) (msg_UserID msg) (msg_DatasetID msg) (msg_Ops msg))) w" for w
      using sound_inv.okT_storeT [OF okT_MergeOpsT] by simp
  qed simp_all
  then have "okT (store_rel sound) (\<lambda>r. synced_ok (Synced msg r)) (SyncT rg th wall msg) w"
    by (rule sound_inv.worlds.okT_weaken) (use synced_okI in blast)
  then show ?thesis by (simp add: SyncCall sound_inv.worlds.okT_map)
next
  case (DeviceCall dc)
  then show ?thesis
    using calm_sound_device [of cmp dc] by (cases dc) (simp_all add: sound_inv.okT_store_callT)
qed (simp_all add: sound_inv.okT_store_callT calm_sound_DeleteDocT calm_sound_keys)

lemma outside_sound: "outside w w' \<Longrightarrow> store_rel sound w w'"
  by (auto simp: outside_def store_rel_def sound_env)

lemma handlers_sound:
  assumes "pool_run outside (handler_call cmp) (w, []) (w', ts)"
  shows "store_rel sound w w'" "Done r \<in> set ts \<Longrightarrow> synced_ok r w'"
proof -
  have arrives: "okT (store_rel sound) synced_ok t a" if "handler_call cmp t" for t a
    using that sound_call by (auto simp: handler_call_def)
  show "store_rel sound w w'"
    by (rule sound_inv.worlds.new_pool_ok(1) [OF assms, where Q = synced_ok]) (simp_all add: outside_sound arrives)
  show "synced_ok r w'" if "Done r \<in> set ts"
  proof -
    have "okT (store_rel sound) synced_ok (Done r) w'"
      by (rule sound_inv.worlds.new_pool_ok(2) [OF assms _ _ that]) (simp_all add: outside_sound arrives)
    then show ?thesis using sound_inv.worlds.R_refl [of w'] by (simp del: sound_inv.worlds.R_refl)
  qed
qed

section \<open>Revocation\<close>

abbreviation revoked :: "string \<Rightarrow> database \<Rightarrow> bool" where
  "revoked \<equiv> crsqlite_auth.revoked"

definition stays :: "string \<Rightarrow> database \<Rightarrow> database \<Rightarrow> bool" where
  "stays k db db' \<longleftrightarrow> (revoked k db \<longrightarrow> revoked k db')"

lemma stays_keys: "device_keys db' = device_keys db \<Longrightarrow> stays k db db'"
  by (simp add: stays_def crsqlite_auth.revoked_def find_key_def)

interpretation stays_inv: dataset_invariant "stays k" a u d
proof unfold_locales
  show "reflp (stays k)" "transp (stays k)" by (auto simp: reflp_def transp_def stays_def)
qed (auto simp: keeps_def create_snapshots_def create_op_log_def crsql_as_crr_def replace_snapshot_def
      split: option.split intro!: stays_keys)

lemma keeps_stays_get: "keeps (stays k) (sql (on_meta (select_key k')))"
  by (rule stays_inv.keeps_sql_R, rule stays_inv.keeps_pure) (simp add: on_meta_def select_key_def split: option.split)

lemma calm_stays_get: "stays_inv.threads.calm k (GetDeviceKeyT k')"
  unfolding GetDeviceKeyT_def stays_inv.threads.calm_wrap stmtT_def by (rule stays_inv.threads.calm_atom [OF keeps_stays_get])

lemma calm_stays_update:
  assumes "dk_DeviceKeyID dk = k \<Longrightarrow> dk_Status dk = ''revoked''"
  shows "stays_inv.threads.calm k (UpdateDeviceKeyT now dk)"
  unfolding UpdateDeviceKeyT_def stmtT_def
proof (rule stays_inv.threads.calm_atom, rule keepsI)
  fix db
  show "stays k db (snd (sql (on_meta (update_key now dk)) db))"
    unfolding stays_def
    using crsqlite_auth.revoked_update [OF _ _ assms, of now db "fst (db_UpdateDeviceKey now dk db)" "snd (db_UpdateDeviceKey now dk db)"]
    by (simp add: NewAuthStore_def db_UpdateDeviceKey_def)
qed

lemma calm_stays_create: "stays_inv.threads.calm k (CreateDeviceKeyT dk)"
  unfolding CreateDeviceKeyT_def stmtT_def
proof (rule stays_inv.threads.calm_atom, rule keepsI)
  fix db
  obtain r db' where "CreateDeviceKey (NewAuthStore 0) dk db = (r, db')" by (metis surj_pair)
  then show "stays k db (snd (sql (on_meta (insert_key dk)) db))"
    using crsqlite_auth.create_Inr [of 0 dk db] crsqlite_auth.create_Inl [of 0 dk db]
    by (cases r) (auto simp: stays_def crsqlite_auth.revoked_def NewAuthStore_def db_CreateDeviceKey_def)
qed

lemma calm_stays_admin: "stays_inv.threads.calm k (stmtT (on_meta (revoke_row k')))"
  unfolding stmtT_def
proof (rule stays_inv.threads.calm_atom, rule keepsI)
  fix db
  have "snd (RevokeDevice k' db) = snd (sql (on_meta (revoke_row k')) db)"
    by (auto simp: RevokeDevice_def bindP_def split: prod.split sum.split)
  then show "stays k db (snd (sql (on_meta (revoke_row k')) db))"
    using revoked_admin by (metis stays_def)
qed

text \<open>What a thread has read of a key.\<close>

lemma okT_get:
  "okT (stays k) (\<lambda>r db. \<forall>dk. r = Inr dk \<longrightarrow> dk_DeviceKeyID dk = k' \<and> (k' = k \<and> revoked k s \<longrightarrow> dk_Status dk = ''revoked''))
     (wrapT h (GetDeviceKeyT k')) s"
  unfolding GetDeviceKeyT_def stays_inv.threads.okT_wrap stmtT_def
proof (rule stays_inv.threads.okT_atom)
  fix s1
  assume s1: "stays k s s1"
  show "stays k s1 (snd (sql (on_meta (select_key k')) s1))" using keeps_stays_get by (simp add: keeps_def)
  have "find_key k' s1 = Some dk" if "fst (sql (on_meta (select_key k')) s1) = Inr dk" for dk
  proof -
    have "sql (on_meta (select_key k')) s1 = (Inr dk, snd (sql (on_meta (select_key k')) s1))" using that by (simp add: prod_eq_iff)
    then show ?thesis
      by (rule sql_on_meta_Inr) (auto simp: select_key_def find_key_same_content split: option.splits)
  qed
  then show "\<forall>dk. map_sum h id (map_sum (\<lambda>e. if e = ErrNoRows then ErrDeviceNotFound else e) id (fst (sql (on_meta (select_key k')) s1))) = Inr dk
      \<longrightarrow> dk_DeviceKeyID dk = k' \<and> (k' = k \<and> revoked k s \<longrightarrow> dk_Status dk = ''revoked'')" for s2 :: database
    using s1 find_key_Some
    by (cases "fst (sql (on_meta (select_key k')) s1)") (auto simp: stays_def crsqlite_auth.revoked_def)
qed

fun rotates :: "string \<Rightarrow> call \<Rightarrow> bool" where
  "rotates k (DeviceCall (CallRotate gen now k' old new)) \<longleftrightarrow> k' = k"
| "rotates k _ \<longleftrightarrow> False"

lemma rotatesD: "rotates k c \<Longrightarrow> \<exists>gen now old new. c = DeviceCall (CallRotate gen now k old new)"
  by (cases "(k, c)" rule: rotates.cases) auto

text \<open>A rotation writes another key, or it read a revoked one and fails.\<close>

lemma okT_RotateKeyT:
  assumes "k' \<noteq> k \<or> revoked k db"
  shows "okT (stays k) (\<lambda>r db. True) (RotateKeyT cmp gen now k' old new) db"
  unfolding RotateKeyT_def
proof (rule stays_inv.threads.okT_bind_post [OF okT_get])
  fix dk :: device_key and db1
  assume "\<forall>x. Inr dk = Inr x \<longrightarrow> dk_DeviceKeyID x = k' \<and> (k' = k \<and> revoked k db \<longrightarrow> dk_Status x = ''revoked'')"
  then have "stays_inv.threads.calm k (UpdateDeviceKeyT now (dk\<lparr>dk_KeyHash := h\<rparr>))" if "dk_Status dk = ''active''" for h
    using that assms by (intro calm_stays_update) auto
  then show "okT (stays k) (\<lambda>r db. True)
      (if dk_Status dk \<noteq> ''active'' then failT ErrDeviceRevoked
       else if \<not> cmp (dk_KeyHash dk) old then failT ErrInvalidSecret
       else case gen new of Inl e \<Rightarrow> failT e | Inr hash \<Rightarrow> UpdateDeviceKeyT now (dk\<lparr>dk_KeyHash := hash\<rparr>)) db1"
    by (auto simp: failT_def split: sum.split intro: stays_inv.threads.calm_okT)
qed simp

lemma calm_stays_device:
  assumes "\<not> rotates k (DeviceCall c)"
  shows "stays_inv.threads.calm k (device_callT cmp c)"
proof (cases c)
  case (CallRegister gen rand uuid now app dev)
  then show ?thesis by (auto simp: RegisterT_def split: sum.split intro!: stays_inv.threads.calm_bind calm_stays_create)
next
  case (CallRotate gen now k' old new)
  then show ?thesis using assms okT_RotateKeyT by (auto intro!: stays_inv.threads.calmI)
qed (auto simp: VerifyT_def RevokeT_def RevokeDeviceT_def
    intro!: stays_inv.threads.calm_bind calm_stays_get calm_stays_update calm_stays_admin)

lemma calm_stays_others:
  "stays_inv.threads.calm k (DeleteDocT d u k')" "stays_inv.threads.calm k (WriteSyncEventT a d u k' n)"
proof -
  have "keeps (stays k) (on_snapshots (\<lambda>rs. (Inr (), f rs)))" for f :: "snapshot_row list \<Rightarrow> snapshot_row list"
    by (auto simp: keeps_def on_snapshots_def intro!: stays_keys split: option.split)
  then show "stays_inv.threads.calm k (DeleteDocT d u k')" unfolding DeleteDocT_def by (rule stays_inv.calm_stmtT)
  show "stays_inv.threads.calm k (WriteSyncEventT a d u k' n)"
    unfolding WriteSyncEventT_def
    by (rule stays_inv.calm_stmtT) (auto simp: keeps_def on_meta_def intro!: stays_keys)
qed

lemma calm_stays_call:
  assumes "\<not> rotates k c"
  shows "okT (store_rel (stays k)) (\<lambda>r w. True) (callT cmp c) w"
proof (cases c)
  case (SyncCall rg th wall msg)
  then show ?thesis
    using stays_inv.worlds.calm_okT [OF stays_inv.calm_SyncT [OF refl refl refl]] by (simp add: stays_inv.worlds.okT_map)
next
  case (DeviceCall dc)
  then show ?thesis
    using calm_stays_device [of k dc cmp] assms by (cases dc) (simp_all add: stays_inv.okT_store_callT)
qed (simp_all add: stays_inv.okT_store_callT calm_stays_others)

text \<open>What a call ends with that starts when the key is revoked.\<close>

definition refused :: "string \<Rightarrow> outcome \<Rightarrow> bool" where
  "refused k r \<longleftrightarrow> r \<noteq> Verified k (Inr ())"

lemma okT_VerifyT:
  assumes "revoked k db"
  shows "okT (stays k) (\<lambda>r db. r \<noteq> Inr ()) (VerifyT cmp k secret) db"
  unfolding VerifyT_def
  by (rule stays_inv.threads.okT_bind_post [OF okT_get]) (use assms in \<open>auto simp: failT_def\<close>)

lemma revoked_call:
  assumes "revoked k (w_store w)"
  shows "okT (store_rel (stays k)) (\<lambda>r w. refused k r) (callT cmp c) w"
proof -
  have st: "okT (store_rel (stays k)) (\<lambda>r w. refused k r) (store_callT t) w" if "okT (stays k) (\<lambda>r db. refused k r) t (w_store w)" for t
    using that unfolding store_callT_def store_rel_def [abs_def] by (intro okT_partT) simp_all
  show ?thesis
  proof (cases c)
    case (SyncCall rg th wall msg)
    then show ?thesis
      using stays_inv.worlds.calm_okT [OF stays_inv.calm_SyncT [OF refl refl refl]]
      by (simp add: stays_inv.worlds.okT_map refused_def)
  next
    case (DeviceCall dc)
    show ?thesis
    proof (cases dc)
      case (CallVerify k' secret)
      show ?thesis
      proof (cases "k' = k")
        case True
        then show ?thesis
          using okT_VerifyT [OF assms] st by (simp add: DeviceCall CallVerify stays_inv.threads.okT_map refused_def)
      next
        case False
        then show ?thesis using calm_stays_device [of k dc cmp]
          by (simp add: DeviceCall CallVerify stays_inv.okT_store_callT refused_def)
      qed
    next
      case (CallRotate gen now k' old new)
      then show ?thesis
        using okT_RotateKeyT [of k' k "w_store w" cmp gen now old new] assms
          st [of "mapT (\<lambda>_. Ended) (RotateKeyT cmp gen now k' old new)"]
        by (auto simp: DeviceCall stays_inv.threads.okT_map refused_def)
    qed (use calm_stays_device [of k dc cmp] in \<open>simp_all add: DeviceCall stays_inv.okT_store_callT refused_def\<close>)
  qed (simp_all add: stays_inv.okT_store_callT calm_stays_others refused_def)
qed

lemma outside_stays: "outside w w' \<Longrightarrow> store_rel (stays k) w w'"
  by (auto simp: outside_def store_rel_def intro!: stays_keys)

section \<open>Two syncs of one user\<close>

text \<open>All calls of a list arrive, then they take turns by a schedule.\<close>

definition calls_by :: "(string \<Rightarrow> string \<Rightarrow> bool) \<Rightarrow> call list \<Rightarrow> nat list \<Rightarrow> server_world \<Rightarrow> (server_world, outcome) pool" where
  "calls_by cmp cs is w = turns is (w, map (callT cmp) cs)"

lemma calls_arrive: "\<forall>c \<in> set cs. arrive (callT cmp c) \<Longrightarrow> pool_run outside arrive (w, []) (w, map (callT cmp) cs)"
proof (induction cs rule: rev_induct)
  case (snoc c cs)
  then show ?case by (auto intro!: pool_then [OF _ pool_arrive])
qed (simp add: pool_start)

lemma calls_by_run: "\<forall>c \<in> set cs. arrive (callT cmp c) \<Longrightarrow> pool_run outside arrive (w, []) (calls_by cmp cs is w)"
  unfolding calls_by_def using pool_run_trans [OF turns_run calls_arrive] by fast

text \<open>
  A sync that compacts (the threshold is two) is stopped after its compaction has read the log, and
  another sync of the same user runs from its first step to its last.
\<close>

definition race_world :: server_world where
  "race_world = fresh_world\<lparr>w_store := key_db\<rparr>"

definition race_calls :: "call list" where
  "race_calls =
     [SyncCall no_shuffle 2 500 (message ''user1'' zero_hlc three_ops),
      SyncCall no_shuffle 2 500 (message ''user1'' zero_hlc [racing_op])]"

definition race_pool :: "(server_world, outcome) pool" where
  "race_pool = calls_by (=) race_calls (replicate 17 0 @ replicate 40 1 @ replicate 40 0) race_world"

text \<open>The operations an answered sync delivers.\<close>

fun delivered :: "(server_world, outcome) thread \<Rightarrow> string list option" where
  "delivered (Done (Synced msg (Inr resp))) = Some (map OpID (resp_Ops resp))"
| "delivered t = None"

fun answered :: "(server_world, outcome) thread \<Rightarrow> sync_message option" where
  "answered (Done (Synced msg (Inr resp))) = Some msg"
| "answered t = None"

lemma answeredD: "answered t = Some msg \<Longrightarrow> \<exists>resp. t = Done (Synced msg (Inr resp))"
  by (cases t rule: answered.cases) auto

definition race_result :: "string list option list \<times> sync_message option list \<times> (string \<times> string) list" where
  "race_result = (case race_pool of (w, ts) \<Rightarrow>
     (map delivered ts, map answered ts,
      map (\<lambda>r. (row_op_id r, row_status r)) (log_of ''app1'' ''user1'' ''ds1'' (w_store w))))"

lemma race_result:
  "race_result =
     ([Some [''op3'', ''op2''], Some [''op3'', ''op4'']],
      [Some (message ''user1'' zero_hlc three_ops), Some (message ''user1'' zero_hlc [racing_op])],
      [(''op1'', ''archived''), (''op2'', ''active''), (''op3'', ''active''), (''op4'', ''archived'')])"
  by code_simp

lemma race_outcome:
  "map delivered (snd race_pool) = [Some [''op3'', ''op2''], Some [''op3'', ''op4'']]"
  "map answered (snd race_pool) = [Some (message ''user1'' zero_hlc three_ops), Some (message ''user1'' zero_hlc [racing_op])]"
  "map (\<lambda>r. (row_op_id r, row_status r)) (log_of ''app1'' ''user1'' ''ds1'' (w_store (fst race_pool)))
     = [(''op1'', ''archived''), (''op2'', ''active''), (''op3'', ''active''), (''op4'', ''archived'')]"
  using race_result by (simp_all add: race_result_def split_beta)

lemma race_answered: "\<exists>resp. Done (Synced (message ''user1'' zero_hlc [racing_op]) (Inr resp)) \<in> set (snd race_pool)"
proof -
  have "Some (message ''user1'' zero_hlc [racing_op]) \<in> set (map answered (snd race_pool))"
    unfolding race_outcome(2) by simp
  then obtain t where "t \<in> set (snd race_pool)" "answered t = Some (message ''user1'' zero_hlc [racing_op])" by auto
  then show ?thesis using answeredD by blast
qed

lemma race_run: "pool_run outside (handler_call (=)) (race_world, []) race_pool"
  unfolding race_pool_def by (rule calls_by_run) (auto simp: handler_call_def)

section \<open>Properties\<close>

text \<open>
  C6: Any number of syncs, registrations, verifications, rotations, revocations, admin deletions and
  sync events at once, interleaved at every statement, with any errors of the driver and any event
  streams: operation ids stay unique in each log, statuses and snapshot keys well formed, key ids
  unique, and no operation and no device key disappears.
\<close>

theorem interleaved_calls_keep_data:
  assumes "pool_run outside (handler_call cmp) (w, []) (w', ts)" "db_ok (w_store w)" "distinct (key_ids (w_store w))"
  shows "db_ok (w_store w') \<and> durable (w_store w) (w_store w')
    \<and> distinct (key_ids (w_store w')) \<and> set (key_ids (w_store w)) \<subseteq> set (key_ids (w_store w'))"
proof -
  have "store_rel sound w w'" by (rule handlers_sound [OF assms(1)])
  then show ?thesis using assms(2,3) by (simp add: store_rel_def sound_def ok_step_def)
qed

theorem interleaved_calls_keep_data_witness:
  "\<exists>w ts. pool_run outside (handler_call (=)) (race_world, []) (w, ts)
     \<and> map delivered ts = [Some [''op3'', ''op2''], Some [''op3'', ''op4'']]
     \<and> db_ok (w_store w) \<and> ''k1'' \<in> set (key_ids (w_store w))"
proof -
  have run: "pool_run outside (handler_call (=)) (race_world, []) (fst race_pool, snd race_pool)" using race_run by simp
  have "w_store race_world = key_db" by (simp add: race_world_def)
  then have "db_ok (w_store race_world)" "distinct (key_ids (w_store race_world))" "''k1'' \<in> set (key_ids (w_store race_world))"
    by (simp_all add: key_db_def key_ids_def sample_key_def db_ok_def empty_db_def)
  with interleaved_calls_keep_data [OF run this(1,2)] show ?thesis
    using run race_outcome(1) by (intro exI [of _ "fst race_pool"] exI [of _ "snd race_pool"]) auto
qed

text \<open>
  C3: When a sync has been answered, its operations are in the log of its app, user and dataset, then and
  at every later time, whatever other calls ran or run between its statements.
\<close>

theorem answered_sync_stays:
  assumes "pool_run outside (handler_call cmp) (w, []) (w', ts)"
    and "Done (Synced msg (Inr resp)) \<in> set ts" "op \<in> set (msg_Ops msg)"
  shows "accepted (msg_AppID msg) (msg_UserID msg) (msg_DatasetID msg) op (w_store w')"
  using handlers_sound(2) [OF assms(1,2)] assms(3) sound_inv.worlds.R_refl [of w'] by (simp del: sound_inv.worlds.R_refl)

theorem answered_sync_stays_witness:
  "\<exists>w ts. pool_run outside (handler_call (=)) (race_world, []) (w, ts)
     \<and> accepted ''app1'' ''user1'' ''ds1'' racing_op (w_store w)"
proof -
  have run: "pool_run outside (handler_call (=)) (race_world, []) (fst race_pool, snd race_pool)" using race_run by simp
  let ?msg = "message ''user1'' zero_hlc [racing_op]"
  obtain resp where "Done (Synced ?msg (Inr resp)) \<in> set (snd race_pool)" using race_answered by blast
  from answered_sync_stays [OF run this, of racing_op] have "accepted ''app1'' ''user1'' ''ds1'' racing_op (w_store (fst race_pool))"
    by (simp add: message_def)
  then show ?thesis using run by blast
qed

text \<open>
  C13: A key revoked while no rotation of it is under way stays revoked through every interleaving of later
  calls, rotations of it included, and no verification that starts after the revocation accepts it.
\<close>

theorem revocation_survives_interleaving:
  assumes "pool_run outside (\<lambda>t. \<exists>c. t = callT cmp c \<and> \<not> rotates k c) (w0, []) (w1, ts1)"
    and "find_key k (w_store w1) = Some dk" "dk_Status dk = ''revoked''"
    and "pool_run outside (handler_call cmp) (w1, ts1) (w2, ts2)"
  shows "(\<exists>dk'. find_key k (w_store w2) = Some dk' \<and> dk_Status dk' = ''revoked'')
    \<and> (\<forall>t \<in> set (drop (length ts1) ts2). t \<noteq> Done (Verified k (Inr ())))"
proof -
  let ?R = "store_rel (stays k) :: server_world \<Rightarrow> server_world \<Rightarrow> bool"
  have rev: "revoked k (w_store w1)" using assms(2,3) by (auto simp: crsqlite_auth.revoked_def)
  have 1: "okT ?R (\<lambda>r w. True) t w1" if "t \<in> set ts1" for t
    by (rule stays_inv.worlds.new_pool_ok(2) [OF assms(1) _ _ that]) (auto intro: outside_stays calm_stays_call)
  let ?Q = "\<lambda>i r (w :: server_world). i < length ts1 \<or> refused k r"
  have arrives: "okT ?R (\<lambda>r w. refused k r) t w" if "handler_call cmp t" "?R w1 w" for t w
    using that rev by (auto simp: handler_call_def store_rel_def stays_def intro!: revoked_call)
  have 2: "?R w1 w2 \<and> (\<forall>i < length ts2. okT ?R (?Q i) (ts2 ! i) w2)"
    by (rule stays_inv.worlds.pool_ok [OF assms(4)]) (auto intro: outside_stays 1 arrives)
  have "refused k r" if d: "Done r \<in> set (drop (length ts1) ts2)" for r
  proof -
    obtain j where "j < length (drop (length ts1) ts2)" "drop (length ts1) ts2 ! j = Done r"
      using d by (auto simp: in_set_conv_nth)
    then have "okT ?R (?Q (length ts1 + j)) (Done r) w2"
      using 2 [THEN conjunct2, rule_format, of "length ts1 + j"] by simp
    then show ?thesis using stays_inv.worlds.R_refl [of k w2] by (auto simp del: stays_inv.worlds.R_refl)
  qed
  then show ?thesis
    using 2 rev by (auto simp: refused_def store_rel_def stays_def crsqlite_auth.revoked_def)
qed

definition revoked_calls :: "call list" where
  "revoked_calls = [DeviceCall (CallVerify ''k2'' ''h''), DeviceCall (CallRotate Inr 7 ''k2'' ''h'' ''new'')]"

theorem revocation_survives_interleaving_witness:
  "\<exists>w ts. pool_run outside (handler_call (=)) (race_world, []) (w, ts) \<and> length ts = 2
     \<and> (\<exists>dk. find_key ''k2'' (w_store w) = Some dk \<and> dk_Status dk = ''revoked'')
     \<and> (\<forall>t \<in> set ts. t \<noteq> Done (Verified ''k2'' (Inr ())))"
proof -
  let ?p = "calls_by (=) revoked_calls [0, 1, 0, 1] race_world"
  have run: "pool_run outside (handler_call (=)) (race_world, []) (fst ?p, snd ?p)"
    using calls_by_run [of revoked_calls "handler_call (=)" "(=)" race_world "[0, 1, 0, 1]"] by (auto simp: handler_call_def)
  have k2: "find_key ''k2'' (w_store race_world) = Some (sample_key ''k2'' ''revoked'')" "dk_Status (sample_key ''k2'' ''revoked'') = ''revoked''"
    by (simp_all add: race_world_def key_db_def find_key_def sample_key_def)
  from revocation_survives_interleaving [OF pool_start k2 run]
  have "(\<exists>dk. find_key ''k2'' (w_store (fst ?p)) = Some dk \<and> dk_Status dk = ''revoked'')
      \<and> (\<forall>t \<in> set (snd ?p). t \<noteq> Done (Verified ''k2'' (Inr ())))" by simp
  moreover have "length (snd ?p) = 2" by code_simp
  ultimately show ?thesis using run by blast
qed

text \<open>
  C37: Two syncs of one user at once lose a write: both are answered without an error, the second wrote the
  latest value of a field and was told so, and in the end that operation is archived and the log
  gives the earlier value of the field to every device.
\<close>

theorem interleaved_syncs_lose_push:
  "\<exists>w ts. pool_run outside (handler_call (=)) (race_world, []) (w, ts)
     \<and> map delivered ts = [Some [''op3'', ''op2''], Some [''op3'', ''op4'']]
     \<and> map (\<lambda>r. (row_op_id r, row_status r)) (log_of ''app1'' ''user1'' ''ds1'' (w_store w))
         = [(''op1'', ''archived''), (''op2'', ''active''), (''op3'', ''active''), (''op4'', ''archived'')]
     \<and> OpID racing_op = ''op4''
     \<and> (\<exists>op2 \<in> set three_ops. OpID op2 = ''op2'' \<and> DocID op2 = DocID racing_op \<and> Field op2 = Field racing_op
          \<and> Before (Timestamp op2) (Timestamp racing_op))"
proof -
  have "\<exists>op2 \<in> set three_ops. OpID op2 = ''op2'' \<and> DocID op2 = DocID racing_op \<and> Field op2 = Field racing_op
      \<and> Before (Timestamp op2) (Timestamp racing_op)"
    by (simp add: three_ops_def racing_op_def op_at_def Before_def)
  moreover have "OpID racing_op = ''op4''" by (simp add: racing_op_def op_at_def)
  ultimately show ?thesis
    using race_run race_outcome by (intro exI [of _ "fst race_pool"] exI [of _ "snd race_pool"]) simp
qed

end
