(* ===== verification/Races.thy ===== *)
theory Races
  imports Device_Runs Compaction
begin

text \<open>
  Two gaps between the tables and what is kept apart by the services: a rotation reads a key and
  later writes it back, without a transaction, and the table of snapshots has no column for the
  app in its key.
\<close>

section \<open>A rotation and a revocation at once\<close>

text \<open>\<open>RotateKey\<close> up to its last call: the row it is going to write.\<close>

definition rotate_read :: "'s auth_store \<Rightarrow> (string \<Rightarrow> string \<Rightarrow> bool) \<Rightarrow> (string \<Rightarrow> err + string)
    \<Rightarrow> string \<Rightarrow> string \<Rightarrow> string \<Rightarrow> ('s, err, device_key) prog" where
  "rotate_read store cmp gen deviceKeyID oldSecret newSecret =
     bindP (wrapP (\<lambda>_. ErrDeviceNotFound) (GetDeviceKey store deviceKeyID)) (\<lambda>dk.
     if dk_Status dk \<noteq> ''active'' then failP ErrDeviceRevoked
     else if \<not> cmp (dk_KeyHash dk) oldSecret then failP ErrInvalidSecret
     else (case gen newSecret of
             Inl e \<Rightarrow> failP e
           | Inr hash \<Rightarrow> retP (dk\<lparr>dk_KeyHash := hash\<rparr>)))"

lemma RotateKey_read_write:
  "RotateKey store cmp gen k old new = bindP (rotate_read store cmp gen k old new) (UpdateDeviceKey store)"
  by (rule ext) (auto simp: RotateKey_def rotate_read_def bindP_def failP_def retP_def split: prod.split sum.split)

context auth_store
begin

lemma rotate_read_Inr:
  assumes "rotate_read store cmp gen k old new s = (Inr row, s')"
  shows "dk_DeviceKeyID row = k \<and> dk_Status row = ''active'' \<and> gen new = Inr (dk_KeyHash row)"
proof -
  obtain dk where "GetDeviceKey store k s = (Inr dk, s')" "dk_Status dk = ''active''" "gen new = Inr (dk_KeyHash row)"
      "row = dk\<lparr>dk_KeyHash := dk_KeyHash row\<rparr>"
    using assms by (auto simp: rotate_read_def bindP_eq_Inr failP_def retP_def split: if_splits sum.splits)
  moreover from this have "dk_DeviceKeyID dk = k" using get_Inr lookup_id by blast
  ultimately show ?thesis by (metis device_key.select_convs(1,5) device_key.surjective device_key.update_convs(4))
qed

end

text \<open>C38: A rotation that has read a key when the key is revoked makes it active again with its last
statement: both calls succeed, the key is revoked in between, and afterwards the new secret is
accepted.\<close>

theorem rotation_undoes_revocation:
  assumes "rotate_read (NewAuthStore now) cmp gen k old new db = (Inr row, db1)"
    and "Revoke (NewAuthStore now') k db1 = (Inr (), db2)"
    and "UpdateDeviceKey (NewAuthStore now) row db2 = (Inr (), db3)"
    and "bcrypt_ok gen cmp"
  shows "(\<exists>dk. find_key k db2 = Some dk \<and> dk_Status dk = ''revoked'')
    \<and> (faults db3 = [] \<and> has_meta db3 \<longrightarrow> fst (Verify (NewAuthStore now) cmp k new db3) = Inr ())"
proof -
  have row: "dk_DeviceKeyID row = k" "dk_Status row = ''active''" "gen new = Inr (dk_KeyHash row)"
    using crsqlite_auth.rotate_read_Inr [OF assms(1)] by simp_all
  obtain dk where dk: "find_key k db2 = Some dk" "dk_Status dk = ''revoked''"
    using crsqlite_auth.Revoke_Inr [OF assms(2)] by blast
  obtain t where "find_key k db3 = Some (dk\<lparr>dk_KeyHash := dk_KeyHash row, dk_Status := ''active'', dk_LastSeenAt := Some t\<rparr>)"
    using crsqlite_auth.update_Inr [OF assms(3)] row dk by fastforce
  then show ?thesis
    using dk row(3) assms(4) by (simp add: Verify_quiet bcrypt_ok_def)
qed

theorem rotation_undoes_revocation_witness:
  "\<exists>row db1 db2 db3. rotate_read (NewAuthStore 5) (=) Inr ''k1'' ''h'' ''new'' key_db = (Inr row, db1)
     \<and> Revoke (NewAuthStore 6) ''k1'' db1 = (Inr (), db2) \<and> UpdateDeviceKey (NewAuthStore 5) row db2 = (Inr (), db3)
     \<and> fst (Verify (NewAuthStore 5) (=) ''k1'' ''new'' db3) = Inr ()"
proof -
  obtain row db1 db2 db3 where r: "rotate_read (NewAuthStore 5) (=) Inr ''k1'' ''h'' ''new'' key_db = (Inr row, db1)"
      "Revoke (NewAuthStore 6) ''k1'' db1 = (Inr (), db2)" "UpdateDeviceKey (NewAuthStore 5) row db2 = (Inr (), db3)"
    and q: "faults db3 = []" "has_meta db3"
    by (simp add: rotate_read_def Revoke_def NewAuthStore_def db_GetDeviceKey_def db_UpdateDeviceKey_def on_meta_def select_key_def
        update_key_def find_key_def key_db_def empty_db_def sample_key_def bindP_def wrapP_def)
  have "bcrypt_ok Inr (=)" by (simp add: bcrypt_ok_def)
  from rotation_undoes_revocation [OF r this] show ?thesis using r q by blast
qed

section \<open>Snapshots of two apps\<close>

definition two_app_db :: database where
  "two_app_db = snd (Compact no_shuffle ''app1'' ''u'' ''ds'' (snd (MergeOps ''app1'' ''u'' ''ds''
     [op_at ''op1'' ''doc'' ''name'' ''one'' 100] (empty_db\<lparr>has_meta := True\<rparr>))))"

definition two_app_db' :: database where
  "two_app_db' = snd (Compact no_shuffle ''app2'' ''u'' ''ds'' (snd (MergeOps ''app2'' ''u'' ''ds''
     [op_at ''op2'' ''doc'' ''name'' ''two'' 50] two_app_db)))"


end
