(* ===== verification/Admin_Views.thy ===== *)
theory Admin_Views
  imports Admin_Pages
begin

text \<open>
  What the admin console shows: the pages of the sync log, the metrics per app and the row of a
  revoked device.
\<close>

section \<open>The pages of the sync log\<close>

lemma page_number_decimal: "1 \<le> n \<Longrightarrow> n < 2 ^ 63 \<Longrightarrow> page_number (decimal n) = int n"
  by (simp add: page_number_def Atoi_decimal)

definition event_store :: "database sync_admin_store" where
  "event_store = \<lparr>sas_ListSyncEvents = ListSyncEvents, sas_ListSyncAggregates = ListSyncAggregates\<rparr>"

definition page1 :: request where
  "page1 = \<lparr>rq_method = ''GET'', rq_path = ''/admin/sync'', rq_query = (\<lambda>k. if k = ''page'' then ''1'' else []),
     rq_header = (\<lambda>_. []), rq_basic = None, rq_remote = [], rq_body = Inr [], rq_json = None, rq_flusher = True,
     rq_env = \<lparr>env_start = 0, env_end = 0, env_now = (\<lambda>_. 0), env_wall = 0, env_rand = Inr [], env_uuid = [],
       env_gen = Inr, env_fetch = (\<lambda>_. Inl (ErrMsg []))\<rparr>,
     ctx_device_key_id = None, ctx_app_id = None, ctx_user_id = None\<rparr>"

text \<open>Page \<open>n\<close> of the sync log shows the \<open>n\<close>-th 25 events of all apps, newest first; its first and last
position are theirs, and it links to a next page exactly when there are events after it.\<close>

theorem SyncPage_shows:
  assumes "faults db = []" "has_meta db" "rq_query r ''tab'' \<noteq> ''aggregates''" "rq_query r ''page'' = decimal n"
    and "1 \<le> n" "int n * syncPageSize + 1 < 2 ^ 63"
  shows "\<exists>v. SyncPage event_store tmpl r db = (full_page tmpl ''sync'' ''Sync Activity'' (EventsPage v), db)
    \<and> ev_Events v = take 25 (drop (25 * (n - 1)) (sort_key (\<lambda>e. - ev_synced_at e) (sync_events db)))
    \<and> (ev_HasNext v \<longleftrightarrow> 25 * n < length (sync_events db)) \<and> (ev_HasPrev v \<longleftrightarrow> 1 < n)
    \<and> (ev_Events v \<noteq> [] \<longrightarrow> ev_From v = 25 * (int n - 1) + 1 \<and> ev_To v = int (min (25 * n) (length (sync_events db))))"
proof -
  let ?es = "sort_key (\<lambda>e. - ev_synced_at e) (sync_events db)" and ?N = "length (sync_events db)"
  let ?pg = "take 25 (drop (25 * (n - 1)) ?es)"
  have n: "int n * 25 + 1 < 2 ^ 63" using assms(6) by (simp add: syncPageSize_def)
  have p: "page_number (rq_query r ''page'') = int n"
  proof -
    have "int n < int (2 ^ 63)" using n by simp
    then have "n < 2 ^ 63" by (simp only: of_nat_less_iff)
    then show ?thesis unfolding assms(4) using assms(5) by (intro page_number_decimal)
  qed
  have o: "wrap64 (int n * 25 - 25) = int n * 25 - 25" "nat (int n * 25 - 25) = 25 * (n - Suc 0)"
    using assms(5) n by (auto intro!: wrap64_id)
  have L: "ListSyncEvents [] (int n) syncPageSize db = (Inr (?pg, int ?N), db)"
    using assms(1,2,5)
    by (simp add: ListSyncEvents_def Let_def on_meta_def page_of_def app_events_def syncPageSize_def o bindP_def)
  have S: "SyncPage event_store tmpl r db
      = (full_page tmpl ''sync'' ''Sync Activity'' (EventsPage (view_events (int n) ?pg (int ?N))), db)"
    using assms(3) by (simp add: SyncPage_def event_store_def p L)
  have len: "length ?pg = min 25 (?N - 25 * (n - 1))" by simp
  have l: "int (length ?pg) \<le> 25" by simp
  have "wrap64 ((int n - 1) * 25 + 1) = (int n - 1) * 25 + 1"
    by (rule wrap64_id) (use assms(5) n in auto)
  moreover have "wrap64 ((int n - 1) * 25 + 1 + int (length ?pg) - 1) = (int n - 1) * 25 + 1 + int (length ?pg) - 1"
    by (rule wrap64_id) (use assms(5) n l in auto)
  ultimately have w: "wrap64 ((int n - 1) * 25 + 1) = (int n - 1) * 25 + 1"
    "wrap64 ((int n - 1) * 25 + 1 + int (length ?pg) - 1) = (int n - 1) * 25 + 1 + int (length ?pg) - 1" .
  let ?v = "view_events (int n) ?pg (int ?N)"
  obtain m where m: "n = Suc m" using assms(5) by (cases n) auto
  have v: "ev_Events ?v = ?pg" "ev_HasPrev ?v \<longleftrightarrow> 1 < n" "ev_To ?v = int (25 * m + length ?pg)"
    "ev_HasNext ?v \<longleftrightarrow> ev_To ?v < int ?N" "?pg \<noteq> [] \<Longrightarrow> ev_From ?v = 25 * (int n - 1) + 1"
    using w m by (simp_all add: view_events_def Let_def syncPageSize_def)
  have "25 * m + length ?pg < ?N \<longleftrightarrow> 25 * n < ?N" "length ?pg \<noteq> 0 \<Longrightarrow> 25 * m + length ?pg = min (25 * n) ?N"
    unfolding len m by (simp_all add: min_def) arith+
  moreover have "ev_HasNext ?v \<longleftrightarrow> 25 * m + length ?pg < ?N" by (simp only: v(3,4) of_nat_less_iff)
  ultimately show ?thesis using S v by (metis length_0_conv)
qed

lemma decimal_1: "decimal (Suc 0) = ''1''"
  by code_simp

theorem SyncPage_shows_witness:
  "\<exists>v. SyncPage event_store (\<lambda>nm d. Inr nm) page1 event_db
       = (full_page (\<lambda>nm d. Inr nm) ''sync'' ''Sync Activity'' (EventsPage v), event_db)
     \<and> map ev_op_count (ev_Events v) = [3, 2] \<and> \<not> ev_HasNext v \<and> ev_To v = 2"
proof -
  have "faults event_db = []" "has_meta event_db"
    by (simp_all add: event_db_def WriteSyncEvent_def on_meta_def empty_db_def)
  moreover have "rq_query page1 ''tab'' \<noteq> ''aggregates''" "rq_query page1 ''page'' = decimal 1" "(1::nat) \<le> 1"
    "int 1 * syncPageSize + 1 < 2 ^ 63"
    by (simp_all add: page1_def syncPageSize_def decimal_1)
  moreover have "map ev_op_count (take 25 (drop 0 (sort_key (\<lambda>e. - ev_synced_at e) (sync_events event_db)))) = [3, 2]"
    "length (sync_events event_db) = 2"
    by code_simp+
  ultimately show ?thesis
    using SyncPage_shows [of event_db page1 1 "\<lambda>nm d. Inr nm"] by fastforce
qed

section \<open>The metrics per app\<close>

text \<open>What the metrics of a family say of an app.\<close>

definition app_sum :: "string \<Rightarrow> (metric \<Rightarrow> int option) \<Rightarrow> string \<Rightarrow> metric_family list \<Rightarrow> int" where
  "app_sum name val app mfs =
     (\<Sum>mf\<leftarrow>filter (\<lambda>mf. mf_name mf = name) mfs. \<Sum>m\<leftarrow>filter (\<lambda>m. label_app m = app) (mf_metrics mf). (case val m of None \<Rightarrow> 0 | Some x \<Rightarrow> x))"

definition read :: "(string, int) gomap \<Rightarrow> string \<Rightarrow> int" where
  "read m k = (case gm_get m k of None \<Rightarrow> 0 | Some x \<Rightarrow> x)"

lemma read_add_to [simp]: "read (add_to k n m) k' = read m k' + (if k' = k then n else 0)"
  by (auto simp: read_def add_to_def split: option.split)

abbreviation of_syncs :: string where
  "of_syncs \<equiv> ''mobiledb_sync_requests_total''"

abbreviation of_bytes :: string where
  "of_bytes \<equiv> ''mobiledb_db_size_bytes''"

text \<open>Two maps with one entry per app, none for the empty name.\<close>

definition tally_ok :: "(string, int) gomap \<times> (string, int) gomap \<Rightarrow> bool" where
  "tally_ok acc \<longleftrightarrow> gm_ok (fst acc) \<and> gm_ok (snd acc) \<and> gm_get (fst acc) [] = None \<and> gm_get (snd acc) [] = None"

lemma tally_metric_ok: "tally_ok acc \<Longrightarrow> tally_ok (tally_metric n acc m)"
  by (auto simp: tally_metric_def Let_def tally_ok_def add_to_def split: prod.splits option.splits)

lemma tally_metric_sum:
  "k \<noteq> [] \<Longrightarrow> read (fst (tally_metric n acc m)) k
     = read (fst acc) k + (if n = of_syncs \<and> label_app m = k then (case mt_counter m of None \<Rightarrow> 0 | Some x \<Rightarrow> x) else 0)"
  "k \<noteq> [] \<Longrightarrow> read (snd (tally_metric n acc m)) k
     = read (snd acc) k + (if n \<noteq> of_syncs \<and> label_app m = k then (case mt_gauge m of None \<Rightarrow> 0 | Some x \<Rightarrow> x) else 0)"
  by (auto simp: tally_metric_def Let_def split: prod.splits option.splits)

lemma fold_metric_sum:
  assumes "k \<noteq> []"
  shows "read (fst (foldl (tally_metric n) acc ms)) k = read (fst acc) k
      + (if n = of_syncs then \<Sum>m\<leftarrow>filter (\<lambda>m. label_app m = k) ms. (case mt_counter m of None \<Rightarrow> 0 | Some x \<Rightarrow> x) else 0)"
    "read (snd (foldl (tally_metric n) acc ms)) k = read (snd acc) k
      + (if n \<noteq> of_syncs then \<Sum>m\<leftarrow>filter (\<lambda>m. label_app m = k) ms. (case mt_gauge m of None \<Rightarrow> 0 | Some x \<Rightarrow> x) else 0)"
  by (induction ms arbitrary: acc) (auto simp: tally_metric_sum [OF assms])

lemma fold_metric_ok: "tally_ok acc \<Longrightarrow> tally_ok (foldl (tally_metric n) acc ms)"
  by (induction ms arbitrary: acc) (simp_all add: tally_metric_ok)

lemma tally_sum:
  assumes "k \<noteq> []"
  shows "read (fst (foldl tally_family acc mfs)) k = read (fst acc) k + app_sum of_syncs mt_counter k mfs"
    "read (snd (foldl tally_family acc mfs)) k = read (snd acc) k + app_sum of_bytes mt_gauge k mfs"
  by (induction mfs arbitrary: acc) (auto simp: tally_family_def app_sum_def fold_metric_sum [OF assms])

lemma tally_all_ok: "tally_ok acc \<Longrightarrow> tally_ok (foldl tally_family acc mfs)"
  by (induction mfs arbitrary: acc) (simp_all add: tally_family_def fold_metric_ok)

definition two_apps :: "metric_family list" where
  "two_apps =
     [\<lparr>mf_name = of_syncs, mf_metrics =
         [\<lparr>mt_labels = [(''app_id'', ''a'')], mt_gauge = None, mt_counter = Some 2\<rparr>,
          \<lparr>mt_labels = [(''app_id'', ''b'')], mt_gauge = None, mt_counter = Some 5\<rparr>]\<rparr>,
      \<lparr>mf_name = of_bytes, mf_metrics = [\<lparr>mt_labels = [(''app_id'', ''b'')], mt_gauge = Some 7, mt_counter = None\<rparr>]\<rparr>]"

text \<open>The table per app has one row for each app, in whatever order the maps are visited, and each row
has the app's sums of the two families; every app with a sum that is not zero has a row.\<close>

theorem perAppRows_exact:
  shows "distinct (map amr_AppID (perAppRows seed1 seed2 mfs))
    \<and> (\<forall>row \<in> set (perAppRows seed1 seed2 mfs). amr_AppID row \<noteq> []
         \<and> amr_Syncs row = app_sum of_syncs mt_counter (amr_AppID row) mfs
         \<and> amr_DBBytes row = app_sum of_bytes mt_gauge (amr_AppID row) mfs)
    \<and> (\<forall>app. app \<noteq> [] \<and> (app_sum of_syncs mt_counter app mfs \<noteq> 0 \<or> app_sum of_bytes mt_gauge app mfs \<noteq> 0)
         \<longrightarrow> app \<in> amr_AppID ` set (perAppRows seed1 seed2 mfs))"
proof -
  obtain syncs bytes where t: "foldl tally_family ([], []) mfs = (syncs, bytes)"
    by (cases "foldl tally_family ([], []) mfs")
  have ok: "gm_ok syncs" "gm_ok bytes" "gm_get syncs [] = None" "gm_get bytes [] = None"
    using tally_all_ok [of "([], [])" mfs] t by (simp_all add: tally_ok_def)
  have sums: "read syncs k = app_sum of_syncs mt_counter k mfs" "read bytes k = app_sum of_bytes mt_gauge k mfs" if "k \<noteq> []" for k
    using tally_sum [OF that, of "([], [])" mfs] t by (simp_all add: read_def)
  let ?r1 = "\<lambda>(app, x :: int). \<lparr>amr_AppID = app, amr_Syncs = read syncs app, amr_DBBytes = read bytes app\<rparr>"
  let ?r2 = "\<lambda>(app, x :: int). \<lparr>amr_AppID = app, amr_Syncs = 0, amr_DBBytes = read bytes app\<rparr>"
  have rows: "perAppRows seed1 seed2 mfs = map ?r1 (shuffle seed1 syncs)
      @ map ?r2 (filter (\<lambda>(app, x). gm_get syncs app = None) (shuffle seed2 bytes))"
    unfolding perAppRows_def t by (simp add: read_def Let_def)
  have keys: "map amr_AppID (perAppRows seed1 seed2 mfs) = map fst (shuffle seed1 syncs)
      @ map fst (filter (\<lambda>(app, x). gm_get syncs app = None) (shuffle seed2 bytes))"
    unfolding rows by (auto simp: case_prod_beta intro!: map_cong)
  have "distinct (map fst (filter (\<lambda>(app, x). gm_get syncs app = None) (shuffle seed2 bytes)))"
    using ok(2) by (intro distinct_map_filter) simp
  then have "distinct (map amr_AppID (perAppRows seed1 seed2 mfs))"
    unfolding keys using ok(1) by (force simp: map_of_eq_None_iff)
  moreover have "amr_AppID row \<noteq> [] \<and> amr_Syncs row = app_sum of_syncs mt_counter (amr_AppID row) mfs
      \<and> amr_DBBytes row = app_sum of_bytes mt_gauge (amr_AppID row) mfs"
    if "row \<in> set (perAppRows seed1 seed2 mfs)" for row
  proof -
    have "(\<exists>app x. (app, x) \<in> set syncs \<and> row = ?r1 (app, x))
        \<or> (\<exists>app x. (app, x) \<in> set bytes \<and> gm_get syncs app = None \<and> row = ?r2 (app, x))"
      using that unfolding rows by auto
    then show ?thesis
    proof (elim disjE exE conjE)
      fix app x assume a: "(app, x) \<in> set syncs" "row = ?r1 (app, x)"
      then have "app \<noteq> []" using ok(3) by (force simp: map_of_eq_None_iff)
      then show ?thesis using a sums by simp
    next
      fix app x assume a: "(app, x) \<in> set bytes" "gm_get syncs app = None" "row = ?r2 (app, x)"
      then have "app \<noteq> []" using ok(4) by (force simp: map_of_eq_None_iff)
      moreover have "read syncs app = 0" using a(2) by (simp add: read_def)
      ultimately show ?thesis using a sums by simp
    qed
  qed
  moreover have "app \<in> amr_AppID ` set (perAppRows seed1 seed2 mfs)"
    if "app \<noteq> []" "app_sum of_syncs mt_counter app mfs \<noteq> 0 \<or> app_sum of_bytes mt_gauge app mfs \<noteq> 0" for app
  proof -
    have "read syncs app \<noteq> 0 \<or> read bytes app \<noteq> 0" using that sums by simp
    then have "gm_get syncs app \<noteq> None \<or> gm_get bytes app \<noteq> None" by (auto simp: read_def split: option.splits)
    then have "app \<in> set (map amr_AppID (perAppRows seed1 seed2 mfs))"
      unfolding keys by (cases "gm_get syncs app") (force simp: map_of_eq_None_iff dest: map_of_SomeD)+
    then show ?thesis by simp
  qed
  ultimately show ?thesis by blast
qed

theorem perAppRows_exact_witness:
  "\<exists>row \<in> set (perAppRows [1] [] two_apps). amr_AppID row = ''b'' \<and> amr_Syncs row = 5 \<and> amr_DBBytes row = 7"
proof -
  have s: "app_sum of_syncs mt_counter ''b'' two_apps = 5" "app_sum of_bytes mt_gauge ''b'' two_apps = 7" by code_simp+
  have "''b'' \<in> amr_AppID ` set (perAppRows [1] [] two_apps)"
    using perAppRows_exact [of "[1]" "[]" two_apps] s by simp
  then obtain row where row: "row \<in> set (perAppRows [1] [] two_apps)" "amr_AppID row = ''b''" by auto
  then have "amr_Syncs row = 5 \<and> amr_DBBytes row = 7"
    using perAppRows_exact [of "[1]" "[]" two_apps] s by metis
  then show ?thesis using row by blast
qed

section \<open>The row of a revoked device\<close>

lemma escape_char_safe: "set (escape_char c) \<inter> {CHR ''<'', CHR ''>'', CHR 0x27, CHR 0x22} = {}"
  by (auto simp: escape_char_def)

text \<open>The row the console puts into the page for a revoked key is the fixed markup with one text in it,
and the text has no character that could end it or start a tag or an attribute, whatever the path
of the request names.\<close>

theorem revoked_row_no_markup:
  "\<exists>front rest. \<forall>k. \<exists>txt. revoked_row k = front @ txt @ rest
     \<and> set txt \<inter> {CHR ''<'', CHR ''>'', CHR 0x27, CHR 0x22} = {}"
proof -
  have "set (EscapeString k) \<inter> {CHR ''<'', CHR ''>'', CHR 0x27, CHR 0x22} = {}" for k
    using escape_char_safe by (fastforce simp: EscapeString_def)
  moreover obtain rest where "\<And>k. revoked_row k =
      (''<tr style=\"opacity:0.5\">'' @ newline_tabs 2 @ ''<td><code>'') @ EscapeString k @ rest"
    by (simp only: revoked_row_def append_assoc)
  ultimately show ?thesis by metis
qed

end
