(* ===== verification/Rate_Limit.thy ===== *)
theory Rate_Limit
  imports Middleware
begin

text \<open>
  How many passwords one address can try.  \<open>serve_all\<close> serves requests one after the other;
  the clock does not go back.  Served one at a time the limit holds over any time; a request
  that is between its check and its recording is not counted, so concurrent requests escape it.
\<close>

section \<open>Requests one at a time\<close>

fun serve_all :: "'w handler \<Rightarrow> request list \<Rightarrow> 'w \<Rightarrow> response list \<times> 'w" where
  "serve_all h [] w = ([], w)"
| "serve_all h (r # rs) w =
     (case h r w of (resp, w') \<Rightarrow> (case serve_all h rs w' of (resps, w'') \<Rightarrow> (resp # resps, w'')))"

abbreviation reading :: "request \<Rightarrow> nat \<Rightarrow> int" where
  "reading r i \<equiv> env_now (rq_env r) i"

fun clock_ok :: "int \<Rightarrow> request list \<Rightarrow> bool" where
  "clock_ok t [] = True"
| "clock_ok t (r # rs) =
     (t \<le> reading r 0 \<and> reading r 0 \<le> reading r 1 \<and> reading r 1 \<le> reading r 2 \<and> clock_ok (reading r 2) rs)"

definition clock_end :: "int \<Rightarrow> request list \<Rightarrow> int" where
  "clock_end t rs = (if rs = [] then t else reading (last rs) 2)"

text \<open>The wrong guesses of an address: its requests that are answered with 401.\<close>

definition wrong_guess :: "string \<Rightarrow> request \<Rightarrow> response \<Rightarrow> bool" where
  "wrong_guess ip r resp \<longleftrightarrow> client_ip r = ip \<and> rs_status resp = 401"

definition wrong_guesses :: "string \<Rightarrow> request list \<Rightarrow> response list \<Rightarrow> int" where
  "wrong_guesses ip rs resps = int (length (filter (\<lambda>(r, resp). wrong_guess ip r resp) (zip rs resps)))"

section \<open>The invariant\<close>

text \<open>
  \<open>k\<close> windows are over; \<open>f\<close> guesses were made since \<open>t0\<close>, and the clock stands at \<open>t\<close>.
\<close>

definition bucket_ok :: "int \<Rightarrow> int \<Rightarrow> int \<Rightarrow> int \<Rightarrow> rate_bucket option \<Rightarrow> bool" where
  "bucket_ok t0 t k f b \<longleftrightarrow>
     0 \<le> k \<and> t0 + k * rateLimitWindow \<le> t \<and>
     (case b of
        None \<Rightarrow> f \<le> 5 * k
      | Some b \<Rightarrow> f \<le> 5 * k + rb_count b \<and> rb_count b \<le> 5 \<and> t0 + (k + 1) * rateLimitWindow \<le> rb_resetAt b)"

lemma bucket_ok_later: "bucket_ok t0 t k f b \<Longrightarrow> t \<le> t' \<Longrightarrow> bucket_ok t0 t' k f b"
  by (auto simp: bucket_ok_def)

lemma rateLimited_other: "ip' \<noteq> ip \<Longrightarrow> gm_get (snd (rateLimited now ip' bs)) ip = gm_get bs ip"
  by (simp add: rateLimited_def split: option.split)

lemma recordAttempt_other: "ip' \<noteq> ip \<Longrightarrow> gm_get (recordAttempt now now' ip' bs) ip = gm_get bs ip"
  by (simp add: recordAttempt_def Let_def split: option.split)

lemma bucket_start:
  assumes "bucket_ok t0 t k f None" "t \<le> t'"
  shows "bucket_ok t0 t' k (f + 1) (Some \<lparr>rb_count = 1, rb_resetAt = t' + rateLimitWindow\<rparr>)"
  using assms by (auto simp: bucket_ok_def algebra_simps)

lemma bucket_over:
  assumes "bucket_ok t0 t k f (Some b)" "rb_resetAt b < t'"
  shows "bucket_ok t0 t' (k + 1) f None"
  using assms by (auto simp: bucket_ok_def)

lemma rateLimited_step:
  assumes "bucket_ok t0 t k f (gm_get bs ip)" "t \<le> now" "rateLimited now ip bs = (lim, bs')"
  shows "\<exists>k. bucket_ok t0 now k f (gm_get bs' ip) \<and> (lim \<or> (\<forall>b. gm_get bs' ip = Some b \<longrightarrow> rb_count b < 5))"
proof (cases "gm_get bs ip")
  case None
  then show ?thesis using assms bucket_ok_later [OF assms(1,2)] by (auto simp: rateLimited_def)
next
  case (Some b)
  show ?thesis
  proof (cases "now > rb_resetAt b")
    case True
    then have "bucket_ok t0 now (k + 1) f None" using assms(1) Some bucket_over by simp
    then show ?thesis using assms(3) True Some by (auto simp: rateLimited_def)
  next
    case False
    then show ?thesis
      using assms(3) Some bucket_ok_later [OF assms(1,2)] by (auto simp: rateLimited_def maxAdminAttempts_def)
  qed
qed

lemma recordAttempt_step:
  assumes "bucket_ok t0 t k f (gm_get bs ip)" "t \<le> now" "now \<le> now'"
    and "\<And>b. gm_get bs ip = Some b \<Longrightarrow> rb_count b < 5"
  shows "\<exists>k. bucket_ok t0 now' k (f + 1) (gm_get (recordAttempt now now' ip bs) ip)"
proof (cases "gm_get bs ip")
  case None
  then show ?thesis
    using assms bucket_start [of t0 t k f now'] by (auto simp: recordAttempt_def Let_def)
next
  case (Some b)
  show ?thesis
  proof (cases "now > rb_resetAt b")
    case True
    then have "bucket_ok t0 now (k + 1) f None" using assms(1) Some bucket_over by simp
    from bucket_start [OF this assms(3)] show ?thesis
      using True Some by (auto simp: recordAttempt_def Let_def)
  next
    case False
    have "bucket_ok t0 now' k (f + 1) (Some (b\<lparr>rb_count := rb_count b + 1\<rparr>))"
      using assms(1,4) Some bucket_ok_later [OF assms(1), of now'] assms(2,3) by (auto simp: bucket_ok_def)
    then show ?thesis using False Some by (auto simp: recordAttempt_def Let_def)
  qed
qed

text \<open>One request, when the guarded handler leaves the table alone and never answers 401.\<close>

definition leaves_rates :: "(rates \<times> 'w) handler \<Rightarrow> bool" where
  "leaves_rates h \<longleftrightarrow> (\<forall>r s. fst (snd (h r s)) = fst s \<and> rs_status (fst (h r s)) \<noteq> 401)"

lemma leaves_ratesD: "leaves_rates h \<Longrightarrow> h r s = (resp, s') \<Longrightarrow> fst s' = fst s \<and> rs_status resp \<noteq> 401"
  unfolding leaves_rates_def by (metis fst_conv snd_conv)

lemma admin_request_step:
  assumes ok: "bucket_ok t0 t k f (gm_get (fst s) ip)" and nxt: "leaves_rates nxt"
    and t: "t \<le> reading r 0" "reading r 0 \<le> reading r 1" "reading r 1 \<le> reading r 2"
    and h: "RequireAdminAuth cmp pw ips nxt r s = (resp, s')"
  shows "\<exists>k. bucket_ok t0 (reading r 2) k (f + (if wrong_guess ip r resp then 1 else 0)) (gm_get (fst s') ip)"
proof -
  let ?ip = "client_ip r"
  obtain lim bs where lim: "rateLimited (reading r 0) ?ip (fst s) = (lim, bs)" by (cases "rateLimited (reading r 0) ?ip (fst s)")
  have later: "\<exists>k. bucket_ok t0 (reading r 2) k f (gm_get (fst s) ip)"
    using bucket_ok_later [OF ok, of "reading r 2"] t by auto
  have checked: "\<exists>k. bucket_ok t0 (reading r 0) k f (gm_get bs ip)
      \<and> (?ip \<noteq> ip \<or> lim \<or> (\<forall>b. gm_get bs ip = Some b \<longrightarrow> rb_count b < 5))"
    using rateLimited_step [OF ok t(1), of lim bs] lim rateLimited_other [of ?ip ip "reading r 0" "fst s"]
      bucket_ok_later [OF ok t(1)]
    by (cases "?ip = ip") auto
  then obtain k' where k': "bucket_ok t0 (reading r 0) k' f (gm_get bs ip)"
    "?ip \<noteq> ip \<or> lim \<or> (\<forall>b. gm_get bs ip = Some b \<longrightarrow> rb_count b < 5)" by blast
  have kept: "\<exists>k. bucket_ok t0 (reading r 2) k f (gm_get bs ip)"
    using bucket_ok_later [OF k'(1), of "reading r 2"] t by auto
  consider (forbidden) "ips \<noteq> [] \<and> \<not> ipAllowed ?ip ips"
    | (limited) "ips = [] \<or> ipAllowed ?ip ips" lim
    | (wrong) "ips = [] \<or> ipAllowed ?ip ips" "\<not> lim" "\<not> password_ok cmp pw r"
    | (right) "ips = [] \<or> ipAllowed ?ip ips" "\<not> lim" "password_ok cmp pw r" by blast
  then show ?thesis
  proof cases
    case forbidden
    then have "resp = http_error ''forbidden'' 403" "s' = s" using h by (auto simp: RequireAdminAuth_def Let_def)
    then show ?thesis using later by (simp add: wrong_guess_def)
  next
    case limited
    then have "rs_status resp = 429" "fst s' = bs" using h lim by (auto simp: RequireAdminAuth_def Let_def)
    then show ?thesis using kept by (simp add: wrong_guess_def)
  next
    case wrong
    then have r: "rs_status resp = 401" "fst s' = recordAttempt (reading r 1) (reading r 2) ?ip bs"
      using h lim by (auto simp: RequireAdminAuth_def Let_def unauthorized_def)
    show ?thesis
    proof (cases "?ip = ip")
      case True
      then show ?thesis
        using recordAttempt_step [OF k'(1) t(2,3)] k'(2) wrong(2) r by (auto simp: wrong_guess_def)
    next
      case False
      then show ?thesis using kept r by (simp add: wrong_guess_def recordAttempt_other)
    qed
  next
    case right
    then have "\<not> (ips \<noteq> [] \<and> \<not> ipAllowed ?ip ips)" "lim = False" by auto
    then have "nxt r (bs, snd s) = (resp, s')" using h lim right(3) by (auto simp: RequireAdminAuth_def Let_def)
    from leaves_ratesD [OF nxt this] show ?thesis using kept by (simp add: wrong_guess_def)
  qed
qed

lemma admin_requests_step:
  assumes "leaves_rates nxt" "bucket_ok t0 t k f (gm_get (fst s) ip)" "clock_ok t rs"
    and "serve_all (RequireAdminAuth cmp pw ips nxt) rs s = (resps, s')"
  shows "\<exists>k. bucket_ok t0 (clock_end t rs) k (f + wrong_guesses ip rs resps) (gm_get (fst s') ip)"
  using assms(2-)
proof (induction rs arbitrary: t k f s resps)
  case Nil
  then show ?case by (auto simp: clock_end_def wrong_guesses_def)
next
  case (Cons r rs)
  obtain resp s1 where 1: "RequireAdminAuth cmp pw ips nxt r s = (resp, s1)"
    by (cases "RequireAdminAuth cmp pw ips nxt r s")
  obtain resps1 where 2: "serve_all (RequireAdminAuth cmp pw ips nxt) rs s1 = (resps1, s')" "resps = resp # resps1"
    using Cons.prems(3) 1 by (auto split: prod.splits)
  obtain k1 where "bucket_ok t0 (reading r 2) k1 (f + (if wrong_guess ip r resp then 1 else 0)) (gm_get (fst s1) ip)"
    using admin_request_step [OF Cons.prems(1) assms(1) _ _ _ 1] Cons.prems(2) by auto
  from Cons.IH [OF this _ 2(1)] show ?case
    using Cons.prems(2) 2(2) by (cases "wrong_guess ip r resp") (auto simp: clock_end_def wrong_guesses_def algebra_simps)
qed

section \<open>Properties\<close>


definition guess :: "string \<Rightarrow> int \<Rightarrow> string \<Rightarrow> request" where
  "guess addr t password =
     \<lparr>rq_method = ''GET'', rq_path = ''/admin/devices'', rq_query = (\<lambda>_. []), rq_header = (\<lambda>_. []),
      rq_basic = Some (''admin'', password), rq_remote = addr @ '':4321'', rq_body = Inr [], rq_json = None, rq_flusher = True,
      rq_env = \<lparr>env_start = t, env_end = t, env_now = (\<lambda>_. t), env_wall = 0, env_rand = Inr [], env_uuid = [], env_gen = Inr,
        env_fetch = (\<lambda>_. Inl ErrDriver)\<rparr>,
      ctx_device_key_id = None, ctx_app_id = None, ctx_user_id = None\<rparr>"

definition ok_handler :: "(rates \<times> unit) handler" where
  "ok_handler r s = (reply 200 [] BEmpty, s)"

definition seven_guesses :: "request list" where
  "seven_guesses = map (\<lambda>t. guess ''10.0.0.9'' t ''wrong'') [1, 2, 3, 4, 5, 6, 7]"


section \<open>Requests at the same time\<close>

text \<open>
  The check and the recording are separate critical sections, and the comparison of the password,
  which bcrypt makes slow, lies between them.  \<open>admin_check\<close> is the part before it: whether the
  password is compared.
\<close>

definition admin_check :: "string list \<Rightarrow> request \<Rightarrow> rates \<Rightarrow> bool \<times> rates" where
  "admin_check ips r bs =
     (if ips \<noteq> [] \<and> \<not> ipAllowed (client_ip r) ips then (False, bs)
      else (case rateLimited (reading r 0) (client_ip r) bs of (lim, bs') \<Rightarrow> (\<not> lim, bs')))"

lemma RequireAdminAuth_check:
  "RequireAdminAuth cmp pw ips nxt r s =
     (case admin_check ips r (fst s) of
        (True, bs) \<Rightarrow>
          if password_ok cmp pw r then nxt r (bs, snd s)
          else (unauthorized, (recordAttempt (reading r 1) (reading r 2) (client_ip r) bs, snd s))
      | (False, bs) \<Rightarrow>
          (if ips \<noteq> [] \<and> \<not> ipAllowed (client_ip r) ips then http_error ''forbidden'' 403
           else http_error ''too many attempts'' 429, (bs, snd s)))"
  by (auto simp: RequireAdminAuth_def admin_check_def Let_def split: prod.split bool.split)

fun check_all :: "string list \<Rightarrow> request list \<Rightarrow> rates \<Rightarrow> bool list \<times> rates" where
  "check_all ips [] bs = ([], bs)"
| "check_all ips (r # rs) bs =
     (case admin_check ips r bs of (b, bs1) \<Rightarrow> (case check_all ips rs bs1 of (res, bs2) \<Rightarrow> (b # res, bs2)))"

text \<open>
  Requests that arrive together escape the limit: when all of them are checked before the first
  of them is recorded, every one of them gets its password compared, however many they are.
\<close>

theorem concurrent_guesses_escape:
  assumes "gm_get bs ip = None" "\<forall>r \<in> set rs. client_ip r = ip"
  shows "check_all [] rs bs = (replicate (length rs) True, bs)"
  using assms(2)
  by (induction rs) (simp_all add: admin_check_def rateLimited_def assms(1))

theorem concurrent_guesses_escape_witness:
  "fst (check_all [] (replicate 100 (guess ''10.0.0.9'' 1 ''wrong'')) []) = replicate 100 True"
proof -
  have "client_ip (guess ''10.0.0.9'' 1 ''wrong'') = ''10.0.0.9''" by code_simp
  then show ?thesis
    using concurrent_guesses_escape [of "[]" "''10.0.0.9''" "replicate 100 (guess ''10.0.0.9'' 1 ''wrong'')"] by simp
qed

end
