(* ===== verification/Compression.thy ===== *)
theory Compression
  imports Handlers Rate_Limit
begin

text \<open>
  \<open>compression/cbor/codec.go\<close> and \<open>compression/zstd/compressor.go\<close>: the wrappers around the two
  libraries, which are parameters.  A constructor is \<open>None\<close> when it panics.
\<close>

record cbor_library =
  cb_DecMode :: "err + unit"
  cb_Marshal :: "sync_response \<Rightarrow> err + string"
  cb_Marshal_message :: "sync_message \<Rightarrow> err + string"
  cb_Unmarshal :: "string \<Rightarrow> sync_message \<Rightarrow> err + sync_message"

record zstd_library =
  zs_NewWriter :: "err + unit"
  zs_NewReader :: "err + unit"
  zs_EncodeAll :: "string \<Rightarrow> string"
  zs_DecodeAll :: "string \<Rightarrow> err + string"

definition cbor_Encode :: "cbor_library \<Rightarrow> sync_response \<Rightarrow> err + string" where
  "cbor_Encode lib v = cb_Marshal lib v"

definition cbor_Decode :: "cbor_library \<Rightarrow> string \<Rightarrow> sync_message \<Rightarrow> err + sync_message" where
  "cbor_Decode lib data v = cb_Unmarshal lib data v"

definition NewCodec :: "cbor_library \<Rightarrow> (sync_response, sync_message) codec option" where
  "NewCodec lib =
     (case cb_DecMode lib of
        Inl e \<Rightarrow> None
      | Inr _ \<Rightarrow> Some \<lparr>Encode = cbor_Encode lib, Decode = cbor_Decode lib\<rparr>)"

definition zstd_Compress :: "zstd_library \<Rightarrow> string \<Rightarrow> err + string" where
  "zstd_Compress lib data = Inr (zs_EncodeAll lib data)"

definition zstd_Decompress :: "zstd_library \<Rightarrow> string \<Rightarrow> err + string" where
  "zstd_Decompress lib data =
     (case zs_DecodeAll lib data of Inl e \<Rightarrow> Inl (Wrap ''zstd decompress'' e) | Inr out \<Rightarrow> Inr out)"

definition NewCompressor :: "zstd_library \<Rightarrow> compressor option" where
  "NewCompressor lib =
     (case zs_NewWriter lib of
        Inl e \<Rightarrow> None
      | Inr _ \<Rightarrow>
          (case zs_NewReader lib of
             Inl e \<Rightarrow> None
           | Inr _ \<Rightarrow> Some \<lparr>Compress = zstd_Compress lib, Decompress = zstd_Decompress lib\<rparr>))"

section \<open>Properties\<close>

lemma trusted_body [simp]: "trusted (r\<lparr>rq_body := b\<rparr>) = trusted r"
  by (rule ext) (simp add: trusted_def)

definition tiny_cbor :: cbor_library where
  "tiny_cbor = \<lparr>cb_DecMode = Inr (), cb_Marshal = (\<lambda>_. Inr []), cb_Marshal_message = (\<lambda>m. Inr (msg_DatasetID m)),
     cb_Unmarshal = (\<lambda>data m. Inr (m\<lparr>msg_DatasetID := data\<rparr>))\<rparr>"

definition tiny_zstd :: zstd_library where
  "tiny_zstd = \<lparr>zs_NewWriter = Inr (), zs_NewReader = Inr (), zs_EncodeAll = (\<lambda>d. ''Z'' @ d),
     zs_DecodeAll = (\<lambda>d. if d = [] then Inl (ErrMsg ''magic'') else Inr (tl d))\<rparr>"

text \<open>A message that the client marshals and compresses to at most 4 MiB arrives as it was sent, with the
ids of the authenticated context in place of its own, when the libraries undo themselves on it; of
a longer body the handler reads the first 4 MiB only, so it answers as if the rest were not there.\<close>

theorem message_arrives:
  assumes "NewCodec cb = Some cod" "NewCompressor zs = Some cpr"
    and "cb_Marshal_message cb msg = Inr raw" "cb_Unmarshal cb raw zero_message = Inr msg"
    and "zs_DecodeAll zs (zs_EncodeAll zs raw) = Inr raw"
    and "length (zs_EncodeAll zs raw) \<le> body_limit" "rq_body r = Inr (zs_EncodeAll zs raw)"
  shows "read_message (NewSyncHandler eng cod (Some cpr)) r = Inr (trusted r msg)
    \<and> read_message (NewSyncHandler eng cod (Some cpr)) (r\<lparr>rq_body := Inr bytes\<rparr>)
        = read_message (NewSyncHandler eng cod (Some cpr)) (r\<lparr>rq_body := Inr (take body_limit bytes)\<rparr>)"
proof -
  have "Decode cod = cbor_Decode cb" using assms(1) by (auto simp: NewCodec_def split: sum.splits)
  moreover have "Decompress cpr = zstd_Decompress zs" using assms(2) by (auto simp: NewCompressor_def split: sum.splits)
  ultimately show ?thesis
    using assms(3-7) by (simp add: read_message_def NewSyncHandler_def cbor_Decode_def zstd_Decompress_def split: sum.split)
qed

theorem message_arrives_witness:
  "\<exists>cod cpr. NewCodec tiny_cbor = Some cod \<and> NewCompressor tiny_zstd = Some cpr
     \<and> read_message (NewSyncHandler (NewEngine NopStorage (\<lambda>a u. retP ()) 1) cod (Some cpr))
         ((guess ''10.0.0.9'' 1 ''x'')\<lparr>rq_body := Inr ''Zds1''\<rparr>)
       = Inr (zero_message\<lparr>msg_DatasetID := ''ds1''\<rparr>)"
proof -
  let ?r = "(guess ''10.0.0.9'' 1 ''x'')\<lparr>rq_body := Inr ''Zds1''\<rparr>" and ?msg = "zero_message\<lparr>msg_DatasetID := ''ds1''\<rparr>"
  obtain cod cpr where c: "NewCodec tiny_cbor = Some cod" "NewCompressor tiny_zstd = Some cpr"
    by (simp add: NewCodec_def tiny_cbor_def NewCompressor_def tiny_zstd_def)
  have l: "cb_Marshal_message tiny_cbor ?msg = Inr ''ds1''" "cb_Unmarshal tiny_cbor ''ds1'' zero_message = Inr ?msg"
    "zs_DecodeAll tiny_zstd (zs_EncodeAll tiny_zstd ''ds1'') = Inr ''ds1''"
    "length (zs_EncodeAll tiny_zstd ''ds1'') \<le> body_limit" "rq_body ?r = Inr (zs_EncodeAll tiny_zstd ''ds1'')"
    by (simp_all add: tiny_cbor_def tiny_zstd_def body_limit_def)
  have "trusted ?r ?msg = ?msg" by (simp add: trusted_def guess_def ctx_value_def)
  then show ?thesis using message_arrives [OF c l] c by auto
qed

end
