(* ===== verification/Templates.thy ===== *)
theory Templates
  imports Prelude
begin

text \<open>
  \<open>admin/embed.go\<close>: the function the templates call to shorten a document.  Go's conversion of a
  string to runes reads UTF-8 and turns each byte that is not part of it into U+FFFD; the
  conversion back writes UTF-8.  Bytes and runes are natural numbers.
\<close>

section \<open>Strings and runes\<close>

definition bytes_of :: "string \<Rightarrow> nat list" where
  "bytes_of s = map of_char s"

definition string_of :: "nat list \<Rightarrow> string" where
  "string_of bs = map char_of bs"

text \<open>For the first byte of a longer sequence: the length and the range of the second byte.\<close>

definition lead :: "nat \<Rightarrow> (nat \<times> nat \<times> nat) option" where
  "lead b =
     (if b < 194 \<or> 244 < b then None
      else if b \<le> 223 then Some (1, 128, 191)
      else if b \<le> 239 then Some (2, if b = 224 then 160 else 128, if b = 237 then 159 else 191)
      else Some (3, if b = 240 then 144 else 128, if b = 244 then 143 else 191))"

definition continuation :: "nat \<Rightarrow> bool" where
  "continuation b \<longleftrightarrow> 128 \<le> b \<and> b \<le> 191"

text \<open>The first rune of a sequence and the number of bytes after the first that it takes.\<close>

definition decode_rune :: "nat \<Rightarrow> nat list \<Rightarrow> nat \<times> nat" where
  "decode_rune b bs =
     (if b < 128 then (b, 0)
      else (case lead b of
              Some (n, lo, hi) \<Rightarrow>
                if n \<le> length bs \<and> lo \<le> hd bs \<and> hd bs \<le> hi \<and> list_all continuation (take n bs)
                then (foldl (\<lambda>v c. v * 64 + c mod 64) (b mod 2 ^ (6 - n)) (take n bs), n)
                else (65533, 0)
            | None \<Rightarrow> (65533, 0)))"

function decode_runes :: "nat list \<Rightarrow> nat list" where
  "decode_runes [] = []"
| "decode_runes (b # bs) = (case decode_rune b bs of (r, n) \<Rightarrow> r # decode_runes (drop n bs))"
  by pat_completeness auto
termination by (relation "measure length") auto

definition valid_rune :: "nat \<Rightarrow> bool" where
  "valid_rune r \<longleftrightarrow> r < 55296 \<or> (57343 < r \<and> r \<le> 1114111)"

definition encode_rune :: "nat \<Rightarrow> nat list" where
  "encode_rune r =
     (if r < 128 then [r]
      else if r < 2048 then [192 + r div 64, 128 + r mod 64]
      else if \<not> valid_rune r then [239, 191, 189]
      else if r < 65536 then [224 + r div 4096, 128 + r div 64 mod 64, 128 + r mod 64]
      else [240 + r div 262144, 128 + r div 4096 mod 64, 128 + r div 64 mod 64, 128 + r mod 64])"

definition runes :: "string \<Rightarrow> nat list" where
  "runes s = decode_runes (bytes_of s)"

definition string_of_runes :: "nat list \<Rightarrow> string" where
  "string_of_runes rs = string_of (concat (map encode_rune rs))"

text \<open>\<open>None\<close> is the panic of a slice with a negative bound.\<close>

definition truncate :: "string \<Rightarrow> int \<Rightarrow> string option" where
  "truncate s n =
     (if int (length (runes s)) \<le> n then Some s
      else if n < 0 then None
      else Some (string_of_runes (take (nat n) (runes s)) @ string_of [226, 128, 166]))"

section \<open>Decoding what was encoded\<close>

lemma bytes_of_string_of: "list_all (\<lambda>b. b < 256) bs \<Longrightarrow> bytes_of (string_of bs) = bs"
  by (induction bs) (simp_all add: bytes_of_def string_of_def)

lemma bytes_of_append: "bytes_of (a @ b) = bytes_of a @ bytes_of b"
  by (simp add: bytes_of_def)

lemma encode_rune_bytes: "list_all (\<lambda>b. b < 256) (encode_rune r)"
  by (auto simp: encode_rune_def valid_rune_def)

lemma digits64:
  "(r::nat) = ((r div 262144 * 64 + r div 4096 mod 64) * 64 + r div 64 mod 64) * 64 + r mod 64"
  using div_mult_mod_eq [of "r div 4096" 64] div_mult_mod_eq [of "r div 64" 64] by (simp flip: div_mult2_eq)

lemma decode_rune_two:
  "2 \<le> c \<Longrightarrow> c < 32 \<Longrightarrow> d < 64 \<Longrightarrow> decode_rune (192 + c) ((128 + d) # bs) = (c * 64 + d, 1)"
  by (auto simp: decode_rune_def lead_def continuation_def mod_add_eq [of 192, symmetric] mod_add_eq [of 128, symmetric])

lemma decode_rune_three:
  assumes "b < 16" "c < 64" "d < 64" "0 < b \<or> 32 \<le> c" "b = 13 \<longrightarrow> c < 32"
  shows "decode_rune (224 + b) ((128 + c) # (128 + d) # bs) = ((b * 64 + c) * 64 + d, 2)"
proof -
  have "lead (224 + b) = Some (2, if b = 0 then 160 else 128, if b = 13 then 159 else 191)"
    using assms(1) by (simp add: lead_def)
  then show ?thesis using assms
    by (auto simp: decode_rune_def continuation_def mod_add_eq [of 224, symmetric] mod_add_eq [of 128, symmetric])
qed

lemma decode_rune_four:
  assumes "a < 5" "b < 64" "c < 64" "d < 64" "0 < a \<or> 16 \<le> b" "a = 4 \<longrightarrow> b < 16"
  shows "decode_rune (240 + a) ((128 + b) # (128 + c) # (128 + d) # bs) = (((a * 64 + b) * 64 + c) * 64 + d, 3)"
proof -
  have "lead (240 + a) = Some (3, if a = 0 then 144 else 128, if a = 4 then 143 else 191)"
    using assms(1) by (simp add: lead_def)
  then show ?thesis using assms
    by (auto simp: decode_rune_def continuation_def mod_add_eq [of 240, symmetric] mod_add_eq [of 128, symmetric])
qed

lemma encode_rune_decodes:
  assumes "valid_rune r"
  shows "\<exists>b cs. encode_rune r = b # cs \<and> decode_rune b (cs @ bs) = (r, length cs)"
proof -
  define a b c d where q: "a = r div 262144" "b = r div 4096 mod 64" "c = r div 64 mod 64" "d = r mod 64"
  have r: "r = ((a * 64 + b) * 64 + c) * 64 + d" "b < 64" "c < 64" "d < 64"
    unfolding q using digits64 by simp_all
  consider "r < 128" | "128 \<le> r" "r < 2048" | "2048 \<le> r" "r < 65536" | "65536 \<le> r" "r \<le> 1114111"
    using assms by (fastforce simp: valid_rune_def)
  then show ?thesis
  proof cases
    case 1
    then show ?thesis by (simp add: encode_rune_def decode_rune_def)
  next
    case 2
    have e: "262144 * a + 4096 * b + 64 * c + d < 2048" using 2 r(1) by simp
    then have z: "a = 0" "b = 0" by simp_all
    then have "128 \<le> c * 64 + d" "c * 64 < 2048" using 2(1) r(1) e by (simp_all add: z)
    then have "2 \<le> c" "c < 32" using r(4) by simp_all
    moreover from z have "r div 64 = c" "c * 64 + d = r" using r by simp_all
    ultimately show ?thesis using 2 q(4) r(4) decode_rune_two [of c d bs] by (simp add: encode_rune_def)
  next
    case 3
    have e: "262144 * a + 4096 * b + 64 * c + d < 65536" using 3 r(1) by simp
    then have z: "a = 0" by simp
    then have v: "(b * 64 + c) * 64 + d = r" using r by simp
    then have "0 < b \<or> 32 \<le> c" "b = 13 \<longrightarrow> c < 32" using 3(1) r(3,4) assms by (auto simp: valid_rune_def)
    moreover have "b < 16" using e by simp
    moreover have "r div 4096 = b" using r z by simp
    ultimately show ?thesis using 3 q(3,4) r(2-) v assms decode_rune_three [of b c d bs] by (simp add: encode_rune_def)
  next
    case 4
    then have "a < 5" "0 < a \<or> 16 \<le> b" "a = 4 \<longrightarrow> b < 16" using r by auto
    then show ?thesis using 4 r(2-) assms decode_rune_four [of a b c d bs, folded r(1)] by (simp add: encode_rune_def q)
  qed
qed

lemma decode_encoded: "list_all valid_rune rs \<Longrightarrow> decode_runes (concat (map encode_rune rs) @ bs) = rs @ decode_runes bs"
proof (induction rs)
  case (Cons r rs)
  obtain b cs where "encode_rune r = b # cs"
    "decode_rune b (cs @ concat (map encode_rune rs) @ bs) = (r, length cs)"
    using encode_rune_decodes [of r "concat (map encode_rune rs) @ bs"] Cons.prems by auto
  then show ?case using Cons by simp
qed simp

lemma runes_string_of_runes:
  assumes "list_all valid_rune rs"
  shows "runes (string_of_runes rs @ string_of bs) = rs @ decode_runes (bytes_of (string_of bs))"
proof -
  have "list_all (\<lambda>b. b < 256) (concat (map encode_rune rs))"
    using encode_rune_bytes by (induction rs) simp_all
  then show ?thesis
    using decode_encoded [OF assms] by (simp add: runes_def string_of_runes_def bytes_of_append bytes_of_string_of)
qed

section \<open>Every decoded rune is valid\<close>

lemma lead_cases:
  assumes "lead b = Some (n, lo, hi)"
  obtains (two) a where "n = 1" "b = 192 + a" "a < 32" "lo = 128" "hi = 191"
  | (three) a where "n = 2" "b = 224 + a" "a < 16" "lo = (if a = 0 then 160 else 128)" "hi = (if a = 13 then 159 else 191)"
  | (four) a where "n = 3" "b = 240 + a" "a < 5" "lo = (if a = 0 then 144 else 128)" "hi = (if a = 4 then 143 else 191)"
proof -
  consider "b \<le> 223" | "223 < b" "b \<le> 239" | "239 < b" by linarith
  then show thesis
    using assms two [of "b - 192"] three [of "b - 224"] four [of "b - 240"]
    by cases (auto simp: lead_def split: if_splits)
qed

lemma decode_rune_valid: "valid_rune (fst (decode_rune b bs))"
proof (cases "b < 128 \<or> decode_rune b bs = (65533, 0)")
  case True
  then show ?thesis by (auto simp: decode_rune_def [of b] valid_rune_def)
next
  case False
  then obtain n lo hi where l: "lead b = Some (n, lo, hi)"
    and c: "n \<le> length bs" "lo \<le> hd bs" "hd bs \<le> hi" "list_all continuation (take n bs)"
    and d: "decode_rune b bs = (foldl (\<lambda>v c. v * 64 + c mod 64) (b mod 2 ^ (6 - n)) (take n bs), n)"
    by (auto simp: decode_rune_def split: option.splits if_splits)
  have m: "c mod 64 < 64" for c :: nat by simp
  from l show ?thesis
  proof (cases rule: lead_cases)
    case (two a)
    then obtain x xs where "bs = x # xs" using c(1) by (cases bs) auto
    then have "fst (decode_rune b bs) = a * 64 + x mod 64" using two d by (simp add: mod_add_eq [of 192, symmetric])
    also have "\<dots> < 55296" using two m [of x] by linarith
    finally show ?thesis by (simp add: valid_rune_def)
  next
    case (three a)
    then obtain x y xs where bs: "bs = x # y # xs" using c(1) by (cases bs rule: remdups_adj.cases) auto
    define x' where "x' = x - 128"
    have x: "x = 128 + x'" "x' < 64" "a = 13 \<longrightarrow> x' < 32" using c bs three by (auto simp: x'_def split: if_splits)
    then have "fst (decode_rune b bs) = (a * 64 + x') * 64 + y mod 64"
      using d three bs by (simp add: mod_add_eq [of 224, symmetric] mod_add_eq [of 128, symmetric])
    moreover have "a < 13 \<or> a = 13 \<or> 13 < a" by linarith
    ultimately show ?thesis using x three m [of y] by (auto simp: valid_rune_def)
  next
    case (four a)
    then obtain x y z xs where bs: "bs = x # y # z # xs"
      using c(1) by (cases bs; cases "tl bs"; cases "tl (tl bs)") auto
    define x' where "x' = x - 128"
    have x: "x = 128 + x'" "x' < 64" "a = 0 \<longrightarrow> 16 \<le> x'" "a = 4 \<longrightarrow> x' < 16"
      using c bs four by (auto simp: x'_def split: if_splits)
    then have "fst (decode_rune b bs) = ((a * 64 + x') * 64 + y mod 64) * 64 + z mod 64"
      using d four bs by (simp add: mod_add_eq [of 240, symmetric] mod_add_eq [of 128, symmetric])
    moreover have "a = 0 \<or> a = 1 \<or> a = 2 \<or> a = 3 \<or> a = 4" using four by linarith
    ultimately show ?thesis using x m [of y] m [of z] by (auto simp: valid_rune_def)
  qed
qed

lemma runes_valid: "list_all valid_rune (decode_runes bs)"
proof (induction bs rule: decode_runes.induct)
  case (2 b bs)
  then show ?case using decode_rune_valid [of b bs] by (auto split: prod.splits)
qed simp

section \<open>Property\<close>

text \<open>Shortening never panics with a bound that is not negative, on any bytes: a string of at most \<open>n\<close> runes
is left as it is, and of a longer one the first \<open>n\<close> runes stay, each decodable again, with one ellipsis
after them.\<close>

theorem truncate_runes:
  assumes "0 \<le> n"
  shows "\<exists>t. truncate s n = Some t
    \<and> (if int (length (runes s)) \<le> n then t = s else runes t = take (nat n) (runes s) @ [8230])
    \<and> int (length (runes t)) \<le> n + 1"
proof (cases "int (length (runes s)) \<le> n")
  case False
  have "list_all valid_rune (take (nat n) (runes s))"
    using runes_valid [of "bytes_of s"] by (auto simp: runes_def list_all_iff dest: in_set_takeD)
  from runes_string_of_runes [OF this, of "[226, 128, 166]"]
  have "runes (string_of_runes (take (nat n) (runes s)) @ string_of [226, 128, 166]) = take (nat n) (runes s) @ [8230]"
    by (simp add: bytes_of_string_of decode_rune_def lead_def continuation_def)
  then show ?thesis using assms False by (simp add: truncate_def)
qed (simp add: truncate_def)

theorem truncate_runes_witness:
  "truncate (string_of [226, 130, 172, 255, 97, 98]) 2 = Some (string_of [226, 130, 172, 239, 191, 189, 226, 128, 166])
   \<and> (\<exists>t. truncate (string_of [226, 130, 172, 255, 97, 98]) 2 = Some t \<and> runes t = [8364, 65533, 8230])"
proof -
  let ?s = "string_of [226, 130, 172, 255, 97, 98]"
  have r: "runes ?s = [8364, 65533, 97, 98]"
    by (simp add: runes_def bytes_of_string_of decode_rune_def lead_def continuation_def)
  then have "truncate ?s 2 = Some (string_of [226, 130, 172, 239, 191, 189, 226, 128, 166])"
    by (simp add: truncate_def string_of_runes_def encode_rune_def valid_rune_def string_of_def)
  then show ?thesis using truncate_runes [of 2 ?s] r by auto
qed

end
