(* ===== verification/Spec2Isabelle.thy ===== *)
theory Spec2Isabelle
  imports Process Connections Concurrency Races Admin_Views Compression Templates Engine Device_Runs Oidc_Runs Rate_Limit
begin

text \<open>
  mobile-db: the synchronisation server for mobile databases, as a library of theories.

  \<^bold>\<open>The program.\<close>  Mobile clients keep their data as operations, one write of a value to a field of a
  document, each with a stamp of a hybrid logical clock.  A client posts its new operations to
  \<open>/sync\<close>; the server merges them into the operation log of the client's dataset, wakes the event
  streams of the same user, compacts the log when it has grown past a threshold, and answers with
  the operations after the client's cursor, and with a snapshot when the client's schema is old.
  A request passes the request log, the mux, the check of the device key, the check of the
  access token, the decoding of the body (compressed CBOR), the engine, the storage backend, and
  SQLite with the cr-sqlite extension.  Beside it there are the registration, rotation and
  revocation of device keys, the event stream \<open>/events\<close>, the admin console under \<open>/admin/\<close>, \<open>/health\<close>,
  \<open>/metrics\<close>, and a goroutine that copies the database.

  \<^bold>\<open>Theories and sources\<close> (paths under \<open>src/\<close>; a definition has the name of its Go function, with a
  prefix where two have the same one).
  \<^item> \<open>Prelude\<close>: Go's maps, fallible programs on a state (\<open>prog\<close>, \<open>bindP\<close>), package \<open>strings\<close>, \<open>int\<close>
    arithmetic that wraps (\<open>wrap64\<close>).  \<open>Go_Json\<close>: values of type \<open>any\<close> and \<open>encoding/json\<close>.
  \<^item> \<open>Core_Types\<close> (\<open>core/types.go\<close>), \<open>Hlc\<close> (\<open>core/crdt/hlc.go\<close>), \<open>Lww\<close> and \<open>Merge\<close> (\<open>core/crdt/merge.go\<close>),
    \<open>Interfaces\<close> (\<open>core/interfaces.go\<close>), \<open>Engine\<close> (\<open>core/sync/engine.go\<close>, \<open>core/crdt/compaction.go\<close>,
    \<open>core/crdt/schema.go\<close>).
  \<^item> \<open>Sqlite\<close> (the SQL statements on tables, with a schedule of driver errors), \<open>Dataset\<close>
    (\<open>storage/crsqlite/data.go\<close>), \<open>Meta_Store\<close> (\<open>meta.go\<close>, \<open>metadb.go\<close>, \<open>open.go\<close>),
    \<open>Connections\<close> (who owns a connection and closes it), \<open>Backend\<close> (\<open>backend.go\<close>),
    \<open>Auth_Store\<close> (\<open>server/auth/store.go\<close>, \<open>authstore.go\<close>), \<open>Admin_Store\<close> (\<open>adminstore.go\<close>).
    \<open>Compaction\<close>, \<open>Backend_Runs\<close> and \<open>Backend_Reads\<close> prove what the backend's methods do to a log,
    one by one and over runs.
  \<^item> \<open>Broadcaster\<close> (\<open>transport/http2/sse.go\<close>), \<open>Compression\<close> (\<open>compression/\<close>).
  \<^item> \<open>Device\<close> and \<open>Device_Runs\<close> (\<open>server/auth/device.go\<close>), \<open>Oidc\<close> and \<open>Oidc_Runs\<close> (\<open>server/auth/jwt.go\<close>),
    \<open>Http\<close> (what the handlers use of \<open>net/http\<close>), \<open>Middleware\<close> and \<open>Rate_Limit\<close> (\<open>server/middleware/\<close>),
    \<open>Handlers\<close> (\<open>server/handlers/\<close>, \<open>server/auth/handlers.go\<close>), \<open>Config\<close> (\<open>server/config.go\<close>),
    \<open>Admin_Pages\<close> and \<open>Admin_Views\<close> (\<open>admin/\<close>), \<open>Templates\<close> (\<open>admin/embed.go\<close>), \<open>Backup\<close>
    (\<open>server/backup/backup.go\<close>), \<open>Router\<close> (\<open>server/router.go\<close>, the wiring in \<open>server/server.go\<close>, \<open>main.go\<close>).
  \<^item> \<open>Event_Streams\<close> (the streams of \<open>transport/http2/sse.go\<close> behind the router) and \<open>Process\<close> (\<open>Run\<close> in
    \<open>server/server.go\<close> from listening to its deferred calls, and the end of \<open>main.go\<close>): one step
    relation in which requests, event streams, the backup goroutine, the listener and \<open>Run\<close> take
    turns on the state of the server.
  \<^item> \<open>Threads\<close> (programs cut into atomic steps, pools of them, and what they guarantee each other),
    \<open>Interleaving\<close> (the store, device and engine methods of the handlers as such threads, a statement,
    transaction, lock or channel operation a step; alone each is the method) and \<open>Concurrency\<close> (any
    number of them at once).
  \<^item> Over the whole server: \<open>Security\<close> and \<open>Access\<close> (what a request can change, and who can send it),
    \<open>Sync_Http\<close> (a sync from request to log), \<open>Server_Runs\<close> (any sequence of requests), \<open>Startup\<close>
    (a restart), \<open>Races\<close> (two gaps between tables and services).

  \<^bold>\<open>State.\<close>  A \<open>database\<close> holds the metadata tables, the snapshots and one log per table name; the
  engine's \<open>world\<close> is the database, the broadcaster and the clock; \<open>server_state\<close> adds the token
  validator, the table of failed admin logins and the request log.  A handler takes a request and
  its part of the state to a response and the new state.  What the outside decides is an argument:
  the readings of clocks, random bytes and UUIDs and the issuer's answers (\<open>env\<close>, in the request), the
  driver's errors (\<open>faults\<close>), the orders in which Go visits a map (\<open>ranges\<close> and seeds).  Theorems hold
  for all of them unless they say otherwise.

  \<^bold>\<open>Interfaces.\<close>  \<open>statement_relation\<close> and \<open>dataset_invariant\<close>: a relation on databases every statement
  keeps, hence every method; \<open>lww_register\<close>: what the merge loops need of the order of stamps;
  \<open>storage_backend_laws\<close> and \<open>durable_backend\<close>: what the engine relies on, provided by the SQLite
  backend; \<open>auth_store\<close>: what the device service relies on, provided by the metadata tables; \<open>interference\<close>:
  what the threads of a pool rely on from each other, given by \<open>statement_relation\<close>; \<open>guard\<close>
  and \<open>guard_pair\<close>: what the router relies on, provided by the three checks.

  \<^bold>\<open>What is shown.\<close>
  \<^item> Merging: the merge is a function of the set of operations and keeps the latest write of each
    field; pushes and compactions refine that specification over any run; a compaction changes no
    winner; a batch is stored whole or not at all; a delta is exactly what lies after the cursor.
  \<^item> Clock: stamps only grow, until the wall time saturates.
  \<^item> Keys and tokens: which credentials are accepted, a revocation is final once no rotation of the
    key is under way, a token was signed by a key the issuer published recently, five wrong
    passwords per address and window.
  \<^item> The server: a log is changed only by an authenticated sync of its own tenant; a device key only
    by its secret, an accepted device or the admin; strangers change nothing; the tables stay well
    formed over any sequence of requests; a restart keeps the data; backups copy and stop.
  \<^item> The process: all of this holds from the start to the end of the shutdown; a stream is opened
    only with a token and only for its app and user; an answered push wakes every subscribed
    stream of its user; \<open>Run\<close> comes to its end at most ten seconds after the signal.
  \<^item> Concurrency: whatever statements of other calls run between its own, a call keeps the tables
    well formed and loses no row, and what an answered sync pushed stays in the log.
  \<^item> Failures of the code, as theorems about its model: an interrupted compaction loses operations,
    and so do two syncs at once when one compacts (the rows stay, archived); a late operation is
    never delivered; a rotation undoes a revocation; ids collide in table names and in the
    snapshots table; a token without subject names any user.

  \<^bold>\<open>Bounds.\<close>  \<open>int64\<close> and \<open>uint32\<close> are words of their width.  Go's \<open>int\<close> is an integer; where the program
  computes with values a client chooses (page numbers, offsets) \<open>wrap64\<close> is written out.  Times in
  nanoseconds are integers.  All loops are over finite data; nothing uses fuel.

  \<^bold>\<open>Parameters.\<close>  SQLite and cr-sqlite are read by SQLite's documentation; \<open>crr_tables\<close> is what the
  extension adds to the schema.  bcrypt (\<open>gen\<close>, \<open>cmp\<close>), the JWT library (\<open>jwt_library\<close>), CBOR and zstd
  (\<open>cbor_library\<close>, \<open>zstd_library\<close>), \<open>html/template\<close> (\<open>templates\<close>) and the Prometheus registry
  (\<open>ex_metrics\<close>, \<open>ex_metrics_text\<close>) are arguments.

  \<^bold>\<open>Not modelled.\<close>  The embedding and parsing of the HTML templates, and what they render; the values
  and the text format of the metrics (no code updates them); TCP, HTTP framing and timeouts below
  \<open>net/http\<close>; the formatting of times; encryption of the database file; the interleaving
  of two token validations and of two admin logins (\<open>Process\<close> and \<open>Server_Runs\<close> take whole requests as
  steps, \<open>Concurrency\<close> the statements of the calls that write); a database
  file that changes while it is copied; the tests.
\<close>

end
